(* ===== verification/Prelude.thy ===== *)
theory Prelude
  imports Main "HOL-Library.Word"
begin

text \<open>
  Shared vocabulary of the development: the machine integers and byte strings of the code,
  undefined behaviour of C++ as a value, checked memory reads and writes, and the lemmas on
  lists and blocks of bytes that every component uses.

  A raw pointer into a buffer is modelled by the list of the bytes that can be addressed
  through it, together with an offset. Every access goes through \<open>rd\<close>, \<open>wr\<close>,
  \<open>rd_block\<close> or \<open>wr_block\<close>, which return \<open>Inl Out_Of_Bounds\<close> outside the buffer, so
  that memory safety is a theorem about the definitions and not an assumption of the model.
\<close>

unbundle bit_operations_syntax

type_synonym u8 = "8 word"
type_synonym u16 = "16 word"
type_synonym u32 = "32 word"
type_synonym u64 = "64 word"
type_synonym bytes = "u8 list"

named_theorems res_simps \<open>unfolding of the result monad and of checked accesses\<close>
named_theorems codec_simps \<open>byte codecs as reads and writes of whole blocks\<close>
named_theorems inv_intros \<open>preservation of component invariants\<close>

lemma word_xor_cancel [simp]:
  "x XOR z = y XOR z \<longleftrightarrow> x = y" "z XOR x = z XOR y \<longleftrightarrow> x = y" for x y z :: "'a::len word"
proof -
  have "x = (x XOR z) XOR z" "y = (y XOR z) XOR z" by (simp_all add: xor.assoc)
  then show "x XOR z = y XOR z \<longleftrightarrow> x = y" by metis
  then show "z XOR x = z XOR y \<longleftrightarrow> x = y" by (simp add: xor.commute)
qed

section \<open>Abnormal outcomes as values\<close>

text \<open>
  A \<open>fault\<close> is an outcome other than a normal return: undefined behaviour of the C++ code (an
  access outside a buffer, a null or dangling pointer, an uninitialised read, a division by
  zero, a missing return), an exception that leaves the function, or a call of \<open>exit\<close>.
\<close>

datatype fault = Out_Of_Bounds | Null_Deref | Use_After_Free | Double_Free | Uninitialised
  | Division_By_Zero | Missing_Return | Thrown string | Exited int

type_synonym 'a res = "fault + 'a"

definition bindR :: "'a res \<Rightarrow> ('a \<Rightarrow> 'b res) \<Rightarrow> 'b res" where
  "bindR m f = (case m of Inl e \<Rightarrow> Inl e | Inr a \<Rightarrow> f a)"

lemma bindR_Inl [simp]: "bindR (Inl e) f = Inl e"
  by (simp add: bindR_def)

lemma bindR_Inr [simp]: "bindR (Inr a) f = f a"
  by (simp add: bindR_def)

lemma bindR_Inr_right [simp]: "bindR m Inr = m"
  by (simp add: bindR_def split: sum.splits)

lemma bindR_assoc: "bindR (bindR m f) g = bindR m (\<lambda>a. bindR (f a) g)"
  by (simp add: bindR_def split: sum.splits)

lemma bindR_eq_Inr_iff:
  "bindR m f = Inr b \<longleftrightarrow> (\<exists>a. m = Inr a \<and> f a = Inr b)"
  by (simp add: bindR_def split: sum.splits)

lemma bindR_Inr_E [elim]:
  assumes "bindR m f = Inr b"
  obtains a where "m = Inr a" "f a = Inr b"
  using assms by (auto simp: bindR_eq_Inr_iff)

lemma bindR_if: "bindR (if b then m else n) f = (if b then bindR m f else bindR n f)"
  by simp

section \<open>Checked memory\<close>

definition rd :: "'a list \<Rightarrow> nat \<Rightarrow> 'a res" where
  "rd d i = (if i < length d then Inr (d ! i) else Inl Out_Of_Bounds)"

definition wr :: "'a list \<Rightarrow> nat \<Rightarrow> 'a \<Rightarrow> 'a list res" where
  "wr d i b = (if i < length d then Inr (d[i := b]) else Inl Out_Of_Bounds)"

definition rd_block :: "'a list \<Rightarrow> nat \<Rightarrow> nat \<Rightarrow> 'a list res" where
  "rd_block d i n = (if i + n \<le> length d then Inr (take n (drop i d)) else Inl Out_Of_Bounds)"

definition wr_block :: "'a list \<Rightarrow> nat \<Rightarrow> 'a list \<Rightarrow> 'a list res" where
  "wr_block d i bs =
     (if i + length bs \<le> length d then Inr (take i d @ bs @ drop (i + length bs) d)
      else Inl Out_Of_Bounds)"

lemma rd_Inr [simp]: "i < length d \<Longrightarrow> rd d i = Inr (d ! i)"
  by (simp add: rd_def)

lemma rd_Inl [simp]: "length d \<le> i \<Longrightarrow> rd d i = Inl Out_Of_Bounds"
  by (simp add: rd_def)

lemma rd_block_Inr [simp]: "i + n \<le> length d \<Longrightarrow> rd_block d i n = Inr (take n (drop i d))"
  by (simp add: rd_block_def)

lemma rd_block_Inl [simp]: "length d < i + n \<Longrightarrow> rd_block d i n = Inl Out_Of_Bounds"
  by (simp add: rd_block_def)

lemma wr_block_Inr:
  "i + length bs \<le> length d \<Longrightarrow>
     wr_block d i bs = Inr (take i d @ bs @ drop (i + length bs) d)"
  by (simp add: wr_block_def)

lemma wr_block_Inl [simp]:
  "length d < i + length bs \<Longrightarrow> wr_block d i bs = Inl Out_Of_Bounds"
  by (simp add: wr_block_def)

lemma wr_block_length: "wr_block d i bs = Inr d' \<Longrightarrow> length d' = length d"
  by (auto simp: wr_block_def split: if_splits)

text \<open>A single write is a block of length one, and adjacent writes join to one block.\<close>

lemma wr_as_block: "wr d i b = wr_block d i [b]"
  by (simp add: wr_def wr_block_def upd_conv_take_nth_drop)

lemma wr_block_join:
  assumes "j = i + length as"
  shows "bindR (wr_block d j bs) (\<lambda>d. wr_block d i as) = wr_block d i (as @ bs)"
    and "bindR (wr_block d j bs) (\<lambda>d. bindR (wr_block d i as) f) = bindR (wr_block d i (as @ bs)) f"
proof -
  show "bindR (wr_block d j bs) (\<lambda>d. wr_block d i as) = wr_block d i (as @ bs)"
    using assms by (cases "j + length bs \<le> length d") (simp_all add: wr_block_def add.assoc)
  then show "bindR (wr_block d j bs) (\<lambda>d. bindR (wr_block d i as) f) = bindR (wr_block d i (as @ bs)) f"
    by (simp flip: bindR_assoc)
qed

lemma wr_block_at:
  "length old = length new \<Longrightarrow>
     wr_block (pre @ old @ post) (length pre) new = Inr (pre @ new @ post)"
  by (simp add: wr_block_def)

lemma rd_block_at:
  "rd_block (pre @ bs @ post) (length pre) (length bs) = Inr bs"
  by (simp add: rd_block_def)

text \<open>What a block write leaves elsewhere, and what it makes readable.\<close>

lemma rd_block_wr_block_same:
  "wr_block d i bs = Inr d' \<Longrightarrow> rd_block d' i (length bs) = Inr bs"
  by (auto simp: wr_block_def rd_block_def split: if_splits)

lemma take_drop_nth_eq:
  "i + n \<le> length d \<Longrightarrow> i + n \<le> length d' \<Longrightarrow> (\<And>k. i \<le> k \<Longrightarrow> k < i + n \<Longrightarrow> d' ! k = d ! k) \<Longrightarrow>
     take n (drop i d') = take n (drop i d)"
  by (rule nth_equalityI) auto

lemma rd_block_wr_block_other:
  assumes "wr_block d i bs = Inr d'" and "j + n \<le> i \<or> i + length bs \<le> j"
  shows "rd_block d' j n = rd_block d j n"
proof (cases "j + n \<le> length d")
  case True
  from assms(1) have d': "d' = take i d @ bs @ drop (i + length bs) d"
      and i: "i + length bs \<le> length d"
    by (auto simp: wr_block_def split: if_splits)
  have len: "length d' = length d" using d' i by simp
  have "take n (drop j d') = take n (drop j d)"
  proof (rule take_drop_nth_eq)
    show "j + n \<le> length d" by fact
    show "j + n \<le> length d'" using True len by simp
    fix k assume k: "j \<le> k" "k < j + n"
    with assms(2) True i show "d' ! k = d ! k"
      by (auto simp: d' nth_append add.commute)
  qed
  with True len show ?thesis by simp
next
  case False
  with wr_block_length [OF assms(1)] show ?thesis by (simp add: rd_block_def)
qed

lemma list_three_way_split:
  assumes "i + n \<le> length d"
  obtains pre mid post where "d = pre @ mid @ post" "length pre = i" "length mid = n"
proof
  show "d = take i d @ take n (drop i d) @ drop (i + n) d"
    by (metis append.assoc append_take_drop_id take_add)
qed (use assms in auto)

end
