(* ===== verification/Std_Map.thy ===== *)
theory Std_Map
  imports Prelude "HOL-Library.List_Lexorder" "HOL-Library.Char_ord"
begin

text \<open>
  What the server and the peers use of \<open>std::map\<close>: a sequence of pairs in ascending order of the
  keys, \<open>find\<close>, \<open>emplace\<close>, which keeps an existing entry, and iteration in key order. Keys of type
  \<open>std::string\<close> are compared by their characters as unsigned bytes, which is the order of
  \<open>Char_ord\<close> and \<open>List_Lexorder\<close>. The laws are stated as a locale, and the maps of the server rely
  on nothing else.
\<close>

type_synonym ('k, 'v) std_map = "('k \<times> 'v) list"

fun map_find :: "('k::linorder, 'v) std_map \<Rightarrow> 'k \<Rightarrow> 'v option" where
  "map_find [] k = None"
| "map_find ((k', v) # m) k = (if k = k' then Some v else map_find m k)"

fun map_emplace :: "'k::linorder \<Rightarrow> 'v \<Rightarrow> ('k, 'v) std_map \<Rightarrow> ('k, 'v) std_map" where
  "map_emplace k v [] = [(k, v)]"
| "map_emplace k v ((k', v') # m) =
     (if k < k' then (k, v) # (k', v') # m
      else if k = k' then (k', v') # m
      else (k', v') # map_emplace k v m)"

text \<open>Assignment through \<open>operator[]\<close>.\<close>

fun map_assign :: "'k::linorder \<Rightarrow> 'v \<Rightarrow> ('k, 'v) std_map \<Rightarrow> ('k, 'v) std_map" where
  "map_assign k v [] = [(k, v)]"
| "map_assign k v ((k', v') # m) =
     (if k < k' then (k, v) # (k', v') # m
      else if k = k' then (k, v) # m
      else (k', v') # map_assign k v m)"

definition map_ordered :: "('k::linorder, 'v) std_map \<Rightarrow> bool" where
  "map_ordered m \<longleftrightarrow> sorted_wrt (<) (map fst m)"

definition map_values :: "('k, 'v) std_map \<Rightarrow> 'v list" where
  "map_values m = map snd m"

section \<open>The laws\<close>

locale std_map_laws =
  fixes empty :: "'m" and find :: "'m \<Rightarrow> 'k \<Rightarrow> 'v option" and emplace :: "'k \<Rightarrow> 'v \<Rightarrow> 'm \<Rightarrow> 'm"
    and inv :: "'m \<Rightarrow> bool"
  assumes find_empty: "find empty k = None"
    and inv_empty: "inv empty"
    and inv_emplace: "inv m \<Longrightarrow> inv (emplace k v m)"
    and find_emplace: "inv m \<Longrightarrow> find (emplace k v m) k' =
      (if k' = k then (case find m k of None \<Rightarrow> Some v | Some w \<Rightarrow> Some w) else find m k')"
begin

lemma emplace_new: "inv m \<Longrightarrow> find m k = None \<Longrightarrow> find (emplace k v m) k = Some v"
  by (simp add: find_emplace)

lemma emplace_keeps: "inv m \<Longrightarrow> find m k' = Some w \<Longrightarrow> find (emplace k v m) k' = Some w"
  by (auto simp: find_emplace)

lemma emplace_other: "inv m \<Longrightarrow> k' \<noteq> k \<Longrightarrow> find (emplace k v m) k' = find m k'"
  by (simp add: find_emplace)

lemma emplace_defined: "inv m \<Longrightarrow> find (emplace k v m) k \<noteq> None"
  by (auto simp: find_emplace split: option.split)

text \<open>A property of all entries is kept when the new entry has it.\<close>

lemma emplace_all:
  assumes "inv m" "\<And>k' w. find m k' = Some w \<Longrightarrow> P k' w" "P k v"
  shows "find (emplace k v m) k' = Some w \<Longrightarrow> P k' w"
  using assms by (auto simp: find_emplace split: if_splits option.splits)

end

section \<open>The sorted sequence keeps the laws\<close>

lemma map_find_below:
  "sorted_wrt (<) (k' # map fst m) \<Longrightarrow> k \<le> k' \<Longrightarrow> map_find m k = None"
  by (induction m arbitrary: k') auto

lemma fst_map_emplace: "set (map fst (map_emplace k v m)) = insert k (set (map fst m))"
  by (induction k v m rule: map_emplace.induct) auto

lemma map_ordered_emplace: "map_ordered m \<Longrightarrow> map_ordered (map_emplace k v m)"
proof (induction k v m rule: map_emplace.induct)
  case (2 k v k' v' m)
  have "set (map fst (map_emplace k v m)) = insert k (set (map fst m))" by (rule fst_map_emplace)
  with 2 show ?case by (fastforce simp: map_ordered_def)
qed (simp add: map_ordered_def)

lemma map_find_emplace:
  "map_ordered m \<Longrightarrow> map_find (map_emplace k v m) k' =
     (if k' = k then (case map_find m k of None \<Rightarrow> Some v | Some w \<Rightarrow> Some w) else map_find m k')"
proof (induction k v m rule: map_emplace.induct)
  case (2 k v k1 v1 m)
  then have sorted: "sorted_wrt (<) (k1 # map fst m)" and "map_ordered m"
    by (simp_all add: map_ordered_def)
  with 2 map_find_below [OF sorted, of k] show ?case by auto
qed simp

interpretation smap: std_map_laws "[]" map_find map_emplace map_ordered
  by unfold_locales (simp_all add: map_ordered_emplace map_find_emplace, simp add: map_ordered_def)

lemma map_find_Some_iff: "map_ordered m \<Longrightarrow> map_find m k = Some v \<longleftrightarrow> (k, v) \<in> set m"
proof (induction m)
  case (Cons x m)
  obtain k1 v1 where x: "x = (k1, v1)" by (cases x)
  from Cons.prems have sorted: "sorted_wrt (<) (k1 # map fst m)" and m: "map_ordered m"
    by (simp_all add: map_ordered_def x)
  from sorted have "(k1, w) \<notin> set m" for w by force
  with Cons.IH [OF m] show ?case by (auto simp: x)
qed simp

text \<open>\<open>emplace\<close> never replaces: an entry of the map survives every insertion under the same key,
  the keys stay in ascending order, and a new key is bound to the new value.\<close>

theorem map_emplace_first_wins:
  assumes "map_ordered m" "map_find m k = Some v"
  shows "map_ordered (map_emplace k' w m) \<and> map_find (map_emplace k' w m) k = Some v
    \<and> (map_find m k' = None \<longrightarrow> map_find (map_emplace k' w m) k' = Some w)"
  using smap.inv_emplace [OF assms(1)] smap.emplace_keeps [OF assms] smap.emplace_new [OF assms(1)]
  by blast

theorem map_emplace_first_wins_witness:
  "map_find (map_emplace ''a'' (2 :: nat) [(''a'', 1), (''b'', 5)]) ''a'' = Some 1"
  using map_emplace_first_wins [of "[(''a'', 1), (''b'', 5 :: nat)]" "''a''" 1 "''a''" 2]
  by (simp add: map_ordered_def less_char_def)

end
