(* ===== verification/Text_Ops.thy ===== *)
theory Text_Ops
  imports Prelude
begin

text \<open>
  The operations of \<open>std::string\<close> that the code uses (search, substring, comparison, decimal
  printing), and the two functions of the code that take text apart: \<open>getUfragFromSdp\<close> of
  \<open>src/rtc_server.cpp\<close> and \<open>GetStreamIdFromStreamUrl\<close> of \<open>src/rtc_peer.cpp\<close>. A string is a
  list of 8-bit characters. Positions are \<open>size_t\<close> values: natural numbers below \<open>2 ^ 64\<close>
  with the wrap-around of subtraction written out, and \<open>npos\<close> the largest of them.
\<close>

section \<open>Positions, search and substrings\<close>

definition npos :: nat where
  "npos = 2 ^ 64 - 1"

definition size_sub :: "nat \<Rightarrow> nat \<Rightarrow> nat" where
  "size_sub a b = (a + 2 ^ 64 - b) mod 2 ^ 64"

fun scan :: "string \<Rightarrow> string \<Rightarrow> nat \<Rightarrow> nat option" where
  "scan sub [] i = (if sub = [] then Some i else None)"
| "scan sub (c # cs) i =
     (if take (length sub) (c # cs) = sub then Some i else scan sub cs (i + 1))"

definition str_find :: "string \<Rightarrow> string \<Rightarrow> nat \<Rightarrow> nat" where
  "str_find s sub pos =
     (if pos > length s then npos
      else case scan sub (drop pos s) pos of None \<Rightarrow> npos | Some i \<Rightarrow> i)"

fun last_scan :: "string \<Rightarrow> char \<Rightarrow> nat \<Rightarrow> nat" where
  "last_scan s c 0 = (if s ! 0 = c then 0 else npos)"
| "last_scan s c (Suc i) = (if s ! Suc i = c then Suc i else last_scan s c i)"

definition str_find_last_of :: "string \<Rightarrow> char \<Rightarrow> nat \<Rightarrow> nat" where
  "str_find_last_of s c pos =
     (if s = [] then npos else last_scan s c (min pos (length s - 1)))"

definition str_substr :: "string \<Rightarrow> nat \<Rightarrow> nat \<Rightarrow> string res" where
  "str_substr s pos n =
     (if pos > length s then Inl (Thrown ''out_of_range'') else Inr (take n (drop pos s)))"

text \<open>The first occurrence of a pattern.\<close>

definition occurs_at :: "string \<Rightarrow> string \<Rightarrow> nat \<Rightarrow> bool" where
  "occurs_at sub s i \<longleftrightarrow> i + length sub \<le> length s \<and> take (length sub) (drop i s) = sub"

lemma scan_Some:
  assumes "occurs_at sub s k" "\<And>j. j < k \<Longrightarrow> \<not> occurs_at sub s j"
  shows "scan sub s i = Some (i + k)"
  using assms
proof (induction s arbitrary: i k)
  case Nil
  then show ?case by (simp add: occurs_at_def)
next
  case (Cons c cs)
  show ?case
  proof (cases k)
    case 0
    with Cons.prems(1) show ?thesis by (simp add: occurs_at_def)
  next
    case (Suc k')
    have step: "occurs_at sub (c # cs) (Suc j) = occurs_at sub cs j" for j
      by (simp add: occurs_at_def)
    have "\<not> occurs_at sub (c # cs) 0" using Cons.prems(2) [of 0] Suc by simp
    moreover have "length sub \<le> length (c # cs)"
      using Cons.prems(1) by (simp add: occurs_at_def)
    ultimately have "take (length sub) (c # cs) \<noteq> sub" by (auto simp: occurs_at_def)
    moreover have "scan sub cs (i + 1) = Some (i + 1 + k')"
      using Cons.prems Suc step by (intro Cons.IH) auto
    ultimately show ?thesis using Suc by simp
  qed
qed

lemma scan_None: "scan sub s i = None \<longleftrightarrow> (\<forall>j. \<not> occurs_at sub s j)"
proof (induction s arbitrary: i)
  case Nil
  then show ?case by (auto simp: occurs_at_def)
next
  case (Cons c cs)
  have "(\<forall>j. \<not> occurs_at sub (c # cs) j)
      \<longleftrightarrow> \<not> occurs_at sub (c # cs) 0 \<and> (\<forall>j. \<not> occurs_at sub cs j)"
    by (metis (no_types, lifting) add_Suc drop_Suc_Cons length_Cons not0_implies_Suc
        not_less_eq_eq occurs_at_def linorder_not_le)
  moreover have "take (length sub) (c # cs) = sub \<longleftrightarrow> occurs_at sub (c # cs) 0"
    by (auto simp: occurs_at_def) (metis length_Cons length_take min.cobounded1)
  ultimately show ?case using Cons.IH by simp
qed

lemma scan_char: "c \<notin> set pre \<Longrightarrow> scan [c] (pre @ c # post) i = Some (i + length pre)"
  by (induction pre arbitrary: i) auto

lemma scan_char_None: "c \<notin> set s \<Longrightarrow> scan [c] s i = None"
  by (induction s arbitrary: i) auto

lemma last_scan_at:
  assumes "k \<le> i" "s ! k = c" "\<And>j. k < j \<Longrightarrow> j \<le> i \<Longrightarrow> s ! j \<noteq> c"
  shows "last_scan s c i = k"
  using assms
proof (induction i)
  case (Suc i)
  show ?case
  proof (cases "k = Suc i")
    case False
    with Suc.prems have "s ! Suc i \<noteq> c" by simp
    moreover have "last_scan s c i = k" using Suc False by simp
    ultimately show ?thesis by simp
  qed (use Suc.prems in simp)
qed simp

lemma last_scan_npos: "(\<And>j. j \<le> i \<Longrightarrow> s ! j \<noteq> c) \<Longrightarrow> last_scan s c i = npos"
  by (induction i) auto

section \<open>Decimal printing\<close>

definition digit_char :: "nat \<Rightarrow> char" where
  "digit_char d = char_of (48 + d)"

fun to_string :: "nat \<Rightarrow> string" where
  "to_string n = (if n < 10 then [digit_char n] else to_string (n div 10) @ [digit_char (n mod 10)])"

declare to_string.simps [simp del]

definition is_digit :: "char \<Rightarrow> bool" where
  "is_digit c \<longleftrightarrow> 48 \<le> (of_char c :: nat) \<and> (of_char c :: nat) < 58"

lemma of_char_digit: "d < 10 \<Longrightarrow> of_char (digit_char d) = (48 + d :: nat)"
  by (simp add: digit_char_def of_char_of)

lemma to_string_digits: "c \<in> set (to_string n) \<Longrightarrow> is_digit c"
proof (induction n rule: to_string.induct)
  case (1 n)
  show ?case
    using 1 by (subst (asm) (2) to_string.simps) (auto simp: is_digit_def of_char_digit split: if_splits)
qed

fun decimal_value :: "string \<Rightarrow> nat" where
  "decimal_value s = foldl (\<lambda>v c. 10 * v + (of_char c - 48)) 0 s"

lemma decimal_value_to_string: "decimal_value (to_string n) = n"
proof (induction n rule: to_string.induct)
  case (1 n)
  then show ?case
    by (cases "n < 10") (simp_all add: to_string.simps [of n] of_char_digit)
qed

lemma to_string_inject [simp]: "to_string m = to_string n \<longleftrightarrow> m = n"
  by (metis decimal_value_to_string)

text \<open>Texts joined by a separator that neither of them contains can be taken apart again.\<close>

lemma separator_inject:
  "c \<notin> set x \<Longrightarrow> c \<notin> set x' \<Longrightarrow> x @ c # y = x' @ c # y' \<longleftrightarrow> x = x' \<and> y = y'"
proof (induction x arbitrary: x')
  case Nil
  then show ?case by (cases x') auto
next
  case (Cons a x)
  then show ?case by (cases x') auto
qed

section \<open>The user fragment of a session description\<close>

definition crlf :: string where
  "crlf = [CHR 0x0D, CHR 0x0A]"

text \<open>
  \<open>getUfragFromSdp\<close> returns \<open>ERROR_HTTP_HANDLER_INVALID\<close> and leaves its result argument alone,
  which is \<open>None\<close> here, or stores the fragment and returns \<open>COCO_SUCCESS\<close>.
\<close>

definition getUfragFromSdp :: "string \<Rightarrow> string option res" where
  "getUfragFromSdp sdp =
     (let spos = str_find sdp ''ice-ufrag'' 0
      in if spos = npos then Inr None
         else let epos = str_find sdp crlf (spos + 10)
              in if epos = npos then Inr None
                 else bindR (str_substr sdp (spos + 10) (size_sub (size_sub epos spos) 10))
                        (\<lambda>ufrag. Inr (Some ufrag)))"

lemma size_sub_le: "b \<le> a \<Longrightarrow> a < 2 ^ 64 \<Longrightarrow> size_sub a b = a - b"
  by (simp add: size_sub_def le_imp_diff_is_add mod_if)

lemma str_find_0: "str_find s sub 0 = (case scan sub s 0 of None \<Rightarrow> npos | Some i \<Rightarrow> i)"
  by (simp add: str_find_def)

lemma occurs_at_append [simp]: "occurs_at sub (pre @ sub @ post) (length pre)"
  by (simp add: occurs_at_def)

lemma scan_crlf: "CHR 0x0D \<notin> set u \<Longrightarrow> scan crlf (u @ crlf @ post) i = Some (i + length u)"
proof (rule scan_Some)
  fix j assume u: "CHR 0x0D \<notin> set u" and j: "j < length u"
  have "hd (drop j (u @ crlf @ post)) = u ! j"
    using j by (simp add: hd_append hd_drop_conv_nth nth_append)
  moreover have "hd (take (length crlf) (drop j (u @ crlf @ post))) = hd (drop j (u @ crlf @ post))"
    by (rule hd_take) (simp add: crlf_def)
  moreover have "u ! j \<noteq> CHR 0x0D" using u j by (metis nth_mem)
  ultimately show "\<not> occurs_at crlf (u @ crlf @ post) j"
    unfolding occurs_at_def by (metis crlf_def list.sel(1))
qed simp

text \<open>C37: the user fragment is the text between the first \<open>ice-ufrag\<close> with its separator and the
  end of that line.\<close>

theorem getUfragFromSdp_finds:
  assumes "sdp = pre @ ''ice-ufrag'' @ [sep] @ ufrag @ crlf @ post"
    and "\<And>j. j < length pre \<Longrightarrow> \<not> occurs_at ''ice-ufrag'' sdp j"
    and "CHR 0x0D \<notin> set ufrag"
    and "length sdp < npos"
  shows "getUfragFromSdp sdp = Inr (Some ufrag)"
proof -
  have "occurs_at ''ice-ufrag'' sdp (length pre)"
    unfolding assms(1) by (rule occurs_at_append)
  then have "scan ''ice-ufrag'' sdp 0 = Some (0 + length pre)"
    using assms(2) by (rule scan_Some)
  moreover have len: "length sdp = length pre + 10 + length ufrag + 2 + length post"
    by (simp add: assms(1) crlf_def)
  ultimately have spos: "str_find sdp ''ice-ufrag'' 0 = length pre" "length pre \<noteq> npos"
    using assms(4) by (auto simp: str_find_0)
  have drop: "drop (length pre + 10) sdp = ufrag @ crlf @ post"
    by (simp add: assms(1))
  have epos: "str_find sdp crlf (length pre + 10) = length pre + 10 + length ufrag"
    using len scan_crlf [OF assms(3)] by (simp add: str_find_def drop)
  have "length pre + 10 + length ufrag < 2 ^ 64"
    using len assms(4) by (simp add: npos_def)
  then have "size_sub (size_sub (length pre + 10 + length ufrag) (length pre)) 10 = length ufrag"
    by (simp add: size_sub_le)
  then show ?thesis
    using spos epos len assms(4) by (simp add: getUfragFromSdp_def Let_def str_substr_def drop)
qed

theorem getUfragFromSdp_finds_witness:
  "getUfragFromSdp (''v=0'' @ crlf @ ''a=ice-ufrag:xY3f'' @ crlf) = Inr (Some ''xY3f'')"
proof (rule getUfragFromSdp_finds [where pre = "''v=0'' @ crlf @ ''a=''" and post = "[]"])
  fix j assume "j < length (''v=0'' @ crlf @ ''a='')"
  then have "j \<in> {0, 1, 2, 3, 4, 5, 6}" by (auto simp: crlf_def)
  then show "\<not> occurs_at ''ice-ufrag'' (''v=0'' @ crlf @ ''a=ice-ufrag:xY3f'' @ crlf) j"
    by (auto simp: occurs_at_def crlf_def)
qed (simp_all add: crlf_def npos_def)

lemma getUfragFromSdp_defined: "\<exists>r. getUfragFromSdp sdp = Inr r"
proof -
  have "str_find sdp ''ice-ufrag'' 0 + 10 \<le> length sdp"
    if "str_find sdp crlf (str_find sdp ''ice-ufrag'' 0 + 10) \<noteq> npos"
    using that by (auto simp: str_find_def split: if_splits)
  then show ?thesis by (auto simp: getUfragFromSdp_def Let_def str_substr_def)
qed

text \<open>A session description without \<open>ice-ufrag\<close>, or whose \<open>ice-ufrag\<close> line does not end,
  is refused, and no input makes the extraction fault.\<close>

theorem getUfragFromSdp_total:
  "\<exists>r. getUfragFromSdp sdp = Inr r
     \<and> (r = None \<longleftrightarrow> str_find sdp ''ice-ufrag'' 0 = npos
          \<or> str_find sdp crlf (str_find sdp ''ice-ufrag'' 0 + 10) = npos)"
  using getUfragFromSdp_defined [of sdp]
  by (auto simp: getUfragFromSdp_def Let_def str_substr_def split: if_splits)

section \<open>The stream name of a stream address\<close>

text \<open>
  \<open>size_to_int32\<close> is the conversion of a \<open>size_t\<close> to \<open>int32_t\<close> and \<open>int32_to_size\<close> the
  implicit conversion back when it is passed to \<open>substr\<close>.
\<close>

definition size_to_int32 :: "nat \<Rightarrow> int" where
  "size_to_int32 n = sint (word_of_nat n :: u32)"

definition int32_to_size :: "int \<Rightarrow> nat" where
  "int32_to_size i = nat (i mod 2 ^ 64)"

lemma size_to_int32_small: "n < 2 ^ 31 \<Longrightarrow> size_to_int32 n = int n"
  by (simp add: size_to_int32_def signed_of_nat signed_take_bit_int_eq_self)

definition GetStreamIdFromStreamUrl :: "string \<Rightarrow> string res" where
  "GetStreamIdFromStreamUrl stream_url =
     (let endpos = str_find stream_url ''?'' 0;
          endpos = (if endpos \<noteq> npos then size_sub endpos 1 else length stream_url);
          start = str_find_last_of stream_url (CHR ''/'') endpos
      in if start = npos \<or> start + 1 \<ge> length stream_url then Inl (Exited 1)
         else let start = start + 1;
                  len = size_to_int32 ((size_sub endpos start + 1) mod 2 ^ 64)
              in str_substr stream_url start (int32_to_size len))"

definition before_query :: "string \<Rightarrow> string" where
  "before_query url = takeWhile (\<lambda>c. c \<noteq> CHR ''?'') url"

definition after_last_slash :: "string \<Rightarrow> string" where
  "after_last_slash p = rev (takeWhile (\<lambda>c. c \<noteq> CHR ''/'') (rev p))"

lemma after_last_slash_append:
  assumes "CHR ''/'' \<notin> set b"
  shows "after_last_slash (a @ CHR ''/'' # b) = b"
proof -
  have "takeWhile (\<lambda>c. c \<noteq> CHR ''/'') (rev b) = rev b"
    unfolding takeWhile_eq_all_conv using assms by auto
  then show ?thesis by (simp add: after_last_slash_def takeWhile_tail del: takeWhile_eq_all_conv)
qed

lemma last_slash_cases:
  obtains "CHR ''/'' \<notin> set p" | a b where "p = a @ CHR ''/'' # b" "CHR ''/'' \<notin> set b"
  by (metis split_list_last)

lemma last_scan_slash:
  assumes "CHR ''/'' \<notin> set b"
  shows "last_scan (a @ CHR ''/'' # b @ q) (CHR ''/'') (length a + length b) = length a"
proof (rule last_scan_at)
  fix j assume "length a < j" "j \<le> length a + length b"
  then have "(a @ CHR ''/'' # b @ q) ! j = b ! (j - length a - 1)" and "j - length a - 1 < length b"
    by (auto simp: nth_append nth_Cons')
  then show "(a @ CHR ''/'' # b @ q) ! j \<noteq> CHR ''/''" using assms by (metis nth_mem)
qed simp_all

lemma last_scan_no_slash:
  "CHR ''/'' \<notin> set p \<Longrightarrow> i < length p \<Longrightarrow> last_scan (p @ q) (CHR ''/'') i = npos"
  by (rule last_scan_npos) (metis le_less_trans nth_append nth_mem)

lemma size_int32_roundtrip: "n < 2 ^ 31 \<Longrightarrow> int32_to_size (size_to_int32 n) = n"
  by (simp add: size_to_int32_small int32_to_size_def)

definition stream_id_endpos :: "string \<Rightarrow> nat" where
  "stream_id_endpos url =
     (let endpos = str_find url ''?'' 0
      in if endpos \<noteq> npos then size_sub endpos 1 else length url)"

lemma GetStreamId_exit:
  assumes "str_find_last_of url (CHR ''/'') (stream_id_endpos url) = k"
    and "k = npos \<or> length url \<le> k + 1"
  shows "GetStreamIdFromStreamUrl url = Inl (Exited 1)"
  using assms by (simp add: GetStreamIdFromStreamUrl_def stream_id_endpos_def Let_def)

lemma GetStreamId_value:
  assumes "str_find_last_of url (CHR ''/'') (stream_id_endpos url) = k"
    and "k + 1 < length url" "length url < 2 ^ 31"
    and "(size_sub (stream_id_endpos url) (k + 1) + 1) mod 2 ^ 64 = n" "n < 2 ^ 31"
  shows "GetStreamIdFromStreamUrl url = Inr (take n (drop (k + 1) url))"
proof -
  have "k \<noteq> npos" using assms(2,3) by (simp add: npos_def)
  with assms show ?thesis
    unfolding GetStreamIdFromStreamUrl_def stream_id_endpos_def Let_def
    by (simp add: size_int32_roundtrip str_substr_def)
qed

lemma GetStreamId_before_query:
  assumes "length url < 2 ^ 31" and "url = [] \<or> hd url \<noteq> CHR ''?''"
  shows "GetStreamIdFromStreamUrl url =
    (let p = before_query url
     in if CHR ''/'' \<notin> set p \<or> (CHR ''?'' \<notin> set url \<and> last url = CHR ''/'') then Inl (Exited 1)
        else Inr (after_last_slash p))"
proof (cases "CHR ''?'' \<in> set url")
  case query: True
  then obtain p q where url: "url = p @ CHR ''?'' # q" and p: "CHR ''?'' \<notin> set p"
    by (metis split_list_first)
  with assms(2) have "p \<noteq> []" by auto
  have "takeWhile (\<lambda>c. c \<noteq> CHR ''?'') p = p"
    unfolding takeWhile_eq_all_conv using p by auto
  then have bq: "before_query url = p"
    by (simp add: before_query_def url takeWhile_tail del: takeWhile_eq_all_conv)
  have len: "length p < 2 ^ 31" using assms(1) by (simp add: url)
  have "str_find url ''?'' 0 = length p" "length p \<noteq> npos"
    using scan_char [OF p, of q 0] len by (simp_all add: str_find_0 url npos_def)
  then have endpos: "stream_id_endpos url = length p - 1"
    using \<open>p \<noteq> []\<close> len by (simp add: stream_id_endpos_def size_sub_le Suc_le_eq)
  have last: "str_find_last_of url c (length p - 1) = last_scan url c (length p - 1)" for c
    by (simp add: str_find_last_of_def url)
  show ?thesis
  proof (cases "CHR ''/'' \<in> set p")
    case no: False
    then have "last_scan url (CHR ''/'') (length p - 1) = npos"
      unfolding url using \<open>p \<noteq> []\<close> by (intro last_scan_no_slash) auto
    then have "str_find_last_of url (CHR ''/'') (stream_id_endpos url) = npos"
      by (simp only: endpos last)
    with no show ?thesis using GetStreamId_exit [of url npos] by (simp add: bq)
  next
    case yes: True
    then obtain a b where ab: "p = a @ CHR ''/'' # b" "CHR ''/'' \<notin> set b"
      by (metis split_list_last)
    have "last_scan url (CHR ''/'') (length p - 1) = length a"
      using last_scan_slash [OF ab(2), of a "CHR ''?'' # q"] by (simp add: url ab)
    then have "str_find_last_of url (CHR ''/'') (stream_id_endpos url) = length a"
      by (simp only: endpos last)
    moreover have "(size_sub (stream_id_endpos url) (length a + 1) + 1) mod 2 ^ 64 = length b"
      unfolding endpos using len by (cases b) (auto simp: size_sub_def ab mod_Suc_eq)
    ultimately have "GetStreamIdFromStreamUrl url = Inr (take (length b) (drop (length a + 1) url))"
      using assms(1) by (intro GetStreamId_value) (simp_all add: url ab)
    then have "GetStreamIdFromStreamUrl url = Inr b" by (simp add: url ab)
    then show ?thesis
      using query yes after_last_slash_append [OF ab(2), of a] by (simp add: bq ab(1))
  qed
next
  case query: False
  have "takeWhile (\<lambda>c. c \<noteq> CHR ''?'') url = url"
    unfolding takeWhile_eq_all_conv using query by auto
  then have bq: "before_query url = url" by (simp add: before_query_def)
  have endpos: "stream_id_endpos url = length url"
    using query by (simp add: stream_id_endpos_def str_find_0 scan_char_None)
  show ?thesis
  proof (cases "CHR ''/'' \<in> set url")
    case no: False
    have "str_find_last_of url (CHR ''/'') (length url) = npos"
      using last_scan_no_slash [OF no, of "length url - 1" "[]"] by (simp add: str_find_last_of_def)
    with no show ?thesis using GetStreamId_exit [of url npos] by (simp add: bq endpos)
  next
    case yes: True
    then obtain a b where ab: "url = a @ CHR ''/'' # b" "CHR ''/'' \<notin> set b"
      by (metis split_list_last)
    have start: "str_find_last_of url (CHR ''/'') (length url) = length a"
      using last_scan_slash [OF ab(2), of a "[]"] by (simp add: str_find_last_of_def ab)
    show ?thesis
    proof (cases "b = []")
      case True
      have "str_find_last_of url (CHR ''/'') (stream_id_endpos url) = length a"
        by (simp only: endpos start)
      then have "GetStreamIdFromStreamUrl url = Inl (Exited 1)"
        by (rule GetStreamId_exit) (simp add: ab True)
      with True show ?thesis using query by (simp add: bq ab(1))
    next
      case False
      have "(size_sub (length url) (length a + 1) + 1) mod 2 ^ 64 = length b + 1"
        using assms(1) by (simp add: ab size_sub_le)
      then have "GetStreamIdFromStreamUrl url = Inr (take (length b + 1) (drop (length a + 1) url))"
        unfolding endpos [symmetric] using assms(1) start False
        by (intro GetStreamId_value) (simp_all add: endpos, simp_all add: ab)
      then have "GetStreamIdFromStreamUrl url = Inr b" by (simp add: ab)
      moreover have "last url \<noteq> CHR ''/''"
        using ab False by (metis last_appendR last_ConsR last_in_set list.distinct(1))
      ultimately show ?thesis
        using query yes after_last_slash_append [OF ab(2), of a] by (simp add: bq flip: ab(1))
    qed
  qed
qed

text \<open>
  An address that begins with \<open>?\<close>: the position before the query wraps round to \<open>npos\<close>, the
  slash is searched for in the whole address, and the length of the name, computed from
  \<open>npos\<close> and narrowed to \<open>int32_t\<close>, is negative, which \<open>substr\<close> takes for the rest.
\<close>

lemma size_int32_negative:
  assumes "0 < n" "n < 2 ^ 31"
  shows "int32_to_size (size_to_int32 (2 ^ 64 - n)) = 2 ^ 64 - n"
proof -
  have "int (2 ^ 64 - n) = - int n + 2 ^ 32 * 2 ^ 32"
    using assms by (simp add: of_nat_diff)
  then have "(of_int (int (2 ^ 64 - n)) :: u32) = of_int (- int n + 2 ^ 32 * 2 ^ 32)"
    by (rule arg_cong)
  also have "\<dots> = word_of_int (- int n)"
    by (simp add: word_of_int_eq_iff take_bit_eq_mod mod_diff_left_eq [symmetric])
  finally have "size_to_int32 (2 ^ 64 - n) = sint (word_of_int (- int n) :: u32)"
    by (simp add: size_to_int32_def)
  then have "size_to_int32 (2 ^ 64 - n) = - int n"
    using assms by (simp only: signed_of_int) (simp add: signed_take_bit_int_eq_self)
  moreover have "(- int n) mod 2 ^ 64 = 2 ^ 64 - int n"
    using assms by (simp add: zmod_zminus1_eq_if)
  ultimately show ?thesis using assms by (simp add: int32_to_size_def nat_diff_distrib')
qed

lemma GetStreamId_question_mark:
  assumes "length url < 2 ^ 31" "url = CHR ''?'' # r"
  shows "GetStreamIdFromStreamUrl url =
    (if CHR ''/'' \<notin> set url \<or> last url = CHR ''/'' then Inl (Exited 1)
     else Inr (after_last_slash url))"
proof -
  have endpos: "stream_id_endpos url = npos"
    by (simp add: stream_id_endpos_def str_find_0 assms(2) npos_def size_sub_def)
  have last: "str_find_last_of url c npos = last_scan url c (length url - 1)" for c
    using assms by (simp add: str_find_last_of_def npos_def)
  show ?thesis
  proof (cases "CHR ''/'' \<in> set url")
    case no: False
    have "last_scan url (CHR ''/'') (length url - 1) = npos"
      using last_scan_no_slash [OF no, of "length url - 1" "[]"] assms(2) by simp
    with no show ?thesis using GetStreamId_exit [of url npos] by (simp add: endpos last)
  next
    case yes: True
    then obtain a b where ab: "url = a @ CHR ''/'' # b" "CHR ''/'' \<notin> set b"
      by (metis split_list_last)
    have start: "str_find_last_of url (CHR ''/'') (stream_id_endpos url) = length a"
      using last_scan_slash [OF ab(2), of a "[]"] by (simp only: endpos last) (simp add: ab)
    show ?thesis
    proof (cases "b = []")
      case True
      from start have "GetStreamIdFromStreamUrl url = Inl (Exited 1)"
        by (rule GetStreamId_exit) (simp add: ab True)
      with True show ?thesis by (simp add: ab(1))
    next
      case False
      then have k: "length a + 1 < length url" by (simp add: ab)
      then have "length a \<noteq> npos" using assms(1) by (simp add: npos_def)
      have "size_sub npos (length a + 1) = npos - (length a + 1)"
        using k assms(1) by (intro size_sub_le) (simp_all add: npos_def)
      then have n: "(size_sub npos (length a + 1) + 1) mod 2 ^ 64 = 2 ^ 64 - (length a + 1)"
        using k assms(1) by (simp add: npos_def)
      have "int32_to_size (size_to_int32 (2 ^ 64 - (length a + 1))) = 2 ^ 64 - (length a + 1)"
        using k assms(1) by (intro size_int32_negative) simp_all
      then have "GetStreamIdFromStreamUrl url
          = Inr (take (2 ^ 64 - (length a + 1)) (drop (length a + 1) url))"
        using start k n \<open>length a \<noteq> npos\<close> endpos
        unfolding GetStreamIdFromStreamUrl_def stream_id_endpos_def Let_def by (simp add: str_substr_def)
      also have "\<dots> = Inr b" using assms(1) by (simp add: ab)
      moreover have "last url \<noteq> CHR ''/''"
        using ab False by (metis last_appendR last_ConsR last_in_set list.distinct(1))
      ultimately show ?thesis
        using yes after_last_slash_append [OF ab(2), of a] by (simp flip: ab(1))
    qed
  qed
qed

text \<open>The part of an address that the code searches: what precedes the query, except that an
  address that begins with \<open>?\<close> is searched as a whole.\<close>

definition searched_part :: "string \<Rightarrow> string" where
  "searched_part url = (if url \<noteq> [] \<and> hd url = CHR ''?'' then url else before_query url)"

text \<open>C36: the exact outcome for every address of less than 2 ^ 31 characters, which is the only
  assumption. The part of the address that is searched is what precedes the first \<open>?\<close>; the stream
  name is what follows the last slash of that part, and it is empty when the part ends in a slash
  and a query follows (\<open>a/?x\<close>). The process exits exactly when the part has no slash, or when
  the part is the whole address and ends in a slash. An address whose first character is \<open>?\<close> has
  nothing before its query, and there the code does not stop: the end position wraps round,
  and the whole address, its query included, is searched (\<open>?a/b\<close> gives \<open>b\<close>).\<close>

theorem GetStreamIdFromStreamUrl_spec:
  assumes "length url < 2 ^ 31"
  shows "GetStreamIdFromStreamUrl url =
    (let p = searched_part url
     in if CHR ''/'' \<notin> set p \<or> (p = url \<and> last url = CHR ''/'') then Inl (Exited 1)
        else Inr (after_last_slash p))"
proof (cases "url \<noteq> [] \<and> hd url = CHR ''?''")
  case True
  then obtain r where "url = CHR ''?'' # r" by (cases url) auto
  with True show ?thesis
    using GetStreamId_question_mark [OF assms] by (simp add: searched_part_def)
next
  case first: False
  then have "searched_part url = before_query url" by (auto simp: searched_part_def)
  moreover have "before_query url = url \<longleftrightarrow> CHR ''?'' \<notin> set url"
    unfolding before_query_def takeWhile_eq_all_conv by auto
  moreover have "GetStreamIdFromStreamUrl url =
    (let p = before_query url
     in if CHR ''/'' \<notin> set p \<or> (CHR ''?'' \<notin> set url \<and> last url = CHR ''/'') then Inl (Exited 1)
        else Inr (after_last_slash p))"
    using first by (intro GetStreamId_before_query [OF assms]) simp
  ultimately show ?thesis by simp
qed
theorem GetStreamIdFromStreamUrl_spec_witness:
  "GetStreamIdFromStreamUrl ''webrtc://host/live/cam1?token=a/b'' = Inr ''cam1''
   \<and> GetStreamIdFromStreamUrl ''cam1'' = Inl (Exited 1)
   \<and> GetStreamIdFromStreamUrl ''live/'' = Inl (Exited 1)
   \<and> GetStreamIdFromStreamUrl ''a/?x'' = Inr []
   \<and> GetStreamIdFromStreamUrl ''?a/b'' = Inr ''b''"
  by (simp add: GetStreamIdFromStreamUrl_spec searched_part_def before_query_def
      after_last_slash_def)

section \<open>Lower case\<close>

text \<open>\<open>Utils::String::ToLowerCase\<close>, with \<open>tolower\<close> of the C locale.\<close>

definition tolower :: "char \<Rightarrow> char" where
  "tolower c =
     (if 65 \<le> (of_char c :: nat) \<and> (of_char c :: nat) \<le> 90 then char_of ((of_char c :: nat) + 32) else c)"

definition ToLowerCase :: "string \<Rightarrow> string" where
  "ToLowerCase str = map tolower str"

lemma ToLowerCase_idem: "ToLowerCase (ToLowerCase str) = ToLowerCase str"
  by (auto simp: ToLowerCase_def tolower_def of_char_of)

end
