(* ===== verification/Byte_Ops.thy ===== *)
theory Byte_Ops
  imports Prelude
begin

text \<open>
  The class \<open>Utils::Byte\<close> of \<open>src/Utils.h\<close>: big-endian (network order) getters and
  setters on raw buffers and the rounding of lengths to a multiple of four. Buffers are byte
  lists; a getter or setter that touches a byte outside the buffer returns
  \<open>Inl Out_Of_Bounds\<close>. Writes are made in the order of the source.
\<close>

section \<open>Getters and setters\<close>

definition Get1Byte :: "bytes \<Rightarrow> nat \<Rightarrow> u8 res" where
  "Get1Byte data i = rd data i"

definition Get2Bytes :: "bytes \<Rightarrow> nat \<Rightarrow> u16 res" where
  "Get2Bytes data i =
     bindR (rd data (i + 1)) (\<lambda>b1. bindR (rd data i) (\<lambda>b0.
       Inr (ucast b1 OR push_bit 8 (ucast b0))))"

definition Get3Bytes :: "bytes \<Rightarrow> nat \<Rightarrow> u32 res" where
  "Get3Bytes data i =
     bindR (rd data (i + 2)) (\<lambda>b2. bindR (rd data (i + 1)) (\<lambda>b1. bindR (rd data i) (\<lambda>b0.
       Inr (ucast b2 OR push_bit 8 (ucast b1) OR push_bit 16 (ucast b0)))))"

definition Get4Bytes :: "bytes \<Rightarrow> nat \<Rightarrow> u32 res" where
  "Get4Bytes data i =
     bindR (rd data (i + 3)) (\<lambda>b3. bindR (rd data (i + 2)) (\<lambda>b2.
     bindR (rd data (i + 1)) (\<lambda>b1. bindR (rd data i) (\<lambda>b0.
       Inr (ucast b3 OR push_bit 8 (ucast b2) OR push_bit 16 (ucast b1)
            OR push_bit 24 (ucast b0))))))"

definition Get8Bytes :: "bytes \<Rightarrow> nat \<Rightarrow> u64 res" where
  "Get8Bytes data i =
     bindR (Get4Bytes data i) (\<lambda>hi. bindR (Get4Bytes data (i + 4)) (\<lambda>lo.
       Inr (push_bit 32 (ucast hi) OR ucast lo)))"

definition Set1Byte :: "bytes \<Rightarrow> nat \<Rightarrow> u8 \<Rightarrow> bytes res" where
  "Set1Byte data i value = wr data i value"

definition Set2Bytes :: "bytes \<Rightarrow> nat \<Rightarrow> u16 \<Rightarrow> bytes res" where
  "Set2Bytes data i value =
     bindR (wr data (i + 1) (ucast value)) (\<lambda>data. wr data i (ucast (drop_bit 8 value)))"

definition Set3Bytes :: "bytes \<Rightarrow> nat \<Rightarrow> u32 \<Rightarrow> bytes res" where
  "Set3Bytes data i value =
     bindR (wr data (i + 2) (ucast value)) (\<lambda>data.
     bindR (wr data (i + 1) (ucast (drop_bit 8 value))) (\<lambda>data.
     wr data i (ucast (drop_bit 16 value))))"

definition Set4Bytes :: "bytes \<Rightarrow> nat \<Rightarrow> u32 \<Rightarrow> bytes res" where
  "Set4Bytes data i value =
     bindR (wr data (i + 3) (ucast value)) (\<lambda>data.
     bindR (wr data (i + 2) (ucast (drop_bit 8 value))) (\<lambda>data.
     bindR (wr data (i + 1) (ucast (drop_bit 16 value))) (\<lambda>data.
     wr data i (ucast (drop_bit 24 value)))))"

definition Set8Bytes :: "bytes \<Rightarrow> nat \<Rightarrow> u64 \<Rightarrow> bytes res" where
  "Set8Bytes data i value =
     bindR (wr data (i + 7) (ucast value)) (\<lambda>data.
     bindR (wr data (i + 6) (ucast (drop_bit 8 value))) (\<lambda>data.
     bindR (wr data (i + 5) (ucast (drop_bit 16 value))) (\<lambda>data.
     bindR (wr data (i + 4) (ucast (drop_bit 24 value))) (\<lambda>data.
     bindR (wr data (i + 3) (ucast (drop_bit 32 value))) (\<lambda>data.
     bindR (wr data (i + 2) (ucast (drop_bit 40 value))) (\<lambda>data.
     bindR (wr data (i + 1) (ucast (drop_bit 48 value))) (\<lambda>data.
     wr data i (ucast (drop_bit 56 value)))))))))"

definition PadTo4Bytes16 :: "u16 \<Rightarrow> u16" where
  "PadTo4Bytes16 sz = (if sz AND 0x03 \<noteq> 0 then (sz AND 0xFFFC) + 4 else sz)"

definition PadTo4Bytes32 :: "u32 \<Rightarrow> u32" where
  "PadTo4Bytes32 sz = (if sz AND 0x03 \<noteq> 0 then (sz AND 0xFFFFFFFC) + 4 else sz)"

section \<open>The contract of a big-endian codec\<close>

text \<open>
  What the rest of the code relies on: a setter is one block write of \<open>width\<close> bytes, a
  getter reads that block, and reading what was written gives the value back, up to the part
  \<open>vis\<close> of the value that fits (the whole value but for the three-byte codec).
\<close>

locale be_codec =
  fixes get :: "bytes \<Rightarrow> nat \<Rightarrow> 'w res"
    and put :: "bytes \<Rightarrow> nat \<Rightarrow> 'w \<Rightarrow> bytes res"
    and width :: nat
    and enc :: "'w \<Rightarrow> bytes"
    and dec :: "bytes \<Rightarrow> 'w"
    and vis :: "'w \<Rightarrow> 'w"
  assumes set_block: "put d i v = wr_block d i (enc v)"
    and get_block: "get d i = bindR (rd_block d i width) (\<lambda>bs. Inr (dec bs))"
    and enc_length: "length (enc v) = width"
    and dec_enc: "dec (enc v) = vis v"
begin

lemma get_at: "get (pre @ enc v @ post) (length pre) = Inr (vis v)"
  by (simp add: get_block rd_block_def enc_length dec_enc)

lemma get_set: "put d i v = Inr d' \<Longrightarrow> get d' i = Inr (vis v)"
  using rd_block_wr_block_same [of d i "enc v" d']
  by (simp add: set_block get_block enc_length dec_enc)

lemma set_length: "put d i v = Inr d' \<Longrightarrow> length d' = length d"
  by (auto simp: set_block dest: wr_block_length)

lemma set_defined_iff: "(\<exists>d'. put d i v = Inr d') \<longleftrightarrow> i + width \<le> length d"
  by (auto simp: set_block wr_block_def enc_length)

lemma get_defined_iff: "(\<exists>v. get d i = Inr v) \<longleftrightarrow> i + width \<le> length d"
  by (auto simp: get_block rd_block_def bindR_def)

lemma set_other:
  "put d i v = Inr d' \<Longrightarrow> j + n \<le> i \<or> i + width \<le> j \<Longrightarrow> rd_block d' j n = rd_block d j n"
  by (rule rd_block_wr_block_other [where i = i and bs = "enc v"])
    (simp_all add: set_block enc_length)

end

section \<open>Encoded forms\<close>

definition be2 :: "u16 \<Rightarrow> bytes" where
  "be2 v = [ucast (drop_bit 8 v), ucast v]"

definition be3 :: "u32 \<Rightarrow> bytes" where
  "be3 v = [ucast (drop_bit 16 v), ucast (drop_bit 8 v), ucast v]"

definition be4 :: "u32 \<Rightarrow> bytes" where
  "be4 v = [ucast (drop_bit 24 v), ucast (drop_bit 16 v), ucast (drop_bit 8 v), ucast v]"

definition be8 :: "u64 \<Rightarrow> bytes" where
  "be8 v = [ucast (drop_bit 56 v), ucast (drop_bit 48 v), ucast (drop_bit 40 v),
            ucast (drop_bit 32 v), ucast (drop_bit 24 v), ucast (drop_bit 16 v),
            ucast (drop_bit 8 v), ucast v]"

definition de2 :: "bytes \<Rightarrow> u16" where
  "de2 bs = ucast (bs ! 1) OR push_bit 8 (ucast (bs ! 0))"

definition de3 :: "bytes \<Rightarrow> u32" where
  "de3 bs = ucast (bs ! 2) OR push_bit 8 (ucast (bs ! 1)) OR push_bit 16 (ucast (bs ! 0))"

definition de4 :: "bytes \<Rightarrow> u32" where
  "de4 bs = ucast (bs ! 3) OR push_bit 8 (ucast (bs ! 2)) OR push_bit 16 (ucast (bs ! 1))
            OR push_bit 24 (ucast (bs ! 0))"

definition de8 :: "bytes \<Rightarrow> u64" where
  "de8 bs = push_bit 32 (ucast (de4 (take 4 bs))) OR ucast (de4 (drop 4 bs))"

lemma length_be [simp]:
  "length (be2 v) = 2" "length (be3 w) = 3" "length (be4 w) = 4" "length (be8 x) = 8"
  by (simp_all add: be2_def be3_def be4_def be8_def)

lemma de2_be2 [simp]: "de2 (be2 v) = v"
  by (rule bit_word_eqI) (auto simp: de2_def be2_def bit_simps)

lemma octet_cases:
  assumes "n < (32 :: nat)"
  obtains r where "r < 8" "n = r \<or> n = r + 8 \<or> n = r + 16 \<or> n = r + 24"
proof -
  have "n div 8 < 4" using assms by simp
  then have "n div 8 = 0 \<or> n div 8 = 1 \<or> n div 8 = 2 \<or> n div 8 = 3" by linarith
  with mult_div_mod_eq [of 8 n] have
    "n = n mod 8 \<or> n = n mod 8 + 8 \<or> n = n mod 8 + 16 \<or> n = n mod 8 + 24"
    by (elim disjE) simp_all
  with that [of "n mod 8"] show thesis by simp
qed

lemma de3_be3: "de3 (be3 v) = take_bit 24 v"
proof (rule bit_word_eqI)
  fix n assume "n < LENGTH(32)"
  then obtain r where "r < 8" "n = r \<or> n = r + 8 \<or> n = r + 16 \<or> n = r + 24"
    using octet_cases [of n] by auto
  then show "bit (de3 (be3 v)) n = bit (take_bit 24 v) n"
    by (elim disjE) (simp_all add: de3_def be3_def bit_simps ac_simps)
qed

lemma de4_be4_append [simp]: "de4 (be4 v @ bs) = v"
proof (rule bit_word_eqI)
  fix n assume "n < LENGTH(32)"
  then obtain r where "r < 8" "n = r \<or> n = r + 8 \<or> n = r + 16 \<or> n = r + 24"
    using octet_cases [of n] by auto
  then show "bit (de4 (be4 v @ bs)) n = bit v n"
    by (elim disjE) (simp_all add: de4_def be4_def bit_simps ac_simps)
qed

lemma de4_be4 [simp]: "de4 (be4 v) = v"
  using de4_be4_append [of v "[]"] by simp

lemma be8_split: "be8 v = be4 (ucast (drop_bit 32 v)) @ be4 (ucast v)"
  by (simp add: be8_def be4_def drop_bit_drop_bit) (auto intro!: bit_word_eqI simp: bit_simps)

lemma word_halves: "push_bit 32 (ucast (ucast (drop_bit 32 v) :: u32)) OR ucast (ucast v :: u32) = v"
  for v :: u64
  by (rule bit_word_eqI) (auto simp: bit_simps)

lemma de8_be8 [simp]: "de8 (be8 v) = v"
  by (simp add: de8_def be8_split word_halves)

lemma Set_as_block [codec_simps]:
  "Set1Byte d i b = wr_block d i [b]"
  "Set2Bytes d i v = wr_block d i (be2 v)"
  "Set3Bytes d i w = wr_block d i (be3 w)"
  "Set4Bytes d i w = wr_block d i (be4 w)"
  "Set8Bytes d i x = wr_block d i (be8 x)"
  by (simp_all add: Set1Byte_def wr_as_block Set2Bytes_def Set3Bytes_def Set4Bytes_def
      Set8Bytes_def be2_def be3_def be4_def be8_def wr_block_join)


section \<open>Rounding up to a multiple of four\<close>

lemma and_not_plus_and: "(x AND NOT m) + (x AND m) = x" for x m :: "'a::len word"
proof -
  have "(x AND NOT m) AND (x AND m) = 0"
    by (rule bit_word_eqI) (auto simp: bit_simps)
  then have "(x AND NOT m) + (x AND m) = (x AND NOT m) OR (x AND m)"
    by (rule disjunctive_add_eq_or)
  also have "\<dots> = x" by (rule bit_word_eqI) (auto simp: bit_simps)
  finally show ?thesis .
qed

lemma unat_and_3: "unat (x AND 3) = unat x mod 4" for x :: "'a::len word"
proof -
  have "x AND 3 = take_bit 2 x" by (simp add: take_bit_eq_mask mask_eq_exp_minus_1)
  then have "unat (x AND 3) = take_bit 2 (unat x)" by (simp only: unsigned_take_bit_eq)
  then show ?thesis by (simp add: take_bit_eq_mod)
qed

lemma unat_and_not_3: "unat (x AND NOT 3) = unat x - unat x mod 4" for x :: "'a::len word"
proof -
  have "x AND NOT 3 = x - (x AND 3)"
    using and_not_plus_and [of x 3] by (simp add: algebra_simps)
  moreover have "x AND 3 \<le> x" by (rule word_and_le2)
  ultimately show ?thesis by (simp add: unat_sub unat_and_3)
qed

lemma and_3_eq_0: "x AND 3 = 0 \<longleftrightarrow> unat x mod 4 = 0" for x :: "'a::len word"
  by (metis unat_and_3 unat_eq_zero)


lemma pad4_arith: "(if n mod 4 \<noteq> 0 then n - n mod 4 + 4 else n) = (n + 3) div 4 * 4" for n :: nat
proof -
  define q r where "q = n div 4" and "r = n mod 4"
  have "n - r = 4 * q" by (simp add: q_def r_def minus_mod_eq_mult_div)
  moreover have "r < 4" by (simp add: r_def)
  moreover have "n = 4 * q + r" by (simp add: q_def r_def)
  moreover have "(4 * q + (r + 3)) div 4 = q + (r + 3) div 4" by simp
  moreover have "(r + 3) div 4 = (if r = 0 then 0 else 1)" using \<open>r < 4\<close> by auto
  ultimately show ?thesis by (simp add: add.assoc flip: r_def)
qed

lemma unat_and_minus_4: "unat (x AND - 4) = unat x - unat x mod 4" for x :: "'a::len word"
  using unat_and_not_3 [of x] by simp

lemma PadTo4Bytes16_alt: "PadTo4Bytes16 s = (if unat s mod 4 \<noteq> 0 then (s AND - 4) + 4 else s)"
proof -
  have "(0xFFFC :: u16) = - 4" by simp
  then have "s AND 0xFFFC = s AND - 4" by (rule arg_cong)
  then show ?thesis by (simp only: PadTo4Bytes16_def and_3_eq_0)
qed

lemma PadTo4Bytes32_alt: "PadTo4Bytes32 s = (if unat s mod 4 \<noteq> 0 then (s AND - 4) + 4 else s)"
proof -
  have "(0xFFFFFFFC :: u32) = - 4" by simp
  then have "s AND 0xFFFFFFFC = s AND - 4" by (rule arg_cong)
  then show ?thesis by (simp only: PadTo4Bytes32_def and_3_eq_0)
qed

lemma unat_PadTo4Bytes16: "unat (PadTo4Bytes16 s) = ((unat s + 3) div 4 * 4) mod 2 ^ 16"
proof -
  have "unat s < 2 ^ 16" using unsigned_less [of s] by simp
  then show ?thesis unfolding pad4_arith [symmetric]
    by (simp add: PadTo4Bytes16_alt unat_word_ariths unat_and_minus_4)
qed

lemma unat_PadTo4Bytes32: "unat (PadTo4Bytes32 s) = ((unat s + 3) div 4 * 4) mod 2 ^ 32"
proof -
  have "unat s < 2 ^ 32" using unsigned_less [of s] by simp
  then show ?thesis unfolding pad4_arith [symmetric]
    by (simp add: PadTo4Bytes32_alt unat_word_ariths unat_and_minus_4)
qed

section \<open>The codecs keep their contract\<close>

lemma Get_as_block [codec_simps]:
  "Get1Byte d i = bindR (rd_block d i 1) (\<lambda>bs. Inr (hd bs))"
  "Get2Bytes d i = bindR (rd_block d i 2) (\<lambda>bs. Inr (de2 bs))"
  "Get3Bytes d i = bindR (rd_block d i 3) (\<lambda>bs. Inr (de3 bs))"
  "Get4Bytes d i = bindR (rd_block d i 4) (\<lambda>bs. Inr (de4 bs))"
  by (auto simp: Get1Byte_def Get2Bytes_def Get3Bytes_def Get4Bytes_def rd_def rd_block_def
      de2_def de3_def de4_def hd_drop_conv_nth)

lemma Get8Bytes_as_block [codec_simps]:
  "Get8Bytes d i = bindR (rd_block d i 8) (\<lambda>bs. Inr (de8 bs))"
  by (auto simp: Get8Bytes_def Get_as_block rd_block_def de8_def drop_take ac_simps)

interpretation byte1: be_codec Get1Byte Set1Byte 1 "\<lambda>b. [b]" hd id
  by unfold_locales (simp_all add: codec_simps)

interpretation byte2: be_codec Get2Bytes Set2Bytes 2 be2 de2 id
  by unfold_locales (simp_all add: codec_simps)

interpretation byte3: be_codec Get3Bytes Set3Bytes 3 be3 de3 "take_bit 24"
  by unfold_locales (simp_all add: codec_simps de3_be3)

interpretation byte4: be_codec Get4Bytes Set4Bytes 4 be4 de4 id
  by unfold_locales (simp_all add: codec_simps)

interpretation byte8: be_codec Get8Bytes Set8Bytes 8 be8 de8 id
  by unfold_locales (simp_all add: codec_simps)

section \<open>Properties\<close>

text \<open>C39: a value that is written inside a buffer is read back as it was, but for the high byte that the
  three-byte setter drops, and nothing outside its own bytes changes.\<close>

theorem byte_codecs_roundtrip:
  assumes "i + 8 \<le> length d"
  shows "\<exists>d2 d3 d4 d8. Set2Bytes d i a = Inr d2 \<and> Get2Bytes d2 i = Inr a
    \<and> Set3Bytes d i b = Inr d3 \<and> Get3Bytes d3 i = Inr (take_bit 24 b)
    \<and> Set4Bytes d i b = Inr d4 \<and> Get4Bytes d4 i = Inr b
    \<and> Set8Bytes d i c = Inr d8 \<and> Get8Bytes d8 i = Inr c
    \<and> take i d2 = take i d \<and> drop (i + 2) d2 = drop (i + 2) d \<and> take i d3 = take i d \<and> drop (i + 3) d3 = drop (i + 3) d
    \<and> take i d4 = take i d \<and> drop (i + 4) d4 = drop (i + 4) d \<and> take i d8 = take i d \<and> drop (i + 8) d8 = drop (i + 8) d"
proof -
  obtain d2 d3 d4 d8 where set: "Set2Bytes d i a = Inr d2" "Set3Bytes d i b = Inr d3" "Set4Bytes d i b = Inr d4"
      "Set8Bytes d i c = Inr d8"
    using assms byte2.set_defined_iff [of d i a] byte3.set_defined_iff [of d i b] byte4.set_defined_iff [of d i b]
      byte8.set_defined_iff [of d i c] by auto
  note get = byte2.get_set [OF set(1)] byte3.get_set [OF set(2)] byte4.get_set [OF set(3)] byte8.get_set [OF set(4)]
  have "take i d2 = take i d \<and> drop (i + 2) d2 = drop (i + 2) d" "take i d3 = take i d \<and> drop (i + 3) d3 = drop (i + 3) d"
    "take i d4 = take i d \<and> drop (i + 4) d4 = drop (i + 4) d" "take i d8 = take i d \<and> drop (i + 8) d8 = drop (i + 8) d"
    using set assms by (auto simp: codec_simps wr_block_def)
  with set get show ?thesis by simp
qed

theorem byte_codecs_roundtrip_witness:
  "\<exists>d3. Set3Bytes (replicate 9 0) 1 0xAABBCCDD = Inr d3 \<and> Get3Bytes d3 1 = Inr 0xBBCCDD"
  using byte_codecs_roundtrip [where i = 1 and d = "replicate 9 0" and b = "0xAABBCCDD"] by (auto simp: take_bit_eq_mod)

text \<open>Padding rounds up to the next multiple of four, at the width of its argument: the last three
  values of the width are rounded to 0.\<close>

theorem padding_rounds_up:
  "unat (PadTo4Bytes16 s) = (unat s + 3) div 4 * 4 mod 2 ^ 16
   \<and> unat (PadTo4Bytes32 t) = (unat t + 3) div 4 * 4 mod 2 ^ 32"
  using unat_PadTo4Bytes16 unat_PadTo4Bytes32 by blast

end
