(* ===== verification/Ip_Addr.thy ===== *)
theory Ip_Addr
  imports Byte_Ops Text_Ops
begin

text \<open>
  The class \<open>Utils::IP\<close> of \<open>src/Utils.h\<close> and \<open>src/Utils.cpp\<close>, with the socket addresses it
  works on. A \<open>sockaddr\<close> is its family and the bytes that follow it in memory (Linux layout):
  for \<open>AF_INET\<close> the port in bytes 0 and 1 and the address in bytes 2 to 5, for \<open>AF_INET6\<close>
  the port in bytes 0 and 1 and the address in bytes 6 to 21. Ports and addresses are in network
  order. \<open>inet_ntoa\<close> and \<open>std::to_string\<close> are modelled, since the server keys its peers by
  the text they produce.
\<close>

section \<open>Socket addresses\<close>

record sockaddr =
  sa_family :: u16
  sa_data :: bytes

definition AF_INET :: u16 where "AF_INET = 2"
definition AF_INET6 :: u16 where "AF_INET6 = 10"

lemma AF_distinct [simp]: "AF_INET \<noteq> AF_INET6" "AF_INET6 \<noteq> AF_INET"
  by (simp_all add: AF_INET_def AF_INET6_def)

definition sin_port :: "sockaddr \<Rightarrow> bytes res" where
  "sin_port addr = rd_block (sa_data addr) 0 2"

definition sin_addr :: "sockaddr \<Rightarrow> bytes res" where
  "sin_addr addr = rd_block (sa_data addr) 2 4"

definition sin6_addr :: "sockaddr \<Rightarrow> bytes res" where
  "sin6_addr addr = rd_block (sa_data addr) 6 16"

definition CompareAddresses :: "sockaddr \<Rightarrow> sockaddr \<Rightarrow> bool res" where
  "CompareAddresses addr1 addr2 =
     (if sa_family addr1 \<noteq> sa_family addr2
         \<or> (sa_family addr1 \<noteq> AF_INET \<and> sa_family addr1 \<noteq> AF_INET6) then Inr False
      else bindR (sin_port addr1) (\<lambda>p1. bindR (sin_port addr2) (\<lambda>p2.
        if p1 \<noteq> p2 then Inr False
        else if sa_family addr1 = AF_INET
          then bindR (sin_addr addr1) (\<lambda>a1. bindR (sin_addr addr2) (\<lambda>a2. Inr (a1 = a2)))
        else if sa_family addr1 = AF_INET6
          then bindR (sin6_addr addr1) (\<lambda>a1. bindR (sin6_addr addr2) (\<lambda>a2. Inr (a1 = a2)))
        else Inr False)))"

text \<open>
  \<open>CopyAddress\<close> fills a \<open>sockaddr_storage\<close> that starts uninitialised: \<open>junk\<close> is what the
  storage holds before. \<open>memcpy\<close> copies the family and 14 or 26 bytes after it.
\<close>

definition CopyAddress :: "sockaddr \<Rightarrow> sockaddr \<Rightarrow> sockaddr res" where
  "CopyAddress junk addr =
     (if sa_family addr = AF_INET
        then bindR (rd_block (sa_data addr) 0 14) (\<lambda>bs. bindR (wr_block (sa_data junk) 0 bs) (\<lambda>d.
          Inr \<lparr>sa_family = sa_family addr, sa_data = d\<rparr>))
      else if sa_family addr = AF_INET6
        then bindR (rd_block (sa_data addr) 0 26) (\<lambda>bs. bindR (wr_block (sa_data junk) 0 bs) (\<lambda>d.
          Inr \<lparr>sa_family = sa_family addr, sa_data = d\<rparr>))
      else Inr junk)"

text \<open>What an address denotes: its family, port and host address.\<close>

datatype endpoint = Endpoint4 bytes bytes | Endpoint6 bytes bytes

definition endpoint_of :: "sockaddr \<Rightarrow> endpoint option" where
  "endpoint_of addr =
     (if sa_family addr = AF_INET
        then Some (Endpoint4 (take 2 (sa_data addr)) (take 4 (drop 2 (sa_data addr))))
      else if sa_family addr = AF_INET6
        then Some (Endpoint6 (take 2 (sa_data addr)) (take 16 (drop 6 (sa_data addr))))
      else None)"

text \<open>A complete object of its family, as \<open>sockaddr_in\<close> and \<open>sockaddr_in6\<close> are.\<close>

definition sockaddr_complete :: "sockaddr \<Rightarrow> bool" where
  "sockaddr_complete addr \<longleftrightarrow>
     (sa_family addr = AF_INET \<longrightarrow> 14 \<le> length (sa_data addr))
     \<and> (sa_family addr = AF_INET6 \<longrightarrow> 26 \<le> length (sa_data addr))"

text \<open>C38: on complete addresses the comparison reads no byte outside them and holds exactly
  when both denote the same internet endpoint.\<close>

theorem CompareAddresses_refines:
  assumes "sockaddr_complete a" "sockaddr_complete b"
  shows "CompareAddresses a b = Inr (endpoint_of a \<noteq> None \<and> endpoint_of a = endpoint_of b)"
  using assms
  by (auto simp: CompareAddresses_def endpoint_of_def sockaddr_complete_def sin_port_def
      sin_addr_def sin6_addr_def)

theorem CompareAddresses_refines_witness:
  "CompareAddresses \<lparr>sa_family = 2, sa_data = [0x1F, 0x90, 127, 0, 0, 1] @ replicate 8 0\<rparr>
                    \<lparr>sa_family = 2, sa_data = [0x1F, 0x90, 127, 0, 0, 1] @ replicate 8 9\<rparr> = Inr True"
proof -
  let ?a = "\<lparr>sa_family = 2, sa_data = [0x1F, 0x90, 127, 0, 0, 1] @ replicate 8 0\<rparr>"
  let ?b = "\<lparr>sa_family = 2, sa_data = [0x1F, 0x90, 127, 0, 0, 1] @ replicate 8 9\<rparr>"
  have "sockaddr_complete ?a" "sockaddr_complete ?b"
    by (simp_all add: sockaddr_complete_def AF_INET_def AF_INET6_def)
  from CompareAddresses_refines [OF this] show ?thesis
    by (simp add: endpoint_of_def AF_INET_def AF_INET6_def)
qed

text \<open>A copy denotes the same endpoint as the original.\<close>

lemma CopyAddress_endpoint:
  assumes "sockaddr_complete a" "26 \<le> length (sa_data junk)" "endpoint_of a \<noteq> None"
  shows "\<exists>c. CopyAddress junk a = Inr c \<and> endpoint_of c = endpoint_of a \<and> sockaddr_complete c"
  using assms
  by (auto simp: CopyAddress_def endpoint_of_def sockaddr_complete_def wr_block_def
      drop_take split: if_splits)

section \<open>Printed addresses\<close>

definition inet_ntoa :: "bytes \<Rightarrow> string" where
  "inet_ntoa a =
     to_string (unat (a ! 0)) @ ''.'' @ to_string (unat (a ! 1)) @ ''.''
     @ to_string (unat (a ! 2)) @ ''.'' @ to_string (unat (a ! 3))"

definition ntohs :: "bytes \<Rightarrow> u16" where
  "ntohs p = de2 p"

text \<open>
  \<open>GetIPString\<close> prints a 32-bit value whose bytes in memory are the address; the low byte is
  the first one on the little-endian machines the server runs on. The buffer is large enough,
  so \<open>inet_ntop\<close> does not fail.
\<close>

definition GetIPString :: "u32 \<Rightarrow> string" where
  "GetIPString x = inet_ntoa (rev (be4 x))"

text \<open>
  \<open>GetAddressInfo\<close> formats the address, and then assigns to \<open>ip\<close> the text in \<open>ipBuffer\<close>, a local
  array that nothing has written: \<open>junk\<close> is its content. The out-parameter \<open>port\<close> is left
  alone for other families.
\<close>

definition c_str :: "string \<Rightarrow> string res" where
  "c_str buf =
     (if CHR 0x00 \<in> set buf then Inr (takeWhile (\<lambda>c. c \<noteq> CHR 0x00) buf) else Inl Out_Of_Bounds)"

definition GetAddressInfo :: "string \<Rightarrow> sockaddr \<Rightarrow> u16 \<Rightarrow> (u16 \<times> string \<times> u16) res" where
  "GetAddressInfo junk addr port =
     bindR (if sa_family addr = AF_INET
              then bindR (sin_addr addr) (\<lambda>a. bindR (sin_port addr) (\<lambda>p. Inr (inet_ntoa a, ntohs p)))
            else if sa_family addr = AF_INET6
              then bindR (sin_port addr) (\<lambda>p. Inr ('''', ntohs p))
            else Inr ('''', port)) (\<lambda>(ip, port).
     bindR (c_str junk) (\<lambda>ip. Inr (sa_family addr, ip, port)))"

text \<open>The text that \<open>GetAddressInfo\<close> returns does not depend on the address at all.\<close>

theorem GetAddressInfo_ip_is_junk:
  "GetAddressInfo junk addr port = Inr (family, ip, port') \<Longrightarrow> c_str junk = Inr ip"
  by (auto simp: GetAddressInfo_def)

theorem GetAddressInfo_ip_is_junk_witness:
  "GetAddressInfo (replicate 47 CHR 0x00) \<lparr>sa_family = 2, sa_data = [0x1F, 0x90, 127, 0, 0, 1]\<rparr> 0
     = Inr (2, '''', 8080) \<and> c_str (replicate 47 CHR 0x00) = Inr ''''"
proof -
  have g: "GetAddressInfo (replicate 47 CHR 0x00) \<lparr>sa_family = 2, sa_data = [0x1F, 0x90, 127, 0, 0, 1]\<rparr> 0
     = Inr (2, '''', 8080)"
    by (simp add: GetAddressInfo_def AF_INET_def sin_addr_def sin_port_def rd_block_def ntohs_def
        de2_def c_str_def)
  from GetAddressInfo_ip_is_junk [OF g] g show ?thesis by simp
qed

section \<open>The text key of a remote address\<close>

text \<open>
  The server names a remote endpoint by \<open>ip + ":" + port\<close>, as \<open>OnRecvClientPkt\<close> builds it.
\<close>

definition remote_key :: "bytes \<Rightarrow> bytes \<Rightarrow> string" where
  "remote_key ip port = inet_ntoa ip @ '':'' @ to_string (unat (ntohs port))"

lemma digit_not_sep [simp]: "CHR ''.'' \<notin> set (to_string n)" "CHR '':'' \<notin> set (to_string n)"
  using to_string_digits by (fastforce simp: is_digit_def)+

lemma colon_not_in_ip [simp]: "CHR '':'' \<notin> set (inet_ntoa a)"
  by (simp add: inet_ntoa_def)

lemma inet_ntoa_inject:
  assumes "length a = 4" "length b = 4"
  shows "inet_ntoa a = inet_ntoa b \<longleftrightarrow> a = b"
proof
  assume "inet_ntoa a = inet_ntoa b"
  then have "a ! 0 = b ! 0 \<and> a ! 1 = b ! 1 \<and> a ! 2 = b ! 2 \<and> a ! 3 = b ! 3"
    by (simp add: inet_ntoa_def separator_inject word_unat_eq_iff)
  with assms show "a = b"
    by (intro nth_equalityI) (auto simp: numeral_eq_Suc less_Suc_eq)
qed simp

lemma length_2_iff: "length p = 2 \<longleftrightarrow> (\<exists>a b. p = [a, b])"
  by (auto simp: numeral_eq_Suc length_Suc_conv)

lemma de2_inject: "length p = 2 \<Longrightarrow> length q = 2 \<Longrightarrow> de2 p = de2 q \<longleftrightarrow> p = q"
proof -
  have be2_de2: "be2 (de2 p) = p" if l: "length p = 2" for p
  proof -
    obtain a b where p: "p = [a, b]" using l by (auto simp: length_2_iff)
    show ?thesis unfolding p
      by (simp add: be2_def de2_def)
        (auto intro!: bit_word_eqI simp: bit_simps, (drule bit_imp_le_length, simp)+)
  qed
  assume "length p = 2" "length q = 2"
  then show ?thesis by (metis be2_de2)
qed

text \<open>Two remote endpoints have the same key only if address and port agree.\<close>

theorem remote_key_inject:
  assumes "length ip = 4" "length ip' = 4" "length port = 2" "length port' = 2"
  shows "remote_key ip port = remote_key ip' port' \<longleftrightarrow> ip = ip' \<and> port = port'"
proof -
  have "unat (ntohs port) = unat (ntohs port') \<longleftrightarrow> port = port'"
    using de2_inject [OF assms(3,4)] by (simp add: ntohs_def flip: word_unat_eq_iff)
  then show ?thesis
    using inet_ntoa_inject [OF assms(1,2)] by (simp add: remote_key_def separator_inject)
qed

theorem remote_key_inject_witness:
  "remote_key [10, 0, 0, 1] [0x1F, 0x90] = ''10.0.0.1:8080''
   \<and> remote_key [10, 0, 0, 1] [0x1F, 0x90] \<noteq> remote_key [10, 0, 0, 1] [0x1F, 0x91]"
proof
  show "remote_key [10, 0, 0, 1] [0x1F, 0x90] = ''10.0.0.1:8080''"
    by (simp add: remote_key_def inet_ntoa_def ntohs_def de2_def to_string.simps digit_char_def char_of_def
        bit_Suc_0_iff)
  show "remote_key [10, 0, 0, 1] [0x1F, 0x90] \<noteq> remote_key [10, 0, 0, 1] [0x1F, 0x91]"
    by (subst remote_key_inject) simp_all
qed

end
