(* ===== verification/Dump_File.thy ===== *)
theory Dump_File
  imports Text_Ops Ip_Addr
begin

text \<open>
  The helper functions of \<open>src/rtc_peer.cpp\<close> that create the dump files of received video:
  \<open>CreateDirectory\<close>, \<open>WriteH264FileStart\<close>, \<open>WriteFile\<close> and \<open>WriteH264FileStop\<close>. The file system
  is a parameter: \<open>access\<close> asks whether a path exists, \<open>mkdir\<close> returns a result code and the new
  file system, \<open>fopen\<close> a handle; the clock and \<open>localtime_r\<close> are parameters too.
\<close>

section \<open>CreateDirectory\<close>

definition MAX_PATH_LEN :: nat where "MAX_PATH_LEN = 1024"

text \<open>The C string that starts at the beginning of a character array.\<close>

definition c_prefix :: "char list \<Rightarrow> string res" where
  "c_prefix buf =
     (if CHR 0x00 \<in> set buf then Inr (takeWhile (\<lambda>c. c \<noteq> CHR 0x00) buf) else Inl Out_Of_Bounds)"

definition is_separator :: "char \<Rightarrow> bool" where
  "is_separator c \<longleftrightarrow> c = CHR 0x5C \<or> c = CHR ''/''"

text \<open>The loop from index \<open>i\<close>, with the array \<open>tmp\<close> and the file system \<open>fs\<close>.\<close>

function create_loop ::
  "('fs \<Rightarrow> string \<Rightarrow> bool) \<Rightarrow> (string \<Rightarrow> 'fs \<Rightarrow> int \<times> 'fs) \<Rightarrow> string \<Rightarrow> nat \<Rightarrow> char list \<Rightarrow> 'fs
     \<Rightarrow> (int \<times> 'fs) res" where
  "create_loop access mkdir path i tmp fs =
     (if i < length path then
        bindR (wr tmp i (path ! i)) (\<lambda>tmp.
          if i = 0 \<and> path ! 0 = CHR ''/'' then create_loop access mkdir path (i + 1) tmp fs
          else if is_separator (path ! i) then
            bindR (wr tmp i (CHR 0x00)) (\<lambda>tmp.
            bindR (c_prefix tmp) (\<lambda>dir.
              if \<not> access fs dir then
                (let (ret, fs) = mkdir dir fs
                 in if ret \<noteq> 0 then Inr (ret, fs)
                    else bindR (wr tmp i (CHR ''/'')) (\<lambda>tmp. create_loop access mkdir path (i + 1) tmp fs))
              else bindR (wr tmp i (CHR ''/'')) (\<lambda>tmp. create_loop access mkdir path (i + 1) tmp fs)))
          else create_loop access mkdir path (i + 1) tmp fs)
      else Inr (0, fs))"
  by pat_completeness auto
termination
  by (relation "measure (\<lambda>(access, mkdir, path, i, tmp, fs). length path - i)") auto

declare create_loop.simps [simp del]

text \<open>The length of the path is narrowed to \<open>int32_t\<close>, and only that many characters are read.\<close>

definition CreateDirectory ::
  "('fs \<Rightarrow> string \<Rightarrow> bool) \<Rightarrow> (string \<Rightarrow> 'fs \<Rightarrow> int \<times> 'fs) \<Rightarrow> string \<Rightarrow> 'fs \<Rightarrow> (int \<times> 'fs) res" where
  "CreateDirectory access mkdir path fs =
     (let dir_path_len = size_to_int32 (length path)
      in if dir_path_len > int MAX_PATH_LEN then Inr (-1, fs)
         else create_loop access mkdir (take (nat dir_path_len) path) 0
                (replicate MAX_PATH_LEN (CHR 0x00)) fs)"

section \<open>The directories that it creates\<close>

definition normalised :: "string \<Rightarrow> string" where
  "normalised = map (\<lambda>c. if is_separator c then CHR ''/'' else c)"

lemma normalised_no_nul: "CHR 0x00 \<notin> set p \<Longrightarrow> CHR 0x00 \<notin> set (normalised p)"
  by (auto simp: normalised_def split: if_splits)

definition loop_buffer :: "string \<Rightarrow> nat \<Rightarrow> char list" where
  "loop_buffer path i = normalised (take i path) @ replicate (MAX_PATH_LEN - i) (CHR 0x00)"

lemma loop_buffer_steps:
  assumes "i < length path" "length path \<le> MAX_PATH_LEN" "CHR 0x00 \<notin> set path"
  shows "wr (loop_buffer path i) i c = Inr ((loop_buffer path i)[i := c])"
    and "c_prefix (((loop_buffer path i)[i := c])[i := CHR 0x00]) = Inr (normalised (take i path))"
    and "is_separator (path ! i) \<Longrightarrow> c = CHR ''/'' \<Longrightarrow>
           (loop_buffer path i)[i := c] = loop_buffer path (Suc i)"
    and "\<not> is_separator (path ! i) \<Longrightarrow> c = path ! i \<Longrightarrow>
           (loop_buffer path i)[i := c] = loop_buffer path (Suc i)"
    and "length (loop_buffer path i) = MAX_PATH_LEN"
proof -
  define k where "k = MAX_PATH_LEN - Suc i"
  have k: "MAX_PATH_LEN - i = Suc k" "MAX_PATH_LEN - Suc i = k" using assms(1,2) by (simp_all add: k_def)
  have len: "length (normalised (take i path)) = i" using assms(1) by (simp add: normalised_def)
  have upd: "(loop_buffer path i)[i := c] = normalised (take i path) @ c # replicate k (CHR 0x00)" for c
    using len by (simp add: loop_buffer_def k list_update_append)
  show length_buffer: "length (loop_buffer path i) = MAX_PATH_LEN"
    using len assms(1,2) by (simp add: loop_buffer_def)
  show "wr (loop_buffer path i) i c = Inr ((loop_buffer path i)[i := c])"
    using length_buffer assms(1,2) by (simp add: wr_def)
  have nul: "CHR 0x00 \<notin> set (normalised (take i path))"
    using assms(3) by (auto intro!: normalised_no_nul dest: in_set_takeD)
  have "takeWhile (\<lambda>c. c \<noteq> CHR 0x00) (normalised (take i path) @ CHR 0x00 # replicate k (CHR 0x00))
      = normalised (take i path)"
    using nul by (subst takeWhile_append2) auto
  then show "c_prefix (((loop_buffer path i)[i := c])[i := CHR 0x00]) = Inr (normalised (take i path))"
    using upd [of "CHR 0x00"] by (simp add: c_prefix_def)
  show "is_separator (path ! i) \<Longrightarrow> c = CHR ''/'' \<Longrightarrow> (loop_buffer path i)[i := c] = loop_buffer path (Suc i)"
    "\<not> is_separator (path ! i) \<Longrightarrow> c = path ! i \<Longrightarrow> (loop_buffer path i)[i := c] = loop_buffer path (Suc i)"
    unfolding upd using assms(1)
    by (simp_all add: loop_buffer_def k normalised_def take_Suc_conv_app_nth)
qed

text \<open>The positions whose prefix names a directory.\<close>

definition directory_end :: "string \<Rightarrow> nat \<Rightarrow> bool" where
  "directory_end path j \<longleftrightarrow>
     j < length path \<and> is_separator (path ! j) \<and> \<not> (j = 0 \<and> path ! 0 = CHR ''/'')"

text \<open>One round: at the end of a directory that does not exist, it is made.\<close>

lemma create_loop_step:
  fixes access :: "'fs \<Rightarrow> string \<Rightarrow> bool" and mkdir :: "string \<Rightarrow> 'fs \<Rightarrow> int \<times> 'fs"
  assumes i: "i < length path" and path: "length path \<le> MAX_PATH_LEN" "CHR 0x00 \<notin> set path"
  defines "dir \<equiv> normalised (take i path)"
    and "rest \<equiv> create_loop access mkdir path (i + 1) (loop_buffer path (Suc i))"
  shows "create_loop access mkdir path i (loop_buffer path i) fs =
    (if directory_end path i \<and> \<not> access fs dir
     then (let (ret, fs) = mkdir dir fs in if ret \<noteq> 0 then Inr (ret, fs) else rest fs) else rest fs)"
proof -
  note buffer = loop_buffer_steps [OF i path]
  show ?thesis
  proof (cases "directory_end path i")
    case False
    have next_buffer: "(loop_buffer path i)[i := path ! i] = loop_buffer path (Suc i)"
    proof (cases "is_separator (path ! i)")
      case True
      with False i have "path ! i = CHR ''/''" by (auto simp: directory_end_def)
      with True buffer(3) show ?thesis by simp
    qed (use buffer(4) in simp)
    have "is_separator (path ! i) \<Longrightarrow> i = 0 \<and> path ! 0 = CHR ''/''"
      using False i by (simp add: directory_end_def)
    then have "create_loop access mkdir path i (loop_buffer path i) fs = rest fs"
      unfolding rest_def using i buffer(1) [of "path ! i"]
      by (subst create_loop.simps) (simp only: next_buffer bindR_Inr if_True if_False cong: if_cong, auto)
    with False show ?thesis by simp
  next
    case True
    have sep: "is_separator (path ! i)" "\<not> (i = 0 \<and> path ! 0 = CHR ''/'')"
      using True by (simp_all add: directory_end_def)
    have "wr ((loop_buffer path i)[i := path ! i]) i (CHR 0x00)
        = Inr ((loop_buffer path i)[i := path ! i, i := CHR 0x00])"
      using buffer(5) i path(1) by (simp add: wr_def)
    moreover have "wr ((loop_buffer path i)[i := path ! i, i := CHR 0x00]) i (CHR ''/'')
        = Inr (loop_buffer path (Suc i))"
      using buffer(5) i path(1) buffer(3) [OF sep(1) refl] by (simp add: wr_def)
    ultimately show ?thesis
      using i sep buffer(1) [of "path ! i"] buffer(2) [of "path ! i"] True
      by (subst create_loop.simps) (auto simp: dir_def rest_def Let_def split: prod.split)
  qed
qed

lemma create_loop_end [simp]: "create_loop access mkdir path (length path) tmp fs = Inr (0, fs)"
  by (simp add: create_loop.simps)

lemma create_loop_total:
  assumes "length path \<le> MAX_PATH_LEN" "CHR 0x00 \<notin> set path"
  shows "i \<le> length path \<Longrightarrow> \<exists>r. create_loop access mkdir path i (loop_buffer path i) fs = Inr r"
proof (induction i arbitrary: fs rule: inc_induct)
  case (step i)
  then show ?case by (simp add: create_loop_step [OF _ assms] split: prod.split)
qed simp

lemma create_loop_spec:
  assumes "length path \<le> MAX_PATH_LEN" "CHR 0x00 \<notin> set path"
    and mkdir: "\<And>d fs fs' e. mkdir d fs = (0, fs') \<Longrightarrow> access fs' d \<and> (access fs e \<longrightarrow> access fs' e)"
  shows "i \<le> length path \<Longrightarrow> create_loop access mkdir path i (loop_buffer path i) fs = Inr (0, fs') \<Longrightarrow>
    (\<forall>e. access fs e \<longrightarrow> access fs' e)
    \<and> (\<forall>j. i \<le> j \<longrightarrow> directory_end path j \<longrightarrow> access fs' (normalised (take j path)))"
proof (induction i arbitrary: fs rule: inc_induct)
  case base
  then show ?case by (simp add: directory_end_def)
next
  case (step i)
  define dir where "dir = normalised (take i path)"
  have "\<exists>fs1. create_loop access mkdir path (Suc i) (loop_buffer path (Suc i)) fs1 = Inr (0, fs')
      \<and> (\<forall>e. access fs e \<longrightarrow> access fs1 e) \<and> (directory_end path i \<longrightarrow> access fs1 dir)"
    using step.prems create_loop_step [OF step.hyps(2) assms(1,2), of access mkdir fs] mkdir [of dir fs]
    by (auto simp: dir_def split: if_splits prod.splits)
  with step.IH show ?case unfolding dir_def by (metis le_antisym not_less_eq_eq)
qed

lemma CreateDirectory_eq:
  "length path \<le> MAX_PATH_LEN \<Longrightarrow>
     CreateDirectory access mkdir path fs = create_loop access mkdir path 0 (loop_buffer path 0) fs"
  by (simp add: CreateDirectory_def size_to_int32_small MAX_PATH_LEN_def loop_buffer_def normalised_def)

text \<open>C34: on a path of at most 1024 characters without a zero character the function writes only
  within its array, and when it returns 0, every directory on the way to the last separator exists,
  with backslashes read as slashes, and no directory has disappeared.\<close>

theorem CreateDirectory_creates:
  assumes "length path \<le> MAX_PATH_LEN" "CHR 0x00 \<notin> set path"
    and "\<forall>d fs fs' e. mkdir d fs = (0, fs') \<longrightarrow> access fs' d \<and> (access fs e \<longrightarrow> access fs' e)"
  shows "\<exists>ret fs'. CreateDirectory access mkdir path fs = Inr (ret, fs')
    \<and> (ret = 0 \<longrightarrow> (\<forall>e. access fs e \<longrightarrow> access fs' e)
        \<and> (\<forall>j. directory_end path j \<longrightarrow> access fs' (normalised (take j path))))"
proof -
  have mk: "mkdir d fs = (0, fs') \<Longrightarrow> access fs' d \<and> (access fs e \<longrightarrow> access fs' e)" for d fs fs' e
    using assms(3) by blast
  have start: "CreateDirectory access mkdir path fs = create_loop access mkdir path 0 (loop_buffer path 0) fs"
    using assms(1) by (rule CreateDirectory_eq)
  obtain ret fs' where r: "create_loop access mkdir path 0 (loop_buffer path 0) fs = Inr (ret, fs')"
    using create_loop_total [OF assms(1,2), of 0] by (metis le0 surj_pair)
  show ?thesis
    using create_loop_spec [where access = access and fs = fs and fs' = fs', OF assms(1,2) mk le0] r by (auto simp: start)
qed

theorem CreateDirectory_creates_witness:
  "\<exists>ret fs'. CreateDirectory (\<lambda>fs d. d \<in> fs) (\<lambda>d fs. (0, insert d fs)) ''/data/x/'' {} = Inr (ret, fs')
     \<and> (ret = 0 \<longrightarrow> ''/data'' \<in> fs' \<and> ''/data/x'' \<in> fs')"
proof -
  have "\<forall>d fs fs' e. (0 :: int, insert d fs) = (0, fs') \<longrightarrow> (d :: string) \<in> fs' \<and> (e \<in> fs \<longrightarrow> e \<in> fs')"
    by auto
  from CreateDirectory_creates [where mkdir = "\<lambda>d fs. (0, insert d fs)" and access = "\<lambda>fs d. d \<in> fs",
      OF _ _ this, of "''/data/x/''" "{}"]
  obtain ret fs' where r: "CreateDirectory (\<lambda>fs d. d \<in> fs) (\<lambda>d fs. (0, insert d fs)) ''/data/x/'' {} = Inr (ret, fs')"
      "ret = 0 \<longrightarrow> (\<forall>j. directory_end ''/data/x/'' j \<longrightarrow> normalised (take j ''/data/x/'') \<in> fs')"
    by (auto simp: MAX_PATH_LEN_def)
  have "directory_end ''/data/x/'' 5" "directory_end ''/data/x/'' 7"
    by (simp_all add: directory_end_def is_separator_def)
  moreover have "normalised (take 5 ''/data/x/'') = ''/data''" "normalised (take 7 ''/data/x/'') = ''/data/x''"
    by (simp_all add: normalised_def is_separator_def)
  ultimately show ?thesis using r by metis
qed

section \<open>The file\<close>

lemma scan_single:
  "scan [c] s i = Some k \<Longrightarrow> i \<le> k \<and> k - i < length s \<and> s ! (k - i) = c"
proof (induction s arbitrary: i)
  case (Cons x xs)
  show ?case
  proof (cases "x = c")
    case True
    with Cons.prems show ?thesis by simp
  next
    case False
    with Cons.prems have "scan [c] xs (i + 1) = Some k" by simp
    from Cons.IH [OF this] have k: "i + 1 \<le> k" "k - (i + 1) < length xs" "xs ! (k - (i + 1)) = c"
      by simp_all
    then have "k - i = Suc (k - (i + 1))" by simp
    with k show ?thesis by simp
  qed
qed simp

lemma str_find_single: "str_find s [c] 0 \<noteq> npos \<Longrightarrow>
    str_find s [c] 0 < length s \<and> s ! str_find s [c] 0 = c"
  by (auto simp: str_find_def dest: scan_single split: option.splits if_splits)

lemma filter_update_less:
  "i < length s \<Longrightarrow> s ! i = c \<Longrightarrow> d \<noteq> c \<Longrightarrow>
     length (filter (\<lambda>x. x = c) (s[i := d])) < length (filter (\<lambda>x. x = c) s)"
proof (induction s arbitrary: i)
  case (Cons x s)
  then show ?case by (cases i) auto
qed simp

text \<open>\<open>while (1) { if ((pos = s.find("/")) != npos) s.replace(pos, 1, "_"); else break; }\<close>\<close>

function replace_loop :: "string \<Rightarrow> string" where
  "replace_loop s =
     (let pos = str_find s ''/'' 0
      in if pos \<noteq> npos then replace_loop (s[pos := CHR ''_'']) else s)"
  by pat_completeness auto
termination
proof (relation "measure (\<lambda>s. length (filter (\<lambda>x. x = CHR ''/'') s))")
  fix s :: string and pos
  assume "pos = str_find s ''/'' 0" "pos \<noteq> npos"
  with str_find_single [of s "CHR ''/''"]
  show "(s[pos := CHR ''_''], s) \<in> measure (\<lambda>s. length (filter (\<lambda>x. x = CHR ''/'') s))"
    by (simp add: filter_update_less)
qed simp

declare replace_loop.simps [simp del]

text \<open>\<open>snprintf(dst, 255, \<dots>)\<close> into an array of 256 zero characters, \<open>%s\<close> and \<open>%d\<close>.\<close>

definition snprintf255 :: "string \<Rightarrow> string" where
  "snprintf255 text = take 254 text"

definition percent_s :: "string \<Rightarrow> string" where
  "percent_s s = takeWhile (\<lambda>c. c \<noteq> CHR 0x00) s"

definition percent_d :: "int \<Rightarrow> string" where
  "percent_d n = (if n < 0 then ''-'' @ to_string (nat (- n)) else to_string (nat n))"

definition dump_path :: "string \<Rightarrow> string" where
  "dump_path hour_fmt = snprintf255 (''/data/WebrtcDump/'' @ percent_s hour_fmt @ ''/'')"

definition video_name :: "string \<Rightarrow> string \<Rightarrow> string \<Rightarrow> int \<Rightarrow> string" where
  "video_name path time_fmt stream_id file_id =
     snprintf255 (percent_s path @ percent_s time_fmt @ ''-'' @ percent_s stream_id @ ''-worker_''
       @ percent_d file_id @ ''.264'')"

text \<open>
  The time of day. \<open>localtime\<close> is a parameter: \<open>localtime_r\<close>, for a number of seconds. \<open>strftime\<close> writes
  nothing that can be read when the text and its zero do not fit into the array.
\<close>

record calendar =
  tm_year :: int
  tm_mon :: int
  tm_mday :: int
  tm_hour :: int
  tm_min :: int
  tm_sec :: int

definition GetTimestampMs :: "u64 \<Rightarrow> u64 \<Rightarrow> u64" where
  "GetTimestampMs tv_sec tv_usec = tv_sec * 1000 + tv_usec div 1000"

definition two_digits :: "int \<Rightarrow> string" where
  "two_digits n = [digit_char (nat n div 10 mod 10), digit_char (nat n mod 10)]"

definition strftime :: "string \<Rightarrow> nat \<Rightarrow> string res" where
  "strftime text len = (if length text < len then Inr text else Inl Uninitialised)"

definition FilePrintTime :: "(u64 \<Rightarrow> calendar) \<Rightarrow> u64 \<Rightarrow> nat \<Rightarrow> string res" where
  "FilePrintTime localtime time_ms len =
     (let t = localtime (time_ms div 1000)
      in strftime (percent_d (tm_year t + 1900) @ ''_'' @ two_digits (tm_mon t + 1) @ ''_'' @ two_digits (tm_mday t)
           @ ''_'' @ two_digits (tm_hour t) @ ''_'' @ two_digits (tm_min t) @ ''_'' @ two_digits (tm_sec t)) len)"

definition PrintData :: "(u64 \<Rightarrow> calendar) \<Rightarrow> u64 \<Rightarrow> nat \<Rightarrow> string res" where
  "PrintData localtime time_ms len =
     (let t = localtime (time_ms div 1000)
      in strftime (percent_d (tm_year t + 1900) @ ''-'' @ two_digits (tm_mon t + 1) @ ''-'' @ two_digits (tm_mday t)
           @ ''-'' @ two_digits (tm_hour t)) len)"

definition WriteH264FileStart ::
  "('fs \<Rightarrow> string \<Rightarrow> bool) \<Rightarrow> (string \<Rightarrow> 'fs \<Rightarrow> int \<times> 'fs) \<Rightarrow> (string \<Rightarrow> 'fs \<Rightarrow> nat option \<times> 'fs)
     \<Rightarrow> (u64 \<Rightarrow> calendar) \<Rightarrow> u64 \<Rightarrow> string \<Rightarrow> int \<Rightarrow> 'fs \<Rightarrow> (nat option \<times> 'fs) res" where
  "WriteH264FileStart access mkdir fopen localtime time_ms stream_id file_id fs =
     (let stream_id = replace_loop stream_id
      in bindR (PrintData localtime time_ms 64) (\<lambda>hour_fmt.
         let path = dump_path hour_fmt
         in bindR (CreateDirectory access mkdir path fs) (\<lambda>(_, fs).
            bindR (FilePrintTime localtime time_ms 64) (\<lambda>time_fmt.
            Inr (fopen (video_name path time_fmt stream_id file_id) fs)))))"

text \<open>
  A file is its content, which is what \<open>fwrite\<close> has put into it, and whether it is open. The outcome
  of a call \<open>fwrite(data, len, 1, file)\<close> is the environment's: \<open>Written\<close> when the whole item went
  into the file, and the result is 1; \<open>Short k\<close> when it failed after \<open>k\<close> bytes, and the result is 0.
  Closing sets only the local copy of the pointer to \<open>NULL\<close>.
\<close>

datatype fwrite = Written | Short nat

record dump_file =
  content :: bytes
  opened :: bool

definition WriteFile :: "fwrite \<Rightarrow> bytes option \<Rightarrow> nat \<Rightarrow> dump_file option \<Rightarrow> (int \<times> dump_file option) res" where
  "WriteFile outcome data_buffer data_len file =
     (case (data_buffer, file) of
        (Some d, Some f) \<Rightarrow>
          if data_len = 0 then Inr (-1, file)
          else if \<not> opened f then Inl Use_After_Free
          else bindR (rd_block d 0 data_len) (\<lambda>bs.
            Inr (case outcome of
                   Written \<Rightarrow> (1, Some (f\<lparr>content := content f @ bs\<rparr>))
                 | Short k \<Rightarrow> (0, Some (f\<lparr>content := content f @ take k bs\<rparr>))))
      | _ \<Rightarrow> Inr (-1, file))"

definition WriteH264FileStop :: "dump_file option \<Rightarrow> dump_file option res" where
  "WriteH264FileStop file =
     (case file of
        None \<Rightarrow> Inr None
      | Some f \<Rightarrow> if opened f then Inr (Some (f\<lparr>opened := False\<rparr>)) else Inl Double_Free)"

section \<open>The name of the file\<close>

lemma replace_loop_eq:
  "length s < npos \<Longrightarrow> replace_loop s = map (\<lambda>c. if c = CHR ''/'' then CHR ''_'' else c) s"
proof (induction s rule: replace_loop.induct)
  case (1 s)
  define pos where "pos = str_find s ''/'' 0"
  show ?case
  proof (cases "pos = npos")
    case True
    have "CHR ''/'' \<notin> set s"
    proof
      assume "CHR ''/'' \<in> set s"
      then obtain a b where s: "s = a @ CHR ''/'' # b" "CHR ''/'' \<notin> set a" by (meson split_list_first)
      then have "pos = length a" by (simp add: pos_def str_find_def scan_char)
      with True 1(2) s show False by simp
    qed
    then have "map (\<lambda>c. if c = CHR ''/'' then CHR ''_'' else c) s = s" by (intro map_idI) auto
    with True show ?thesis by (simp add: replace_loop.simps [of s] flip: pos_def)
  next
    case False
    then have pos: "pos < length s" "s ! pos = CHR ''/''"
      using str_find_single [of s "CHR ''/''"] by (simp_all add: pos_def)
    have "replace_loop s = replace_loop (s[pos := CHR ''_''])"
      using False by (simp add: replace_loop.simps [of s] flip: pos_def)
    also have "\<dots> = map (\<lambda>c. if c = CHR ''/'' then CHR ''_'' else c) (s[pos := CHR ''_''])"
      using 1(1) [OF pos_def False] 1(2) by simp
    also have "\<dots> = map (\<lambda>c. if c = CHR ''/'' then CHR ''_'' else c) s"
      using pos by (simp add: map_update list_update_same_conv)
    finally show ?thesis .
  qed
qed

lemma percent_d_no_slash: "CHR ''/'' \<notin> set (percent_d n)"
proof -
  have "CHR ''/'' \<notin> set (to_string m)" for m
    using to_string_digits [of "CHR ''/''" m] by (auto simp: is_digit_def)
  then show ?thesis by (simp add: percent_d_def)
qed

text \<open>What a stream identifier contributes to the name: its slashes become underscores, and it ends
  at its first zero character.\<close>

definition stream_part :: "string \<Rightarrow> string" where
  "stream_part stream_id =
     map (\<lambda>c. if c = CHR ''/'' then CHR ''_'' else c) (takeWhile (\<lambda>c. c \<noteq> CHR 0x00) stream_id)"

lemma percent_s_replace_loop: "length s < npos \<Longrightarrow> percent_s (replace_loop s) = stream_part s"
proof -
  assume "length s < npos"
  moreover have "(\<lambda>c. c \<noteq> CHR 0x00) \<circ> (\<lambda>c. if c = CHR ''/'' then CHR ''_'' else c)
      = (\<lambda>c. c \<noteq> CHR 0x00)" by auto
  ultimately show ?thesis by (simp add: percent_s_def stream_part_def replace_loop_eq takeWhile_map)
qed

lemma percent_s_id: "CHR 0x00 \<notin> set s \<Longrightarrow> percent_s s = s"
  by (auto simp: percent_s_def takeWhile_eq_all_conv)

definition file_part :: "string \<Rightarrow> string \<Rightarrow> int \<Rightarrow> string" where
  "file_part now stream_id file_id =
     now @ ''-'' @ stream_part stream_id @ ''-worker_'' @ percent_d file_id @ ''.264''"

lemma file_part_no_slash: "CHR ''/'' \<notin> set now \<Longrightarrow> CHR ''/'' \<notin> set (file_part now stream_id file_id)"
  using percent_d_no_slash [of file_id] by (auto simp: file_part_def stream_part_def)

lemma video_name_eq:
  assumes "length stream_id < npos" "CHR 0x00 \<notin> set now" "CHR 0x00 \<notin> set path" "length path \<le> 254"
  shows "video_name path now (replace_loop stream_id) file_id
    = path @ take (254 - length path) (file_part now stream_id file_id)"
  using assms by (simp add: video_name_def snprintf255_def percent_s_replace_loop percent_s_id file_part_def)

text \<open>The texts of a time of day whose year has at most nine digits fit into their arrays, and consist
  of digits and separators.\<close>

definition year_ok :: "calendar \<Rightarrow> bool" where
  "year_ok t \<longleftrightarrow> - 1900 \<le> tm_year t \<and> tm_year t < 10 ^ 9 - 1900"

lemma length_to_string: "n < 10 ^ k \<Longrightarrow> 0 < k \<Longrightarrow> length (to_string n) \<le> k"
proof (induction n arbitrary: k rule: to_string.induct)
  case (1 n)
  show ?case
  proof (cases "n < 10")
    case True
    with 1 show ?thesis by (simp add: to_string.simps [of n])
  next
    case False
    obtain j where k: "k = Suc j" using 1(3) by (cases k) auto
    have "0 < j" using 1(2) False k by (cases j) auto
    with k have j: "k = Suc j" "0 < j" by auto
    then have "n div 10 < 10 ^ j" using 1(2) by (simp add: less_mult_imp_div_less mult.commute)
    with 1(1) [OF False, of j] False j show ?thesis by (simp add: to_string.simps [of n])
  qed
qed

lemma digit_char_range: "d < 10 \<Longrightarrow> is_digit (digit_char d)"
  by (simp add: is_digit_def of_char_digit)

lemma time_texts:
  assumes "year_ok (localtime (time_ms div 1000))"
  obtains day now where "PrintData localtime time_ms 64 = Inr day" "FilePrintTime localtime time_ms 64 = Inr now"
    "\<forall>c\<in>set day. is_digit c \<or> c = CHR ''-''" "\<forall>c\<in>set now. is_digit c \<or> c = CHR ''_''" "length day \<le> 18"
proof -
  define t where "t = localtime (time_ms div 1000)"
  define year where "year = percent_d (tm_year t + 1900)"
  have "nat (tm_year t + 1900) < 10 ^ 9" using assms by (simp add: year_ok_def t_def nat_less_iff)
  then have "length year \<le> 9" "\<forall>c\<in>set year. is_digit c"
    using assms length_to_string [of "nat (tm_year t + 1900)" 9] to_string_digits
    by (auto simp: year_def percent_d_def year_ok_def t_def)
  moreover have "\<forall>c\<in>set (two_digits n). is_digit c" "length (two_digits n) = 2" for n
    by (simp_all add: two_digits_def digit_char_range)
  ultimately show thesis
    by (intro that) (auto simp: PrintData_def FilePrintTime_def strftime_def Let_def simp flip: t_def year_def)
qed

text \<open>
  The texts that a time of day should have, written without \<open>strftime\<close>: the year in decimal, then
  month, day, hour (minute, second) in decimal with a leading zero where they have one digit. The
  ranges are those of \<open>struct tm\<close>; the year has four to nine digits.
\<close>

definition padded :: "int \<Rightarrow> string" where
  "padded n = (if n < 10 then ''0'' @ to_string (nat n) else to_string (nat n))"

definition hour_text :: "calendar \<Rightarrow> string" where
  "hour_text t = to_string (nat (1900 + tm_year t)) @ ''-'' @ padded (1 + tm_mon t) @ ''-''
     @ padded (tm_mday t) @ ''-'' @ padded (tm_hour t)"

definition second_text :: "calendar \<Rightarrow> string" where
  "second_text t = to_string (nat (1900 + tm_year t)) @ ''_'' @ padded (1 + tm_mon t) @ ''_''
     @ padded (tm_mday t) @ ''_'' @ padded (tm_hour t) @ ''_'' @ padded (tm_min t) @ ''_''
     @ padded (tm_sec t)"

definition calendar_ok :: "calendar \<Rightarrow> bool" where
  "calendar_ok t \<longleftrightarrow> 1000 \<le> 1900 + tm_year t \<and> 1900 + tm_year t < 10 ^ 9
     \<and> 0 \<le> tm_mon t \<and> tm_mon t \<le> 11 \<and> 1 \<le> tm_mday t \<and> tm_mday t \<le> 31
     \<and> 0 \<le> tm_hour t \<and> tm_hour t \<le> 23 \<and> 0 \<le> tm_min t \<and> tm_min t \<le> 59
     \<and> 0 \<le> tm_sec t \<and> tm_sec t \<le> 60"

lemma two_digits_padded: "0 \<le> n \<Longrightarrow> n < 100 \<Longrightarrow> two_digits n = padded n"
proof -
  assume n: "0 \<le> n" "n < 100"
  then have "nat n div 10 < 10" by (simp add: nat_less_iff less_mult_imp_div_less)
  moreover have "digit_char 0 = CHR ''0''" by (simp add: digit_char_def char_of_def bit_Suc_0_iff)
  ultimately show ?thesis
    using n by (simp add: two_digits_def padded_def to_string.simps [of "nat n"]
        to_string.simps [of "nat n div 10"] nat_less_iff)
qed

lemma calendar_texts:
  assumes "calendar_ok (localtime (time_ms div 1000))"
  defines "t \<equiv> localtime (time_ms div 1000)"
  shows "PrintData localtime time_ms 64 = Inr (hour_text t)"
    and "FilePrintTime localtime time_ms 64 = Inr (second_text t)"
    and "\<forall>c\<in>set (hour_text t). is_digit c \<or> c = CHR ''-''"
    and "\<forall>c\<in>set (second_text t). is_digit c \<or> c = CHR ''_''"
    and "length (hour_text t) \<le> 18"
proof -
  have ok: "calendar_ok t" using assms(1) by (simp add: t_def)
  then have year: "year_ok t" by (simp add: year_ok_def calendar_ok_def)
  have "percent_d (tm_year t + 1900) = to_string (nat (1900 + tm_year t))"
    using ok by (simp add: percent_d_def calendar_ok_def add.commute)
  moreover have "two_digits (tm_mon t + 1) = padded (1 + tm_mon t)" "two_digits (tm_mday t) = padded (tm_mday t)"
    "two_digits (tm_hour t) = padded (tm_hour t)" "two_digits (tm_min t) = padded (tm_min t)"
    "two_digits (tm_sec t) = padded (tm_sec t)"
    using ok by (simp_all add: two_digits_padded calendar_ok_def add.commute)
  ultimately have texts: "PrintData localtime time_ms 64 = strftime (hour_text t) 64"
    "FilePrintTime localtime time_ms 64 = strftime (second_text t) 64"
    by (simp_all add: PrintData_def FilePrintTime_def hour_text_def second_text_def Let_def flip: t_def)
  obtain day now where "PrintData localtime time_ms 64 = Inr day" "FilePrintTime localtime time_ms 64 = Inr now"
    "\<forall>c\<in>set day. is_digit c \<or> c = CHR ''-''" "\<forall>c\<in>set now. is_digit c \<or> c = CHR ''_''" "length day \<le> 18"
    by (rule time_texts [where localtime = localtime and time_ms = time_ms]) (use year in \<open>simp_all add: t_def\<close>)
  with texts show "PrintData localtime time_ms 64 = Inr (hour_text t)"
    "FilePrintTime localtime time_ms 64 = Inr (second_text t)"
    "\<forall>c\<in>set (hour_text t). is_digit c \<or> c = CHR ''-''"
    "\<forall>c\<in>set (second_text t). is_digit c \<or> c = CHR ''_''" "length (hour_text t) \<le> 18"
    by (auto simp: strftime_def split: if_splits)
qed

lemma GetTimestampMs_seconds:
  assumes "unat sec * 1000 + 1000 \<le> 2 ^ 63" "usec < 1000000"
  shows "GetTimestampMs sec usec div 1000 = sec"
proof -
  have "unat usec < 1000000" using assms(2) by (simp add: word_less_nat_alt)
  then have ms: "unat (usec div 1000) < 1000" by (simp add: unat_div less_mult_imp_div_less)
  have "unat (sec * 1000) = unat sec * 1000"
    using assms(1) by (subst unat_mult_lem [THEN iffD1]) simp_all
  with ms assms(1) have "unat (sec * 1000 + usec div 1000) = unat sec * 1000 + unat (usec div 1000)"
    by (subst unat_add_lem [THEN iffD1]) simp_all
  with ms show ?thesis by (simp add: GetTimestampMs_def word_unat_eq_iff unat_div)
qed

text \<open>C35: the dump file of a stream lies in the directory of the hour at which it is opened, whatever
  the stream identifier, slashes and path elements like \<open>..\<close> included. For a clock of \<open>sec\<close>
  seconds and \<open>usec\<close> microseconds (a time for which the milliseconds fit into 63 bits, and whose
  calendar fields are in range) the directory is \<open>/data/WebrtcDump/YYYY-MM-DD-HH/\<close> with the
  calendar time of exactly that second; \<open>CreateDirectory\<close> is called for it; and the one file
  that is opened has as its name, behind that directory, the time of that second, the stream
  identifier with its slashes replaced and cut at its first zero character, the worker's number
  and \<open>.264\<close>, the whole path cut to 254 characters. The directory's last element has neither
  slash nor dot and the name has no slash, so no part of the identifier leads out of the directory.\<close>

theorem dump_file_confined:
  assumes "length stream_id < npos"
    and "unat sec * 1000 + 1000 \<le> 2 ^ 63" "usec < 1000000" "calendar_ok (localtime sec)"
  shows "\<exists>r fs'. let day = hour_text (localtime sec);
        dir = ''/data/WebrtcDump/'' @ day @ ''/'';
        name = take (254 - length dir) (second_text (localtime sec) @ ''-'' @ stream_part stream_id
          @ ''-worker_'' @ percent_d file_id @ ''.264'')
      in CreateDirectory access mkdir dir fs = Inr (r, fs')
       \<and> WriteH264FileStart access mkdir fopen localtime (GetTimestampMs sec usec) stream_id file_id fs
           = Inr (fopen (dir @ name) fs')
       \<and> CHR ''/'' \<notin> set day \<and> CHR ''.'' \<notin> set day \<and> CHR ''/'' \<notin> set name"
proof -
  define t ms where "t = localtime sec" and "ms = GetTimestampMs sec usec"
  have sec: "ms div 1000 = sec" unfolding ms_def by (rule GetTimestampMs_seconds [OF assms(2,3)])
  note texts = calendar_texts [of localtime ms, unfolded sec, OF assms(4), folded t_def]
  have clean: "CHR ''/'' \<notin> set (second_text t)" "CHR 0x00 \<notin> set (second_text t)"
    "CHR ''/'' \<notin> set (hour_text t)" "CHR ''.'' \<notin> set (hour_text t)" "CHR 0x00 \<notin> set (hour_text t)"
    using texts(3,4) by (auto simp: is_digit_def)
  define dir where "dir = ''/data/WebrtcDump/'' @ hour_text t @ ''/''"
  have path: "dump_path (hour_text t) = dir"
    using texts(5) clean(5) by (simp add: dump_path_def snprintf255_def dir_def percent_s_id)
  have dir: "length dir \<le> MAX_PATH_LEN" "CHR 0x00 \<notin> set dir" "length dir \<le> 254"
    using texts(5) clean(5) by (simp_all add: dir_def MAX_PATH_LEN_def)
  obtain r fs' where made: "CreateDirectory access mkdir dir fs = Inr (r, fs')"
    using create_loop_total [OF dir(1,2) le0, of access mkdir fs] CreateDirectory_eq [OF dir(1)] by (metis surj_pair)
  define name where "name = take (254 - length dir) (file_part (second_text t) stream_id file_id)"
  have "CHR ''/'' \<notin> set name"
    using file_part_no_slash [OF clean(1)] by (auto simp: name_def dest: in_set_takeD)
  moreover have "WriteH264FileStart access mkdir fopen localtime ms stream_id file_id fs = Inr (fopen (dir @ name) fs')"
    using made texts(1,2) video_name_eq [OF assms(1) clean(2) dir(2,3)]
    by (simp add: WriteH264FileStart_def path Let_def name_def)
  ultimately show ?thesis
    using made clean(3,4) unfolding Let_def t_def [symmetric] ms_def [symmetric] dir_def [symmetric]
      file_part_def [symmetric] name_def [symmetric] by blast
qed

definition new_year :: calendar where
  "new_year = \<lparr>tm_year = 120, tm_mon = 0, tm_mday = 1, tm_hour = 0, tm_min = 0, tm_sec = 0\<rparr>"

theorem dump_file_confined_witness:
  "\<exists>r fs'. CreateDirectory (\<lambda>fs d. d \<in> fs) (\<lambda>d fs. (0, insert d fs)) ''/data/WebrtcDump/2020-01-01-00/'' {} = Inr (r, fs')
     \<and> WriteH264FileStart (\<lambda>fs d. d \<in> fs) (\<lambda>d fs. (0, insert d fs)) (\<lambda>f fs. (Some 3, insert f fs))
          (\<lambda>_. new_year) (GetTimestampMs 1577836800 250000) ''../../etc'' 1 {}
        = Inr (Some 3, insert ''/data/WebrtcDump/2020-01-01-00/2020_01_01_00_00_00-.._.._etc-worker_1.264'' fs')"
proof -
  have shown: "hour_text new_year = ''2020-01-01-00''" "second_text new_year = ''2020_01_01_00_00_00''"
      "percent_d 1 = ''1''"
    by (simp_all add: hour_text_def second_text_def padded_def new_year_def to_string.simps digit_char_def char_of_def bit_Suc_0_iff
        percent_d_def)
  have "calendar_ok new_year" by (simp add: calendar_ok_def new_year_def)
  then show ?thesis
    using dump_file_confined [where stream_id = "''../../etc''" and sec = 1577836800 and usec = 250000
        and localtime = "\<lambda>_. new_year" and file_id = 1 and fs = "{}"
        and access = "\<lambda>fs d. d \<in> fs" and mkdir = "\<lambda>d fs. (0, insert d fs)"
        and fopen = "\<lambda>f fs. (Some 3, insert f fs)"]
    by (simp add: shown stream_part_def npos_def)
qed

end
