(* ===== verification/Rtc_Peer.thy ===== *)
theory Rtc_Peer
  imports Std_Map Dump_File
begin

text \<open>
  The classes \<open>MediaFrame\<close> and \<open>RtcPeer\<close> of \<open>src/rtc_peer.hpp\<close> and \<open>src/rtc_peer.cpp\<close>, with the parts of
  \<open>RtcPublisher\<close> and \<open>RtcPlayer\<close> that need no stream. The WebRTC core is not part of the
  repository: of its enumerations the values that the source names are constructors, of its
  structures the fields that the source reads are modelled, and a call of it is an \<open>effect\<close> in the
  order of the calls. A \<open>PeerConnectionInterface\<close> pointer is a handle, \<open>None\<close> the null pointer.
\<close>

section \<open>Data\<close>

datatype MediaType = kMediaVideo | kMediaAudio | Other_Media nat

datatype PeerConnectionState = kNew | kConnected | kDisconnected | kFailed | kClosed
  | Other_State nat

datatype IceConnectionState = kIceConnectionFailed | kIceConnectionClosed | Other_Ice nat

datatype codec = kVideoCodeH264 | kAudioCodecOpus | Other_Codec nat

record codec_info =
  payload_type :: u32
  codec_type :: codec

type_synonym codec_map = "(u32, codec_info) std_map"

datatype addr_kind = kAddrIpv4 | Other_Addr nat

record net_addr =
  addr_type :: addr_kind
  ip :: string
  port :: bytes

text \<open>A packet owns its buffer, which its destructor frees.\<close>

record my_packet =
  packet_data :: "bytes option"
  packet_len :: int

definition MyPacket :: "bytes \<Rightarrow> int \<Rightarrow> my_packet" where
  "MyPacket data len = \<lparr>packet_data = Some data, packet_len = len\<rparr>"

text \<open>A media unit; \<open>data = None\<close> is the pointer as the base class leaves it.\<close>

record media =
  media_type :: MediaType
  media_data :: "bytes option"
  media_len :: int
  timestamp :: u64
  media_ssrc :: u32
  media_payload_type :: u32
  rotate_angle :: nat
  audio_frame_len :: u32

definition MediaFrame ::
  "MediaType \<Rightarrow> bytes option \<Rightarrow> int \<Rightarrow> u64 \<Rightarrow> u32 \<Rightarrow> u32 \<Rightarrow> nat \<Rightarrow> u32 \<Rightarrow> media res" where
  "MediaFrame mt data len ts ssrc pt angle afl =
     bindR (if 0 < len then
              (case data of None \<Rightarrow> Inl Null_Deref
               | Some d \<Rightarrow> bindR (rd_block d 0 (nat len)) (\<lambda>copy. Inr (Some copy)))
            else Inr None)
       (\<lambda>d. Inr \<lparr>media_type = mt, media_data = d, media_len = len, timestamp = ts, media_ssrc = ssrc,
                 media_payload_type = pt, rotate_angle = angle, audio_frame_len = afl\<rparr>)"

datatype pc_setting = LogLevel_Warning | IceTimeOutMs nat | VideoMaxNackQueLen nat
  | AudioMaxNackQueLen nat | MaxNackWaitTime nat | MaxNackTimes nat
  | AudioExtMap nat string | VideoExtMap nat string
  | AudioRtpMap string nat nat nat "string list" "(string, string) std_map"
  | VideoRtpMap string nat nat nat "string list" "(string, string) std_map"
  | SDESFlag bool | AVPFFlag bool | DumpMask nat | BitrateEtimatorFlag bool

text \<open>Calls that leave the program: into the WebRTC core, the file system, the sockets and the HTTP
  library.\<close>

datatype effect = CreatePeerConnection_Call nat string "pc_setting list"
  | AddLocalVideoTrack_Call nat u32 string
  | AddLocalAudioTrack_Call nat u32 string
  | SetRemoteDescription_Call nat string
  | CreateAnswer_Call nat string nat
  | ProcessRemoteData nat my_packet net_addr
  | FeedMediaData_Call nat media
  | RequestIFrame_Call nat u32
  | OnTime_Call nat u64
  | Delete_PC nat
  | File_Closed dump_file
  | SendTo bytes int bytes bytes
  | Http_Error nat
  | Http_Status nat
  | Http_Write int string string

datatype peer_class = Peer | Publisher | Player

record peer =
  peer_class :: peer_class
  udp_fd :: int
  is_ice_break :: bool
  is_peer_break :: bool
  peer_connection :: "nat option"
  fp_h264 :: "dump_file option"
  dump_h264_frame_num :: int
  worker_id :: int
  local_video_codec_info_map :: codec_map
  local_audio_codec_info_map :: codec_map
  remote_video_codec_info_map :: codec_map
  remote_audio_codec_info_map :: codec_map
  remote_video_ssrc :: u32
  remote_audio_ssrc :: u32
  local_video_ssrc :: u32
  local_audio_ssrc :: u32
  local_video_payloadtype :: u32
  local_audio_payloadtype :: u32
  peerconnection_state :: PeerConnectionState
  sender_set :: bool
  ufrag :: string
  remote_addr :: "net_addr option"
  peer_scache :: "nat option"

text \<open>
  The constructor leaves \<open>sender\<close> uninitialised (\<open>sender_set = False\<close>); \<open>remote_addr\<close> is then the
  address that the default constructor of \<open>NetAddr\<close> builds, here \<open>None\<close>.
\<close>

definition RtcPeer :: "peer_class \<Rightarrow> peer" where
  "RtcPeer cls =
     \<lparr>peer_class = cls, udp_fd = -1, is_ice_break = False, is_peer_break = False,
      peer_connection = None, fp_h264 = None, dump_h264_frame_num = 0, worker_id = 0,
      local_video_codec_info_map = [], local_audio_codec_info_map = [],
      remote_video_codec_info_map = [], remote_audio_codec_info_map = [],
      remote_video_ssrc = 0, remote_audio_ssrc = 0, local_video_ssrc = 0, local_audio_ssrc = 0,
      local_video_payloadtype = 0, local_audio_payloadtype = 0, peerconnection_state = kNew,
      sender_set = False, ufrag = '''', remote_addr = None, peer_scache = None\<rparr>"

section \<open>Connection state\<close>

text \<open>Empty in the source.\<close>

definition StartEncode :: "peer \<Rightarrow> peer" where [simp]: "StartEncode p = p"
definition PreToDoPlay :: "peer \<Rightarrow> peer" where [simp]: "PreToDoPlay p = p"

definition OnConnectionChange :: "PeerConnectionState \<Rightarrow> peer \<Rightarrow> peer" where
  "OnConnectionChange new_state p =
     (let p = p\<lparr>peerconnection_state := new_state\<rparr>;
          p = (if new_state = kConnected then StartEncode p else p)
      in if new_state = kDisconnected \<or> new_state = kFailed \<or> new_state = kClosed
         then p\<lparr>is_peer_break := True\<rparr> else p)"

definition OnIceConnectionChange :: "IceConnectionState \<Rightarrow> peer \<Rightarrow> peer" where
  "OnIceConnectionChange new_state p =
     (if new_state = kIceConnectionFailed \<or> new_state = kIceConnectionClosed
      then p\<lparr>is_ice_break := True\<rparr> else p)"

definition IsPeerTimeOut :: "peer \<Rightarrow> bool" where
  "IsPeerTimeOut p = (if is_ice_break p \<or> is_peer_break p then True else False)"

section \<open>Tracks\<close>

text \<open>The loop over the codecs of a track, in key order, with the payload type chosen so far.\<close>

fun choose_payload :: "codec \<Rightarrow> codec_map \<Rightarrow> u32 \<Rightarrow> u32" where
  "choose_payload c [] pt = pt"
| "choose_payload c ((key, info) # m) pt =
     choose_payload c m (if pt = 0 \<and> codec_type info = c then payload_type info else pt)"

definition OnAddLocalVideoTrack :: "u32 \<Rightarrow> codec_map \<Rightarrow> peer \<Rightarrow> peer" where
  "OnAddLocalVideoTrack ssrc m p =
     p\<lparr>local_video_payloadtype := choose_payload kVideoCodeH264 m (local_video_payloadtype p),
       local_video_codec_info_map := m, local_video_ssrc := ssrc\<rparr>"

definition OnAddLocalAudioTrack :: "u32 \<Rightarrow> codec_map \<Rightarrow> peer \<Rightarrow> peer" where
  "OnAddLocalAudioTrack ssrc m p =
     p\<lparr>local_audio_payloadtype := choose_payload kAudioCodecOpus m (local_audio_payloadtype p),
       local_audio_codec_info_map := m, local_audio_ssrc := ssrc\<rparr>"

definition OnAddAudioTrack :: "u32 \<Rightarrow> codec_map \<Rightarrow> peer \<Rightarrow> peer" where
  "OnAddAudioTrack ssrc m p = PreToDoPlay (p\<lparr>remote_audio_codec_info_map := m, remote_audio_ssrc := ssrc\<rparr>)"

definition OnAddVideoTrack :: "u32 \<Rightarrow> codec_map \<Rightarrow> peer \<Rightarrow> peer" where
  "OnAddVideoTrack ssrc m p = PreToDoPlay (p\<lparr>remote_video_codec_info_map := m, remote_video_ssrc := ssrc\<rparr>)"

text \<open>Callbacks that the source leaves empty: tracks that end, data channels, packets before they are
  media, and the dump, whose body is commented out.\<close>

definition OnRemoveAudioTrack :: "u32 \<Rightarrow> peer \<Rightarrow> peer" where "OnRemoveAudioTrack ssrc p = p"
definition OnRemoveVideoTrack :: "u32 \<Rightarrow> peer \<Rightarrow> peer" where "OnRemoveVideoTrack ssrc p = p"
definition OnRecvChannelData :: "my_packet option \<Rightarrow> peer \<Rightarrow> peer" where "OnRecvChannelData data p = p"
definition OnDeliverRtpPacket :: "MediaType \<Rightarrow> bytes \<Rightarrow> peer \<Rightarrow> peer" where
  "OnDeliverRtpPacket mt pkt p = p"
definition OnSendDumpData :: "bytes \<Rightarrow> int \<Rightarrow> peer \<Rightarrow> peer" where "OnSendDumpData dump_data len p = p"

lemmas track_defs = OnAddLocalVideoTrack_def OnAddLocalAudioTrack_def OnAddVideoTrack_def OnAddAudioTrack_def
  OnRemoveAudioTrack_def OnRemoveVideoTrack_def OnRecvChannelData_def OnDeliverRtpPacket_def OnSendDumpData_def

section \<open>Media and packets\<close>

text \<open>\<open>RtcPeer::OnRecvMediaData\<close>, which dumps video; \<open>ok\<close> is the outcome of \<open>fwrite\<close>, whose result is
  ignored. The length is converted to \<open>uint32_t\<close>.\<close>

definition OnRecvMediaData :: "fwrite \<Rightarrow> media \<Rightarrow> peer \<Rightarrow> (peer \<times> effect list) res" where
  "OnRecvMediaData ok m p =
     (if media_type m = kMediaVideo then
        (case fp_h264 p of
           None \<Rightarrow> Inr (p, [])
         | Some f \<Rightarrow>
             bindR (WriteFile ok (media_data m) (unat (word_of_int (media_len m) :: u32)) (Some f)) (\<lambda>(_, fp).
             let n = dump_h264_frame_num p;
                 p = p\<lparr>fp_h264 := fp, dump_h264_frame_num := n + 1\<rparr>
             in if 1200 \<le> n
                then bindR (WriteH264FileStop fp) (\<lambda>fp.
                  Inr (p\<lparr>fp_h264 := None\<rparr>, case fp of None \<Rightarrow> [] | Some f \<Rightarrow> [File_Closed f]))
                else Inr (p, [])))
      else Inr (p, []))"

definition GetPC :: "peer \<Rightarrow> nat option" where [simp]: "GetPC p = peer_connection p"

definition SetPC :: "nat \<Rightarrow> peer \<Rightarrow> peer" where
  "SetPC pc p = p\<lparr>peer_connection := Some pc\<rparr>"

definition SetUdpFd :: "int \<Rightarrow> peer \<Rightarrow> peer" where
  "SetUdpFd fd p = p\<lparr>udp_fd := fd\<rparr>"

definition SetDumpFile :: "dump_file option \<Rightarrow> peer \<Rightarrow> peer" where
  "SetDumpFile f p = p\<lparr>fp_h264 := f\<rparr>"

definition SetWorkerId :: "int \<Rightarrow> peer \<Rightarrow> peer" where
  "SetWorkerId i p = p\<lparr>worker_id := i\<rparr>"

text \<open>The packet owns the buffer from here on; without a peer connection it is freed at once.\<close>

definition UdpSocketRecv :: "bytes \<Rightarrow> int \<Rightarrow> net_addr \<Rightarrow> peer \<Rightarrow> effect list" where
  "UdpSocketRecv data len addr p =
     (let recv_pkg = MyPacket data len
      in case peer_connection p of None \<Rightarrow> [] | Some pc \<Rightarrow> [ProcessRemoteData pc recv_pkg addr])"

text \<open>
  \<open>inet_pton\<close> is a parameter: \<open>None\<close> when the text is not an address, and the address is then left
  uninitialised. The address that \<open>UdpSocketSend\<close> computes from its argument is not used: the packet
  goes to the peer's \<open>remote_addr\<close>. The result is what the sender is called with: the data, its
  length, and the port and address to send to.
\<close>

definition SendPktToClient ::
  "(string \<Rightarrow> bytes option) \<Rightarrow> bytes \<Rightarrow> int \<Rightarrow> peer \<Rightarrow> (bytes \<times> int \<times> bytes \<times> bytes) res" where
  "SendPktToClient inet_pton data len p =
     (case remote_addr p of
        None \<Rightarrow> Inl Uninitialised
      | Some a \<Rightarrow>
          (case inet_pton (ip a) of
             None \<Rightarrow> Inl Uninitialised
           | Some host \<Rightarrow> if \<not> sender_set p then Inl Uninitialised
                          else Inr (data, len, port a, host)))"

definition UdpSocketSend ::
  "(string \<Rightarrow> bytes option) \<Rightarrow> bytes \<Rightarrow> int \<Rightarrow> net_addr \<Rightarrow> peer \<Rightarrow> (bytes \<times> int \<times> bytes \<times> bytes) res" where
  "UdpSocketSend inet_pton data len addr p = SendPktToClient inet_pton data len p"

definition OnSendDataToRemote ::
  "(string \<Rightarrow> bytes option) \<Rightarrow> bytes \<Rightarrow> int \<Rightarrow> net_addr \<Rightarrow> peer \<Rightarrow> (bytes \<times> int \<times> bytes \<times> bytes) res" where
  "OnSendDataToRemote inet_pton data len addr p = UdpSocketSend inet_pton data len addr p"

definition OnTimer :: "u64 \<Rightarrow> peer \<Rightarrow> effect list" where
  "OnTimer now p = (case peer_connection p of None \<Rightarrow> [] | Some pc \<Rightarrow> [OnTime_Call pc now])"

definition RtcPeer_destroy :: "peer \<Rightarrow> effect list res" where
  "RtcPeer_destroy p =
     bindR (WriteH264FileStop (fp_h264 p)) (\<lambda>fp.
       Inr ((case peer_connection p of None \<Rightarrow> [] | Some pc \<Rightarrow> [Delete_PC pc])
            @ (case fp of None \<Rightarrow> [] | Some f \<Rightarrow> [File_Closed f])))"

text \<open>\<open>RtcPublisher::RequestIFrame\<close> and \<open>RtcPlayer::FeedMediaData\<close>.\<close>

definition RequestIFrame :: "peer \<Rightarrow> effect list res" where
  "RequestIFrame p =
     (case peer_connection p of
        None \<Rightarrow> Inl Null_Deref | Some pc \<Rightarrow> Inr [RequestIFrame_Call pc (remote_video_ssrc p)])"

definition FeedMediaData :: "media \<Rightarrow> peer \<Rightarrow> effect list res" where
  "FeedMediaData m p =
     (case peer_connection p of None \<Rightarrow> Inl Null_Deref | Some pc \<Rightarrow> Inr [FeedMediaData_Call pc m])"

section \<open>Properties\<close>

text \<open>The events of a connection, as the base class handles them.\<close>

datatype connection_event = Conn PeerConnectionState | Ice IceConnectionState

fun handle_event :: "connection_event \<Rightarrow> peer \<Rightarrow> peer" where
  "handle_event (Conn s) p = OnConnectionChange s p"
| "handle_event (Ice s) p = OnIceConnectionChange s p"

fun breaks :: "connection_event \<Rightarrow> bool" where
  "breaks (Conn s) \<longleftrightarrow> s \<in> {kDisconnected, kFailed, kClosed}"
| "breaks (Ice s) \<longleftrightarrow> s \<in> {kIceConnectionFailed, kIceConnectionClosed}"

lemma IsPeerTimeOut_handle:
  "IsPeerTimeOut (handle_event e p) \<longleftrightarrow> IsPeerTimeOut p \<or> breaks e"
  by (cases e) (auto simp: IsPeerTimeOut_def OnConnectionChange_def OnIceConnectionChange_def Let_def)

lemma IsPeerTimeOut_run:
  "IsPeerTimeOut (fold handle_event es p) \<longleftrightarrow> IsPeerTimeOut p \<or> (\<exists>e\<in>set es. breaks e)"
  by (induction es arbitrary: p) (auto simp: IsPeerTimeOut_handle)

text \<open>A peer counts as timed out exactly when one of its connection events was a failure, a
  disconnection or a close, of the connection or of ICE; later events do not undo it.\<close>

theorem timeout_iff_broken:
  "IsPeerTimeOut (fold handle_event es (RtcPeer cls)) = list_ex breaks es"
  by (simp add: IsPeerTimeOut_run list_ex_iff) (simp add: IsPeerTimeOut_def RtcPeer_def)

lemma choose_payload_set: "pt \<noteq> 0 \<Longrightarrow> choose_payload c m pt = pt"
  by (induction c m pt rule: choose_payload.induct) auto

text \<open>Among the codecs of a local video track the first H264 entry in key order gives the payload
  type, provided the entries have payload types, and a payload type once chosen stays.\<close>

theorem local_payload_is_first:
  assumes "\<forall>(key, info)\<in>set m. payload_type info \<noteq> 0"
  shows "local_video_payloadtype (OnAddLocalVideoTrack ssrc m p) =
     (if local_video_payloadtype p \<noteq> 0 then local_video_payloadtype p
      else case find (\<lambda>(key, info). codec_type info = kVideoCodeH264) m of
             None \<Rightarrow> 0 | Some (key, info) \<Rightarrow> payload_type info)"
proof -
  have "choose_payload kVideoCodeH264 m 0 =
      (case find (\<lambda>(key, info). codec_type info = kVideoCodeH264) m of
         None \<Rightarrow> 0 | Some (key, info) \<Rightarrow> payload_type info)"
    using assms by (induction m) (auto simp: choose_payload_set)
  then show ?thesis by (simp add: OnAddLocalVideoTrack_def choose_payload_set)
qed

theorem local_payload_is_first_witness:
  "local_video_payloadtype (OnAddLocalVideoTrack 9
     [(96, \<lparr>payload_type = 96, codec_type = Other_Codec 1\<rparr>),
      (102, \<lparr>payload_type = 102, codec_type = kVideoCodeH264\<rparr>),
      (125, \<lparr>payload_type = 125, codec_type = kVideoCodeH264\<rparr>)] (RtcPeer Player)) = 102"
  by (subst local_payload_is_first) (simp_all add: RtcPeer_def)

section \<open>The dump of received video\<close>

text \<open>
  What can happen to a peer whose class does not override the media callback, between the opening
  of its dump file and its destruction: the callbacks of the core as the base class handles them,
  a packet from the socket and a timer tick, in any order. A received media unit comes with the
  outcome of the \<open>fwrite\<close> that it may lead to. (\<open>OnSendDataToRemote\<close> and \<open>OnRequestIFrame\<close> leave the
  object as it is.)
\<close>

datatype callback = Received fwrite media
  | Changed connection_event
  | Local_Video u32 codec_map | Local_Audio u32 codec_map
  | Remote_Video u32 codec_map | Remote_Audio u32 codec_map
  | Video_Removed u32 | Audio_Removed u32
  | Channel "my_packet option" | Rtp MediaType bytes | Decrypted bytes int
  | Socket bytes int net_addr | Tick u64

fun handle_callback :: "callback \<Rightarrow> peer \<Rightarrow> (peer \<times> effect list) res" where
  "handle_callback (Received ok m) p = OnRecvMediaData ok m p"
| "handle_callback (Changed e) p = Inr (handle_event e p, [])"
| "handle_callback (Local_Video ssrc m) p = Inr (OnAddLocalVideoTrack ssrc m p, [])"
| "handle_callback (Local_Audio ssrc m) p = Inr (OnAddLocalAudioTrack ssrc m p, [])"
| "handle_callback (Remote_Video ssrc m) p = Inr (OnAddVideoTrack ssrc m p, [])"
| "handle_callback (Remote_Audio ssrc m) p = Inr (OnAddAudioTrack ssrc m p, [])"
| "handle_callback (Video_Removed ssrc) p = Inr (OnRemoveVideoTrack ssrc p, [])"
| "handle_callback (Audio_Removed ssrc) p = Inr (OnRemoveAudioTrack ssrc p, [])"
| "handle_callback (Channel data) p = Inr (OnRecvChannelData data p, [])"
| "handle_callback (Rtp mt pkt) p = Inr (OnDeliverRtpPacket mt pkt p, [])"
| "handle_callback (Decrypted data n) p = Inr (OnSendDumpData data n p, [])"
| "handle_callback (Socket data n addr) p = Inr (p, UdpSocketRecv data n addr p)"
| "handle_callback (Tick now) p = Inr (p, OnTimer now p)"

fun run_callbacks :: "callback list \<Rightarrow> peer \<Rightarrow> (peer \<times> effect list) res" where
  "run_callbacks [] p = Inr (p, [])"
| "run_callbacks (c # cs) p =
     bindR (handle_callback c p) (\<lambda>(p, es).
     bindR (run_callbacks cs p) (\<lambda>(p, es'). Inr (p, es @ es')))"

text \<open>The video units among the callbacks, with the outcomes of their writes; what each of them
  should leave in the file; and that its buffer is as long as its length says.\<close>

fun video_of :: "callback \<Rightarrow> (fwrite \<times> media) list" where
  "video_of (Received ok m) = (if media_type m = kMediaVideo then [(ok, m)] else [])"
| "video_of _ = []"

definition videos :: "callback list \<Rightarrow> (fwrite \<times> media) list" where
  "videos cs = concat (map video_of cs)"

definition dumped_len :: "media \<Rightarrow> nat" where
  "dumped_len m = nat (media_len m mod 2 ^ 32)"

definition dumped :: "fwrite \<times> media \<Rightarrow> bytes" where
  "dumped w =
     (case (w, media_data (snd w)) of
        (_, None) \<Rightarrow> []
      | ((Written, m), Some d) \<Rightarrow> take (dumped_len m) d
      | ((Short k, m), Some d) \<Rightarrow> take (min k (dumped_len m)) d)"

definition buffer_ok :: "media \<Rightarrow> bool" where
  "buffer_ok m \<longleftrightarrow> (case media_data m of None \<Rightarrow> True | Some d \<Rightarrow> dumped_len m \<le> length d)"

fun closings :: "effect list \<Rightarrow> dump_file list" where
  "closings [] = []"
| "closings (File_Closed f # es) = f # closings es"
| "closings (_ # es) = closings es"

lemma closings_append [simp]: "closings (es @ es') = closings es @ closings es'"
  by (induction es rule: closings.induct) simp_all

lemma handle_callback_quiet:
  assumes "video_of c = []"
  obtains p1 es where "handle_callback c p = Inr (p1, es)" "closings es = []"
    "fp_h264 p1 = fp_h264 p" "dump_h264_frame_num p1 = dump_h264_frame_num p"
proof (cases c)
  case (Received ok m)
  with assms have "handle_callback c p = Inr (p, [])"
    by (auto simp: OnRecvMediaData_def split: if_splits)
  then show thesis using that by simp
next
  case (Changed e)
  then show thesis
    by (cases e) (auto intro!: that simp: OnConnectionChange_def OnIceConnectionChange_def Let_def)
qed (auto intro!: that simp: track_defs UdpSocketRecv_def OnTimer_def split: option.splits)

lemma OnRecvMediaData_dump:
  assumes "media_type m = kMediaVideo" "buffer_ok m" "fp_h264 p = Some \<lparr>content = c, opened = True\<rparr>"
  shows "OnRecvMediaData ok m p =
    Inr (if 1200 \<le> dump_h264_frame_num p
         then (p\<lparr>dump_h264_frame_num := dump_h264_frame_num p + 1, fp_h264 := None\<rparr>,
               [File_Closed \<lparr>content = c @ dumped (ok, m), opened = False\<rparr>])
         else (p\<lparr>dump_h264_frame_num := dump_h264_frame_num p + 1,
                 fp_h264 := Some \<lparr>content = c @ dumped (ok, m), opened = True\<rparr>\<rparr>, []))"
proof -
  have len: "unat (word_of_int (media_len m) :: u32) = dumped_len m"
    by (simp add: dumped_len_def unsigned_of_int take_bit_eq_mod)
  have "\<exists>r. WriteFile ok (media_data m) (dumped_len m) (Some \<lparr>content = c, opened = True\<rparr>)
      = Inr (r, Some \<lparr>content = c @ dumped (ok, m), opened = True\<rparr>)"
    using assms(2) by (cases ok; cases "media_data m")
      (auto simp: WriteFile_def buffer_ok_def dumped_def rd_block_def min.commute)
  then show ?thesis
    using assms(1,3) by (auto simp: OnRecvMediaData_def len WriteH264FileStop_def Let_def)
qed

lemma run_callbacks_closed:
  "fp_h264 p = None \<Longrightarrow> \<exists>p' es. run_callbacks cs p = Inr (p', es) \<and> fp_h264 p' = None \<and> closings es = []"
proof (induction cs arbitrary: p)
  case (Cons c cs)
  have "\<exists>p1 es1. handle_callback c p = Inr (p1, es1) \<and> closings es1 = [] \<and> fp_h264 p1 = None"
  proof (cases "video_of c = []")
    case True
    then show ?thesis using Cons.prems by (metis handle_callback_quiet)
  next
    case False
    then show ?thesis using Cons.prems by (cases c) (auto simp: OnRecvMediaData_def)
  qed
  then obtain p1 es1 where "handle_callback c p = Inr (p1, es1)" "closings es1 = []" "fp_h264 p1 = None"
    by blast
  moreover obtain p' es where "run_callbacks cs p1 = Inr (p', es)" "fp_h264 p' = None" "closings es = []"
    using Cons.IH [OF calculation(3)] by blast
  ultimately show ?case by simp
qed simp

lemma run_callbacks_dump:
  assumes "\<forall>w\<in>set (videos cs). buffer_ok (snd w)" "fp_h264 p = Some \<lparr>content = c, opened = True\<rparr>"
    and "dump_h264_frame_num p = int k" "k \<le> 1200"
  shows "\<exists>p' es. run_callbacks cs p = Inr (p', es) \<and>
    (if k + length (videos cs) \<le> 1200
     then fp_h264 p' = Some \<lparr>content = c @ concat (map dumped (videos cs)), opened = True\<rparr> \<and> closings es = []
     else fp_h264 p' = None \<and> closings es =
       [\<lparr>content = c @ concat (map dumped (take (1201 - k) (videos cs))), opened = False\<rparr>])"
  using assms
proof (induction cs arbitrary: p c k)
  case Nil
  then show ?case by (simp add: videos_def)
next
  case (Cons cb cs)
  show ?case
  proof (cases "video_of cb = []")
    case True
    then obtain p1 es where p1: "handle_callback cb p = Inr (p1, es)" "closings es = []"
      "fp_h264 p1 = fp_h264 p" "dump_h264_frame_num p1 = dump_h264_frame_num p"
      by (rule handle_callback_quiet)
    have "videos (cb # cs) = videos cs" using True by (simp add: videos_def)
    with Cons.IH [of p1 c k] Cons.prems p1 show ?thesis by fastforce
  next
    case False
    then obtain ok m where cb: "cb = Received ok m" and m: "media_type m = kMediaVideo"
      by (cases cb) (auto split: if_splits)
    have vs: "videos (cb # cs) = (ok, m) # videos cs" using cb m by (simp add: videos_def)
    with Cons.prems(1) have "buffer_ok m" by simp
    note step = OnRecvMediaData_dump [OF m this Cons.prems(2), of ok]
    show ?thesis
    proof (cases "k = 1200")
      case True
      define p1 where "p1 = p\<lparr>dump_h264_frame_num := dump_h264_frame_num p + 1, fp_h264 := None\<rparr>"
      have "fp_h264 p1 = None" by (simp add: p1_def)
      from run_callbacks_closed [OF this, of cs] obtain p' es
        where "run_callbacks cs p1 = Inr (p', es)" "fp_h264 p' = None" "closings es = []" by blast
      then show ?thesis using step Cons.prems(3) True by (simp add: cb vs [unfolded cb] p1_def)
    next
      case False
      define p1 where "p1 = p\<lparr>dump_h264_frame_num := dump_h264_frame_num p + 1,
          fp_h264 := Some \<lparr>content = c @ dumped (ok, m), opened = True\<rparr>\<rparr>"
      have "OnRecvMediaData ok m p = Inr (p1, [])"
        using step Cons.prems False by (simp add: p1_def)
      moreover have "\<exists>p' es. run_callbacks cs p1 = Inr (p', es) \<and>
        (if Suc k + length (videos cs) \<le> 1200
         then fp_h264 p' = Some \<lparr>content = (c @ dumped (ok, m)) @ concat (map dumped (videos cs)), opened = True\<rparr>
           \<and> closings es = []
         else fp_h264 p' = None \<and> closings es =
           [\<lparr>content = (c @ dumped (ok, m)) @ concat (map dumped (take (1201 - Suc k) (videos cs))), opened = False\<rparr>])"
        by (rule Cons.IH) (use Cons.prems False vs in \<open>simp_all add: p1_def\<close>)
      moreover have "1201 - k = Suc (1200 - k)" using Cons.prems by simp
      ultimately show ?thesis by (auto simp: cb vs [unfolded cb] split: if_splits)
    qed
  qed
qed

text \<open>C33: for a peer whose class does not override the media callback, and which starts with an open,
  empty dump file, over every sequence of callbacks (audio and other media, connection events,
  tracks, packets and timer ticks in between) and for every outcome of each write, including
  writes that fail after some bytes: the run does not fault; the file holds, in the order of
  arrival, what was written of the video units and of nothing else (audio is never written, a
  unit without data or of length 0 adds nothing); it is closed once, with the 1201st video unit,
  one more than the bound in the source suggests, and nothing is written after that. The count
  that decides it is of video units received while the file is open: a unit whose write fails or
  that has no data counts too. Every video unit is assumed to have a buffer of the length it gives.\<close>

theorem dump_bounded:
  assumes "\<forall>w\<in>set (videos cs). buffer_ok (snd w)"
    and "fp_h264 p = Some \<lparr>content = [], opened = True\<rparr>" "dump_h264_frame_num p = 0"
  shows "\<exists>p' es. run_callbacks cs p = Inr (p', es) \<and>
    (if length (videos cs) \<le> 1200
     then fp_h264 p' = Some \<lparr>content = concat (map dumped (videos cs)), opened = True\<rparr> \<and> closings es = []
     else fp_h264 p' = None
        \<and> closings es = [\<lparr>content = concat (map dumped (take 1201 (videos cs))), opened = False\<rparr>])"
  using run_callbacks_dump [OF assms(1,2), of 0] assms(3) by (simp only: append.simps add_0 diff_zero of_nat_0 zero_le simp_thms)

text \<open>A video unit written whole, an audio unit, a connection event, a video unit whose write fails
  after one byte, a timer tick, and a third video unit.\<close>

definition demo_unit :: "MediaType \<Rightarrow> bytes \<Rightarrow> media" where
  "demo_unit mt d = \<lparr>media_type = mt, media_data = Some d, media_len = int (length d), timestamp = 0,
     media_ssrc = 0, media_payload_type = 0, rotate_angle = 0, audio_frame_len = 0\<rparr>"

theorem dump_bounded_witness:
  "\<exists>p' es. run_callbacks
      [Received Written (demo_unit kMediaVideo [7, 8]), Received Written (demo_unit kMediaAudio [9]),
       Changed (Conn kConnected), Received (Short 1) (demo_unit kMediaVideo [5, 6]), Tick 100,
       Received Written (demo_unit kMediaVideo [4])]
      (SetDumpFile (Some \<lparr>content = [], opened = True\<rparr>) (RtcPeer Peer)) = Inr (p', es)
    \<and> fp_h264 p' = Some \<lparr>content = [7, 8, 5, 4], opened = True\<rparr> \<and> closings es = []"
proof -
  let ?cs = "[Received Written (demo_unit kMediaVideo [7, 8]), Received Written (demo_unit kMediaAudio [9]),
       Changed (Conn kConnected), Received (Short 1) (demo_unit kMediaVideo [5, 6]), Tick 100,
       Received Written (demo_unit kMediaVideo [4])]"
  let ?p = "SetDumpFile (Some \<lparr>content = [], opened = True\<rparr>) (RtcPeer Peer)"
  have v: "videos ?cs = [(Written, demo_unit kMediaVideo [7, 8]), (Short 1, demo_unit kMediaVideo [5, 6]),
      (Written, demo_unit kMediaVideo [4])]"
    by (simp add: videos_def demo_unit_def)
  have "\<forall>w\<in>set (videos ?cs). buffer_ok (snd w)"
    by (simp only: v) (simp add: buffer_ok_def demo_unit_def dumped_len_def)
  moreover have "fp_h264 ?p = Some \<lparr>content = [], opened = True\<rparr>" "dump_h264_frame_num ?p = 0"
    by (simp_all add: SetDumpFile_def RtcPeer_def)
  ultimately show ?thesis
    using dump_bounded [of ?cs ?p] unfolding v
    by (simp add: dumped_def demo_unit_def dumped_len_def del: run_callbacks.simps)
qed

end
