(* ===== verification/Stream_Cache.thy ===== *)
theory Stream_Cache
  imports Rtc_Peer
begin

text \<open>
  The class \<open>StreamCache_\<close> of \<open>src/scache.hpp\<close> and \<open>src/scache.cpp\<close>, and \<open>RtcPublisher\<close> and
  \<open>RtcPlayer\<close> of \<open>src/rtc_publisher.cpp\<close> and \<open>src/rtc_player.cpp\<close>. Peers and streams point to each
  other with \<open>shared_ptr\<close>s, so both live in a heap: an object is named by its index in the list of
  all objects ever made. A stream and its publisher and players keep each other alive, and the
  server keeps its registered peers for good. Only a publisher that is replaced and that nobody else holds
  is destroyed (\<open>release_peer\<close> in \<open>Signalling\<close>).
\<close>

section \<open>The heap\<close>

record scache =
  CanPublish :: bool
  publisher :: "nat option"
  players :: "nat list"

record heap =
  peers :: "peer list"
  scaches :: "scache list"
  effects :: "effect list"

definition get_peer :: "'a heap_scheme \<Rightarrow> nat \<Rightarrow> peer res" where
  "get_peer h i = rd (peers h) i"

definition set_peer :: "nat \<Rightarrow> peer \<Rightarrow> 'a heap_scheme \<Rightarrow> 'a heap_scheme" where
  "set_peer i p h = h\<lparr>peers := (peers h)[i := p]\<rparr>"

definition get_scache :: "'a heap_scheme \<Rightarrow> nat \<Rightarrow> scache res" where
  "get_scache h c = rd (scaches h) c"

definition set_scache :: "nat \<Rightarrow> scache \<Rightarrow> 'a heap_scheme \<Rightarrow> 'a heap_scheme" where
  "set_scache c s h = h\<lparr>scaches := (scaches h)[c := s]\<rparr>"

definition emit :: "effect list \<Rightarrow> 'a heap_scheme \<Rightarrow> 'a heap_scheme" where
  "emit es h = h\<lparr>effects := effects h @ es\<rparr>"

text \<open>\<open>make_shared\<close>: a new object and its index.\<close>

definition new_peer :: "peer_class \<Rightarrow> 'a heap_scheme \<Rightarrow> nat \<times> 'a heap_scheme" where
  "new_peer cls h = (length (peers h), h\<lparr>peers := peers h @ [RtcPeer cls]\<rparr>)"

definition StreamCache :: scache where
  "StreamCache = \<lparr>CanPublish = True, publisher = None, players = []\<rparr>"

definition new_scache :: "'a heap_scheme \<Rightarrow> nat \<times> 'a heap_scheme" where
  "new_scache h = (length (scaches h), h\<lparr>scaches := scaches h @ [StreamCache]\<rparr>)"

section \<open>The stream\<close>

definition SetPublisher :: "nat \<Rightarrow> nat \<Rightarrow> 'a heap_scheme \<Rightarrow> 'a heap_scheme res" where
  "SetPublisher c i h =
     bindR (get_scache h c) (\<lambda>s. Inr (set_scache c (s\<lparr>CanPublish := False, publisher := Some i\<rparr>) h))"

definition AddPlayer :: "nat \<Rightarrow> nat \<Rightarrow> 'a heap_scheme \<Rightarrow> 'a heap_scheme res" where
  "AddPlayer c i h =
     bindR (get_scache h c) (\<lambda>s. Inr (set_scache c (s\<lparr>players := players s @ [i]\<rparr>) h))"

definition SetStreamCache :: "nat \<Rightarrow> nat \<Rightarrow> 'a heap_scheme \<Rightarrow> 'a heap_scheme res" where
  "SetStreamCache i c h =
     bindR (get_peer h i) (\<lambda>p. Inr (set_peer i (p\<lparr>peer_scache := Some c\<rparr>) h))"

text \<open>
  The loop of \<open>CacheMedia\<close>. The variables \<open>ssrc\<close> and \<open>payload_type\<close> live outside the loop and keep
  their values when the media is neither video nor audio. The loop is one step: \<open>FeedMediaData\<close> of the
  core is assumed to return without giving up the processor, so that no player is added meanwhile.
\<close>

fun cache_loop ::
  "media \<Rightarrow> nat list \<Rightarrow> u32 \<Rightarrow> u32 \<Rightarrow> 'a heap_scheme \<Rightarrow> 'a heap_scheme res" where
  "cache_loop m [] ssrc pt h = Inr h"
| "cache_loop m (i # is) ssrc pt h =
     bindR (get_peer h i) (\<lambda>p.
       if peerconnection_state p \<noteq> kConnected then cache_loop m is ssrc pt h
       else
         (let (ssrc, pt) =
            (if media_type m = kMediaVideo then (local_video_ssrc p, local_video_payloadtype p)
             else if media_type m = kMediaAudio then (local_audio_ssrc p, local_audio_payloadtype p)
             else (ssrc, pt))
          in bindR (MediaFrame (media_type m) (media_data m) (media_len m) (timestamp m) ssrc pt
                      (rotate_angle m) (audio_frame_len m)) (\<lambda>raw_data.
             bindR (FeedMediaData raw_data p) (\<lambda>es.
             cache_loop m is ssrc pt (emit es h)))))"

definition CacheMedia :: "nat \<Rightarrow> media \<Rightarrow> 'a heap_scheme \<Rightarrow> 'a heap_scheme res" where
  "CacheMedia c m h = bindR (get_scache h c) (\<lambda>s. cache_loop m (players s) 0 0 h)"

section \<open>Publishers and players\<close>

definition Publisher_OnRecvMediaData :: "nat \<Rightarrow> media \<Rightarrow> 'a heap_scheme \<Rightarrow> 'a heap_scheme res" where
  "Publisher_OnRecvMediaData i m h =
     bindR (get_peer h i) (\<lambda>p.
       case peer_scache p of None \<Rightarrow> Inl Null_Deref | Some c \<Rightarrow> CacheMedia c m h)"

text \<open>\<open>_scache->_publisher->RequestIFrame()\<close> on the player \<open>i\<close>.\<close>

definition request_iframe_of_publisher :: "nat \<Rightarrow> 'a heap_scheme \<Rightarrow> 'a heap_scheme res" where
  "request_iframe_of_publisher i h =
     bindR (get_peer h i) (\<lambda>p.
       case peer_scache p of
         None \<Rightarrow> Inl Null_Deref
       | Some c \<Rightarrow> bindR (get_scache h c) (\<lambda>s.
           case publisher s of
             None \<Rightarrow> Inl Null_Deref
           | Some j \<Rightarrow> bindR (get_peer h j) (\<lambda>q.
               bindR (RequestIFrame q) (\<lambda>es. Inr (emit es h)))))"

definition Player_OnConnectionChange ::
  "nat \<Rightarrow> PeerConnectionState \<Rightarrow> 'a heap_scheme \<Rightarrow> 'a heap_scheme res" where
  "Player_OnConnectionChange i new_state h =
     bindR (get_peer h i) (\<lambda>p.
     let h = set_peer i (p\<lparr>peerconnection_state := new_state\<rparr>) h
     in if new_state = kConnected then request_iframe_of_publisher i h else Inr h)"

definition Player_OnRequestIFrame :: "nat \<Rightarrow> 'a heap_scheme \<Rightarrow> 'a heap_scheme res" where
  "Player_OnRequestIFrame i h = request_iframe_of_publisher i h"

text \<open>The virtual callbacks, by the class of the object; \<open>RtcPeer::OnRequestIFrame\<close> only logs.\<close>

definition call_OnConnectionChange ::
  "nat \<Rightarrow> PeerConnectionState \<Rightarrow> 'a heap_scheme \<Rightarrow> 'a heap_scheme res" where
  "call_OnConnectionChange i new_state h =
     bindR (get_peer h i) (\<lambda>p.
       if peer_class p = Player then Player_OnConnectionChange i new_state h
       else Inr (set_peer i (OnConnectionChange new_state p) h))"

definition call_OnIceConnectionChange ::
  "nat \<Rightarrow> IceConnectionState \<Rightarrow> 'a heap_scheme \<Rightarrow> 'a heap_scheme res" where
  "call_OnIceConnectionChange i new_state h =
     bindR (get_peer h i) (\<lambda>p. Inr (set_peer i (OnIceConnectionChange new_state p) h))"

definition call_OnRecvMediaData :: "fwrite \<Rightarrow> nat \<Rightarrow> media \<Rightarrow> 'a heap_scheme \<Rightarrow> 'a heap_scheme res" where
  "call_OnRecvMediaData ok i m h =
     bindR (get_peer h i) (\<lambda>p.
       if peer_class p = Publisher then Publisher_OnRecvMediaData i m h
       else bindR (OnRecvMediaData ok m p) (\<lambda>(p, es). Inr (emit es (set_peer i p h))))"

definition call_OnRequestIFrame :: "nat \<Rightarrow> 'a heap_scheme \<Rightarrow> 'a heap_scheme res" where
  "call_OnRequestIFrame i h =
     bindR (get_peer h i) (\<lambda>p. if peer_class p = Player then Player_OnRequestIFrame i h else Inr h)"

lemmas heap_defs = get_peer_def set_peer_def get_scache_def set_scache_def emit_def

section \<open>Forwarding\<close>

definition connected :: "'a heap_scheme \<Rightarrow> nat \<Rightarrow> bool" where
  "connected h i \<longleftrightarrow> peerconnection_state (peers h ! i) = kConnected"

text \<open>The frame that a player is to receive: the media under the player's own source and payload
  type.\<close>

definition frame_for :: "media \<Rightarrow> peer \<Rightarrow> media" where
  "frame_for m p =
     m\<lparr>media_data := map_option (take (nat (media_len m))) (media_data m),
       media_ssrc := (if media_type m = kMediaVideo then local_video_ssrc p else local_audio_ssrc p),
       media_payload_type :=
         (if media_type m = kMediaVideo then local_video_payloadtype p else local_audio_payloadtype p)\<rparr>"

definition feed_call :: "media \<Rightarrow> 'a heap_scheme \<Rightarrow> nat \<Rightarrow> effect" where
  "feed_call m h i =
     FeedMediaData_Call (the (peer_connection (peers h ! i))) (frame_for m (peers h ! i))"

definition media_ok :: "media \<Rightarrow> bool" where
  "media_ok m \<longleftrightarrow>
     (media_type m = kMediaVideo \<or> media_type m = kMediaAudio) \<and> 0 < media_len m
     \<and> (\<exists>d. media_data m = Some d \<and> nat (media_len m) \<le> length d)"

lemma MediaFrame_ok:
  "media_ok m \<Longrightarrow> MediaFrame (media_type m) (media_data m) (media_len m) (timestamp m) ssrc pt
       (rotate_angle m) (audio_frame_len m)
     = Inr (m\<lparr>media_data := map_option (take (nat (media_len m))) (media_data m),
              media_ssrc := ssrc, media_payload_type := pt\<rparr>)"
  by (auto simp: media_ok_def MediaFrame_def intro!: media.equality)

lemma cache_loop_forwards:
  assumes "media_ok m"
    and "\<forall>i\<in>set is. i < length (peers h) \<and> (connected h i \<longrightarrow> peer_connection (peers h ! i) \<noteq> None)"
  shows "cache_loop m is ssrc pt h = Inr (emit (map (feed_call m h) (filter (connected h) is)) h)"
  using assms(2)
proof (induction "is" arbitrary: h ssrc pt)
  case Nil
  then show ?case by (simp add: emit_def)
next
  case (Cons i "is")
  define p where "p = peers h ! i"
  have p: "get_peer h i = Inr p" using Cons.prems by (simp add: get_peer_def p_def)
  show ?case
  proof (cases "connected h i")
    case False
    then show ?thesis using Cons p by (simp add: connected_def flip: p_def)
  next
    case True
    then have st: "peerconnection_state p = kConnected" by (simp add: connected_def p_def)
    obtain pc where pc: "peer_connection p = Some pc" using Cons.prems True by (auto simp: p_def)
    define e where "e = feed_call m h i"
    have same: "feed_call m (emit [e] h) = feed_call m h" "connected (emit [e] h) = connected h"
      by (auto simp: fun_eq_iff feed_call_def connected_def emit_def)
    have "cache_loop m (i # is) ssrc pt h = cache_loop m is
        (if media_type m = kMediaVideo then local_video_ssrc p else local_audio_ssrc p)
        (if media_type m = kMediaVideo then local_video_payloadtype p else local_audio_payloadtype p)
        (emit [e] h)"
      using assms(1) st pc
      by (auto simp: p MediaFrame_ok FeedMediaData_def e_def feed_call_def frame_for_def p_def [symmetric]
          media_ok_def)
    also have "\<dots> = Inr (emit (map (feed_call m (emit [e] h)) (filter (connected (emit [e] h)) is)) (emit [e] h))"
      by (rule Cons.IH) (use Cons.prems in \<open>simp add: emit_def connected_def\<close>)
    finally show ?thesis using True by (simp add: same) (simp add: emit_def e_def)
  qed
qed

text \<open>C11: a stream forwards each video or audio unit to exactly its connected players, once each and
  in the order in which they joined, with the data copied and the player's own source and payload
  type, and to nobody else.\<close>

theorem CacheMedia_forwards:
  assumes "media_ok m" "c < length (scaches h)"
    and "\<forall>i\<in>set (players (scaches h ! c)).
           i < length (peers h) \<and> (connected h i \<longrightarrow> peer_connection (peers h ! i) \<noteq> None)"
  shows "CacheMedia c m h =
    Inr (h\<lparr>effects := effects h @ map (feed_call m h) (filter (connected h) (players (scaches h ! c)))\<rparr>)"
  using assms by (simp add: CacheMedia_def get_scache_def cache_loop_forwards emit_def)

theorem CacheMedia_forwards_witness:
  "CacheMedia 0 \<lparr>media_type = kMediaAudio, media_data = Some [5], media_len = 1, timestamp = 3,
       media_ssrc = 8, media_payload_type = 0, rotate_angle = 0, audio_frame_len = 0\<rparr>
     \<lparr>peers = [RtcPeer Player, (RtcPeer Player)\<lparr>peerconnection_state := kConnected,
         peer_connection := Some 4, local_audio_ssrc := 77, local_audio_payloadtype := 111\<rparr>],
      scaches = [\<lparr>CanPublish = False, publisher = None, players = [0, 1]\<rparr>], effects = []\<rparr>
   = Inr \<lparr>peers = [RtcPeer Player, (RtcPeer Player)\<lparr>peerconnection_state := kConnected,
         peer_connection := Some 4, local_audio_ssrc := 77, local_audio_payloadtype := 111\<rparr>],
      scaches = [\<lparr>CanPublish = False, publisher = None, players = [0, 1]\<rparr>],
      effects = [FeedMediaData_Call 4 \<lparr>media_type = kMediaAudio, media_data = Some [5], media_len = 1,
        timestamp = 3, media_ssrc = 77, media_payload_type = 111, rotate_angle = 0, audio_frame_len = 0\<rparr>]\<rparr>"
  by (subst CacheMedia_forwards)
    (simp_all add: media_ok_def connected_def feed_call_def frame_for_def RtcPeer_def)

end
