(* ===== verification/Crypto_Ops.thy ===== *)
theory Crypto_Ops
  imports Byte_Ops
begin

text \<open>
  The class \<open>Utils::Crypto\<close> of \<open>src/Utils.h\<close> and \<open>src/Utils.cpp\<close>: the table-driven
  CRC-32, the linear congruential random numbers and strings, and the HMAC-SHA1 context. The
  lookup table is the one of the source, entry by entry. The HMAC itself is OpenSSL's and a
  parameter \<open>hmac\<close> of the definitions that use it; the pointer \<open>hmacSha1Ctx\<close> and its
  allocation states are modelled, so that a use before \<open>ClassInit\<close> or after
  \<open>ClassDestroy\<close> is undefined behaviour.
\<close>

section \<open>CRC-32\<close>

definition crc32Table :: "u32 list" where
  "crc32Table = [
    0x00000000, 0x77073096, 0xee0e612c, 0x990951ba, 0x076dc419, 0x706af48f, 0xe963a535, 0x9e6495a3,
    0x0edb8832, 0x79dcb8a4, 0xe0d5e91e, 0x97d2d988, 0x09b64c2b, 0x7eb17cbd, 0xe7b82d07, 0x90bf1d91,
    0x1db71064, 0x6ab020f2, 0xf3b97148, 0x84be41de, 0x1adad47d, 0x6ddde4eb, 0xf4d4b551, 0x83d385c7,
    0x136c9856, 0x646ba8c0, 0xfd62f97a, 0x8a65c9ec, 0x14015c4f, 0x63066cd9, 0xfa0f3d63, 0x8d080df5,
    0x3b6e20c8, 0x4c69105e, 0xd56041e4, 0xa2677172, 0x3c03e4d1, 0x4b04d447, 0xd20d85fd, 0xa50ab56b,
    0x35b5a8fa, 0x42b2986c, 0xdbbbc9d6, 0xacbcf940, 0x32d86ce3, 0x45df5c75, 0xdcd60dcf, 0xabd13d59,
    0x26d930ac, 0x51de003a, 0xc8d75180, 0xbfd06116, 0x21b4f4b5, 0x56b3c423, 0xcfba9599, 0xb8bda50f,
    0x2802b89e, 0x5f058808, 0xc60cd9b2, 0xb10be924, 0x2f6f7c87, 0x58684c11, 0xc1611dab, 0xb6662d3d,
    0x76dc4190, 0x01db7106, 0x98d220bc, 0xefd5102a, 0x71b18589, 0x06b6b51f, 0x9fbfe4a5, 0xe8b8d433,
    0x7807c9a2, 0x0f00f934, 0x9609a88e, 0xe10e9818, 0x7f6a0dbb, 0x086d3d2d, 0x91646c97, 0xe6635c01,
    0x6b6b51f4, 0x1c6c6162, 0x856530d8, 0xf262004e, 0x6c0695ed, 0x1b01a57b, 0x8208f4c1, 0xf50fc457,
    0x65b0d9c6, 0x12b7e950, 0x8bbeb8ea, 0xfcb9887c, 0x62dd1ddf, 0x15da2d49, 0x8cd37cf3, 0xfbd44c65,
    0x4db26158, 0x3ab551ce, 0xa3bc0074, 0xd4bb30e2, 0x4adfa541, 0x3dd895d7, 0xa4d1c46d, 0xd3d6f4fb,
    0x4369e96a, 0x346ed9fc, 0xad678846, 0xda60b8d0, 0x44042d73, 0x33031de5, 0xaa0a4c5f, 0xdd0d7cc9,
    0x5005713c, 0x270241aa, 0xbe0b1010, 0xc90c2086, 0x5768b525, 0x206f85b3, 0xb966d409, 0xce61e49f,
    0x5edef90e, 0x29d9c998, 0xb0d09822, 0xc7d7a8b4, 0x59b33d17, 0x2eb40d81, 0xb7bd5c3b, 0xc0ba6cad,
    0xedb88320, 0x9abfb3b6, 0x03b6e20c, 0x74b1d29a, 0xead54739, 0x9dd277af, 0x04db2615, 0x73dc1683,
    0xe3630b12, 0x94643b84, 0x0d6d6a3e, 0x7a6a5aa8, 0xe40ecf0b, 0x9309ff9d, 0x0a00ae27, 0x7d079eb1,
    0xf00f9344, 0x8708a3d2, 0x1e01f268, 0x6906c2fe, 0xf762575d, 0x806567cb, 0x196c3671, 0x6e6b06e7,
    0xfed41b76, 0x89d32be0, 0x10da7a5a, 0x67dd4acc, 0xf9b9df6f, 0x8ebeeff9, 0x17b7be43, 0x60b08ed5,
    0xd6d6a3e8, 0xa1d1937e, 0x38d8c2c4, 0x4fdff252, 0xd1bb67f1, 0xa6bc5767, 0x3fb506dd, 0x48b2364b,
    0xd80d2bda, 0xaf0a1b4c, 0x36034af6, 0x41047a60, 0xdf60efc3, 0xa867df55, 0x316e8eef, 0x4669be79,
    0xcb61b38c, 0xbc66831a, 0x256fd2a0, 0x5268e236, 0xcc0c7795, 0xbb0b4703, 0x220216b9, 0x5505262f,
    0xc5ba3bbe, 0xb2bd0b28, 0x2bb45a92, 0x5cb36a04, 0xc2d7ffa7, 0xb5d0cf31, 0x2cd99e8b, 0x5bdeae1d,
    0x9b64c2b0, 0xec63f226, 0x756aa39c, 0x026d930a, 0x9c0906a9, 0xeb0e363f, 0x72076785, 0x05005713,
    0x95bf4a82, 0xe2b87a14, 0x7bb12bae, 0x0cb61b38, 0x92d28e9b, 0xe5d5be0d, 0x7cdcefb7, 0x0bdbdf21,
    0x86d3d2d4, 0xf1d4e242, 0x68ddb3f8, 0x1fda836e, 0x81be16cd, 0xf6b9265b, 0x6fb077e1, 0x18b74777,
    0x88085ae6, 0xff0f6a70, 0x66063bca, 0x11010b5c, 0x8f659eff, 0xf862ae69, 0x616bffd3, 0x166ccf45,
    0xa00ae278, 0xd70dd2ee, 0x4e048354, 0x3903b3c2, 0xa7672661, 0xd06016f7, 0x4969474d, 0x3e6e77db,
    0xaed16a4a, 0xd9d65adc, 0x40df0b66, 0x37d83bf0, 0xa9bcae53, 0xdebb9ec5, 0x47b2cf7f, 0x30b5ffe9,
    0xbdbdf21c, 0xcabac28a, 0x53b39330, 0x24b4a3a6, 0xbad03605, 0xcdd70693, 0x54de5729, 0x23d967bf,
    0xb3667a2e, 0xc4614ab8, 0x5d681b02, 0x2a6f2b94, 0xb40bbe37, 0xc30c8ea1, 0x5a05df1b, 0x2d02ef8d]"

definition crc32_step :: "u32 \<Rightarrow> u8 \<Rightarrow> u32" where
  "crc32_step crc p =
     crc32Table ! unat ((crc XOR ucast p) AND 0xFF) XOR drop_bit 8 crc"

fun crc32_loop :: "bytes \<Rightarrow> nat \<Rightarrow> nat \<Rightarrow> u32 \<Rightarrow> u32 res" where
  "crc32_loop data p 0 crc = Inr crc"
| "crc32_loop data p (Suc sz) crc =
     bindR (rd data p) (\<lambda>b. crc32_loop data (p + 1) sz (crc32_step crc b))"

definition GetCRC32 :: "bytes \<Rightarrow> nat \<Rightarrow> u32 res" where
  "GetCRC32 data sz =
     bindR (crc32_loop data 0 sz 0xFFFFFFFF) (\<lambda>crc. Inr (crc XOR NOT 0))"

section \<open>The bitwise reference\<close>

text \<open>
  The reflected CRC-32 of IEEE 802.3, one bit at a time: shift right, and subtract the
  generator polynomial \<open>0xEDB88320\<close> when the bit shifted out is set.
\<close>

definition crc_bit :: "u32 \<Rightarrow> u32" where
  "crc_bit c = (if bit c 0 then drop_bit 1 c XOR 0xEDB88320 else drop_bit 1 c)"

definition crc_bits :: "nat \<Rightarrow> u32 \<Rightarrow> u32" where
  "crc_bits n = crc_bit ^^ n"

definition crc_ref_step :: "u32 \<Rightarrow> u8 \<Rightarrow> u32" where
  "crc_ref_step c b = crc_bits 8 (c XOR ucast b)"

definition crc32_ref :: "bytes \<Rightarrow> u32" where
  "crc32_ref bs = foldl crc_ref_step 0xFFFFFFFF bs XOR NOT 0"

lemma crc_bit_xor: "crc_bit (a XOR b) = crc_bit a XOR crc_bit b"
  by (auto simp: crc_bit_def bit_xor_iff drop_bit_xor ac_simps)

lemma crc_bits_0 [simp]: "crc_bits 0 c = c"
  by (simp add: crc_bits_def)

lemma crc_bits_add: "crc_bits (m + n) c = crc_bits m (crc_bits n c)"
  by (simp add: crc_bits_def funpow_add)

lemma crc_bits_Suc: "crc_bits (Suc n) c = crc_bits n (crc_bit c)"
  by (simp add: crc_bits_def funpow_swap1)

lemma crc_bits_xor: "crc_bits n (a XOR b) = crc_bits n a XOR crc_bits n b"
  by (induction n arbitrary: a b) (simp_all add: crc_bits_Suc crc_bit_xor)

text \<open>Low bits that are clear are shifted out without a subtraction.\<close>

lemma crc_bits_push: "crc_bits n (push_bit n c) = take_bit (32 - n) c" if "n \<le> 32"
  using that
proof (induction n arbitrary: c)
  case 0
  have "take_bit 32 c = c" by (rule bit_word_eqI) (simp add: bit_simps)
  then show ?case by simp
next
  case (Suc n)
  have "\<not> bit (push_bit (Suc n) c) 0" by (simp add: bit_simps del: push_bit_Suc)
  then have "crc_bit (push_bit (Suc n) c) = drop_bit 1 (push_bit (Suc n) c)"
    by (simp add: crc_bit_def)
  also have "\<dots> = push_bit n (take_bit (31 - n) c)"
    by (rule bit_word_eqI) (auto simp: bit_simps Suc_diff_le simp del: push_bit_Suc)
  finally have "crc_bits (Suc n) (push_bit (Suc n) c) = crc_bits n (push_bit n (take_bit (31 - n) c))"
    by (simp add: crc_bits_Suc)
  also have "\<dots> = take_bit (32 - n) (take_bit (31 - n) c)" using Suc by simp
  also have "\<dots> = take_bit (32 - Suc n) c"
    using Suc.prems by simp
  finally show ?case .
qed


text \<open>
  Every entry of the table is eight steps of the reference. The table is built from its eight
  basis entries by exclusive or, since the steps are linear.
\<close>

fun xor_table :: "nat \<Rightarrow> u32 list" where
  "xor_table 0 = [0]"
| "xor_table (Suc k) = xor_table k @ map (\<lambda>t. t XOR crc_bits 8 (2 ^ k)) (xor_table k)"

lemma crc_bits_8: "crc_bits 8 c = crc_bit (crc_bit (crc_bit (crc_bit (crc_bit (crc_bit (crc_bit (crc_bit c)))))))"
  by (simp add: crc_bits_def eval_nat_numeral)

lemma crc_bits_zero [simp]: "crc_bits n 0 = 0"
  by (induction n) (simp_all add: crc_bits_Suc crc_bit_def)

lemma crc_bit_eqs:
  "crc_bit 128 = 64" "crc_bit 64 = 32" "crc_bit 32 = 16" "crc_bit 16 = 8" "crc_bit 8 = 4"
  "crc_bit 4 = 2" "crc_bit 2 = 1" "crc_bit 1 = 0xEDB88320"
  "crc_bit 0xEDB88320 = 0x76dc4190" "crc_bit 0x76dc4190 = 0x3b6e20c8"
  "crc_bit 0x3b6e20c8 = 0x1db71064" "crc_bit 0x1db71064 = 0x0edb8832"
  "crc_bit 0x0edb8832 = 0x076dc419" "crc_bit 0x076dc419 = 0xee0e612c"
  "crc_bit 0xee0e612c = 0x77073096"
  by (simp_all add: crc_bit_def)

lemma word_add_xor: "x + y = x XOR y" if "x AND y = 0" for x y :: "'a::len word"
proof -
  have "x + y = x OR y" using that by (rule disjunctive_add_eq_or)
  also have "\<dots> = x XOR y"
  proof (rule bit_word_eqI)
    fix n
    have "\<not> bit (x AND y) n" using that by simp
    then show "bit (x OR y) n = bit (x XOR y) n" by (auto simp: bit_simps)
  qed
  finally show ?thesis .
qed

lemma xor_table_eq: "k \<le> 8 \<Longrightarrow> xor_table k = map (\<lambda>i. crc_bits 8 (of_nat i)) [0..<2 ^ k]"
proof (induction k)
  case (Suc k)
  have "of_nat (i + 2 ^ k) = (of_nat i XOR 2 ^ k :: u32)" if "i < 2 ^ k" for i
  proof -
    have "take_bit k (of_nat i :: u32) = of_nat i"
      using that by (simp add: take_bit_of_nat take_bit_nat_eq_self)
    then have "\<not> bit (of_nat i :: u32) k"
      by (metis bit_take_bit_iff less_irrefl)
    then have "(of_nat i :: u32) AND 2 ^ k = 0"
      by (intro bit_word_eqI) (auto simp: bit_simps)
    then show ?thesis by (simp add: word_add_xor)
  qed
  then have "map (\<lambda>i. crc_bits 8 (of_nat i)) [2 ^ k..<2 ^ k + 2 ^ k]
      = map (\<lambda>i. crc_bits 8 (of_nat i) XOR crc_bits 8 (2 ^ k)) [0..<2 ^ k]"
    by (intro nth_equalityI) (simp_all add: crc_bits_xor add.commute)
  then show ?case
    using Suc upt_add_eq_append [of 0 "2 ^ k" "2 ^ k"] by (simp add: mult_2)
qed simp


lemma crc_basis:
  "crc_bits 8 1 = 0x77073096" "crc_bits 8 2 = 0xee0e612c" "crc_bits 8 4 = 0x076dc419"
  "crc_bits 8 8 = 0x0edb8832" "crc_bits 8 16 = 0x1db71064" "crc_bits 8 32 = 0x3b6e20c8"
  "crc_bits 8 64 = 0x76dc4190" "crc_bits 8 128 = 0xEDB88320"
  by (simp_all only: crc_bits_8 crc_bit_eqs)

lemma xor_table_8: "xor_table 8 = crc32Table"
proof -
  have "xor_table 8 = xor_table (Suc (Suc (Suc (Suc (Suc (Suc (Suc (Suc 0))))))))"
    by (simp add: eval_nat_numeral del: xor_table.simps)
  also have "\<dots> = crc32Table"
    by (simp add: crc_basis crc32Table_def)
  finally show ?thesis .
qed

lemma crc32Table_eq: "crc32Table = map (\<lambda>i. crc_bits 8 (of_nat i)) [0..<256]"
  using xor_table_eq [of 8] by (simp add: xor_table_8)

lemma length_crc32Table [simp]: "length crc32Table = 256"
  by (simp add: crc32Table_eq)

lemma crc32Table_nth: "x AND 0xFF = x \<Longrightarrow> crc32Table ! unat x = crc_bits 8 x"
proof -
  assume x: "x AND 0xFF = x"
  have "x AND 0xFF \<le> 0xFF" by (rule word_and_le1)
  then have "unat x \<le> 255" by (simp add: x word_le_nat_alt)
  then show ?thesis by (simp add: crc32Table_eq)
qed

lemma crc32_step_ref: "crc32_step c b = crc_ref_step c b"
proof -
  define x where "x = c XOR ucast b"
  have "(0xFF :: u32) = mask 8" by (simp add: mask_eq_exp_minus_1)
  then have lo: "y AND 0xFF = take_bit 8 y" for y :: u32
    by (simp add: take_bit_eq_mask)
  have "x = take_bit 8 x XOR push_bit 8 (drop_bit 8 x)"
    by (rule bit_word_eqI) (auto simp: bit_simps)
  then have "crc_bits 8 x = crc_bits 8 (take_bit 8 x) XOR crc_bits 8 (push_bit 8 (drop_bit 8 x))"
    by (metis crc_bits_xor)
  also have "crc_bits 8 (push_bit 8 (drop_bit 8 x)) = drop_bit 8 x"
    by (simp add: crc_bits_push) (rule bit_word_eqI, auto simp: bit_simps dest: bit_imp_le_length)
  also have "drop_bit 8 x = drop_bit 8 c"
    by (rule bit_word_eqI) (auto simp: x_def bit_simps dest: bit_imp_le_length)
  also have "crc_bits 8 (take_bit 8 x) = crc32Table ! unat (x AND 0xFF)"
    by (simp add: lo crc32Table_nth)
  finally show ?thesis
    by (simp add: crc32_step_def crc_ref_step_def x_def)
qed

lemma crc32_loop_eq:
  "p + sz \<le> length data \<Longrightarrow>
     crc32_loop data p sz crc = Inr (foldl crc32_step crc (take sz (drop p data)))"
proof (induction data p sz crc rule: crc32_loop.induct)
  case (2 data p sz crc)
  then have "drop p data = data ! p # drop (Suc p) data" by (simp add: Cons_nth_drop_Suc)
  with 2 show ?case by simp
qed simp

lemma crc32_loop_oob:
  "length data < p + sz \<Longrightarrow> crc32_loop data p sz crc = Inl Out_Of_Bounds" if "p \<le> length data"
  using that by (induction data p sz crc rule: crc32_loop.induct) (auto simp: rd_def)

lemma GetCRC32_eq:
  "GetCRC32 data sz = bindR (rd_block data 0 sz) (\<lambda>bs. Inr (crc32_ref bs))"
proof -
  have "crc32_step = crc_ref_step"
    by (simp add: fun_eq_iff crc32_step_ref)
  then show ?thesis
    by (cases "sz \<le> length data")
      (simp_all add: GetCRC32_def crc32_loop_eq crc32_loop_oob crc32_ref_def)
qed

section \<open>What a streaming checksum detects\<close>

text \<open>
  A checksum that folds a step over the message detects every corruption confined to a window
  of \<open>burst\<close> bytes, when the step is injective in the state and \<open>burst\<close> steps from one
  state are injective in the bytes.
\<close>

locale streaming_checksum =
  fixes step :: "'s \<Rightarrow> 'b \<Rightarrow> 's"
    and burst :: nat
  assumes step_inj: "step s b = step s' b \<Longrightarrow> s = s'"
    and burst_inj: "length bs = burst \<Longrightarrow> length bs' = burst \<Longrightarrow>
      foldl step s bs = foldl step s bs' \<Longrightarrow> bs = bs'"
begin

lemma foldl_inj: "foldl step s bs = foldl step s' bs \<Longrightarrow> s = s'"
  by (induction bs arbitrary: s s') (auto dest: step_inj)

lemma window_inj:
  assumes "length bs = length bs'" "length bs \<le> burst"
    and eq: "foldl step s (bs @ post) = foldl step s (bs' @ post)"
  shows "bs = bs'"
proof -
  obtain b :: 'b where True by simp
  define fill where "fill = replicate (burst - length bs) b"
  from eq have "foldl step s bs = foldl step s bs'"
    by (auto dest: foldl_inj)
  then have "foldl step s (bs @ fill) = foldl step s (bs' @ fill)" by simp
  then have "bs @ fill = bs' @ fill"
    using assms(1,2) by (intro burst_inj) (simp_all add: fill_def)
  then show ?thesis by simp
qed

lemma detects_window:
  assumes "length mid = length mid'" "length mid \<le> burst" "mid \<noteq> mid'"
  shows "foldl step s (pre @ mid @ post) \<noteq> foldl step s (pre @ mid' @ post)"
  using window_inj [of mid mid' "foldl step s pre" post] assms by auto

end

text \<open>The CRC step: the feedback bit of the generator makes every single bit step injective.\<close>

lemma crc_bit_inj: "crc_bit a = crc_bit b \<Longrightarrow> a = b"
proof -
  assume eq: "crc_bit a = crc_bit b"
  have top: "bit (crc_bit c) 31 = bit c 0" for c
    by (auto simp: crc_bit_def bit_simps dest: bit_imp_le_length)
  have "crc_bit (a XOR b) = 0" by (simp add: crc_bit_xor eq)
  moreover from this have "\<not> bit (a XOR b) 0" by (metis top bit_0_eq bot_apply bot_bool_def)
  ultimately have z: "drop_bit 1 (a XOR b) = 0" "\<not> bit (a XOR b) 0"
    by (simp_all add: crc_bit_def)
  show "a = b"
  proof (rule bit_word_eqI)
    fix n
    have "\<not> bit (a XOR b) n"
    proof (cases n)
      case 0
      with z show ?thesis by simp
    next
      case (Suc m)
      have "bit (drop_bit 1 (a XOR b)) m = bit (a XOR b) (Suc m)"
        by (simp only: bit_drop_bit_eq comp_apply plus_1_eq_Suc)
      with z Suc show ?thesis by simp
    qed
    then show "bit a n = bit b n" by (simp add: bit_simps)
  qed
qed

lemma crc_bits_inj: "crc_bits n a = crc_bits n b \<Longrightarrow> a = b"
  by (induction n arbitrary: a b) (auto simp: crc_bits_Suc dest: crc_bit_inj)

text \<open>Four steps read the four bytes as one little-endian word.\<close>

definition le_word :: "u8 \<Rightarrow> u8 \<Rightarrow> u8 \<Rightarrow> u8 \<Rightarrow> u32" where
  "le_word b0 b1 b2 b3 =
     ucast b0 XOR push_bit 8 (ucast b1) XOR push_bit 16 (ucast b2) XOR push_bit 24 (ucast b3)"

lemma crc_bits_push_byte: "n \<le> 24 \<Longrightarrow> crc_bits n (push_bit n (ucast (b :: u8))) = ucast b"
  by (simp add: crc_bits_push) (rule bit_word_eqI, auto simp: bit_simps dest: bit_imp_le_length)

lemma crc_step4: "foldl crc_ref_step s [b0, b1, b2, b3] = crc_bits 32 (s XOR le_word b0 b1 b2 b3)"
proof -
  have a: "crc_bits m (crc_bits n c) = crc_bits k c" if "m + n = k" for m n k c
    using crc_bits_add[of m n c] that by simp
  note [simp] = a[of 8 8 16] a[of 8 16 24] a[of 8 24 32] a[of 24 8 32] a[of 16 16 32] a[of 16 8 24]
  have "foldl crc_ref_step s [b0, b1, b2, b3] = crc_bits 32 (s XOR ucast b0)
     XOR crc_bits 24 (ucast b1) XOR crc_bits 16 (ucast b2) XOR crc_bits 8 (ucast b3)"
    by (simp add: crc_ref_step_def crc_bits_xor xor.assoc)
  also have "ucast b1 = crc_bits 8 (push_bit 8 (ucast b1))"
    by (simp add: crc_bits_push_byte)
  also have "ucast b2 = crc_bits 16 (push_bit 16 (ucast b2))"
    by (simp add: crc_bits_push_byte)
  also have "ucast b3 = crc_bits 24 (push_bit 24 (ucast b3))"
    by (simp add: crc_bits_push_byte)
  finally show ?thesis by (simp add: le_word_def crc_bits_xor xor.assoc)
qed

lemma le_word_inj:
  assumes "le_word a0 a1 a2 a3 = le_word b0 b1 b2 b3"
  shows "a0 = b0 \<and> a1 = b1 \<and> a2 = b2 \<and> a3 = b3"
proof -
  have byte: "ucast (le_word c0 c1 c2 c3) = c0" "ucast (drop_bit 8 (le_word c0 c1 c2 c3)) = c1"
    "ucast (drop_bit 16 (le_word c0 c1 c2 c3)) = c2"
    "ucast (drop_bit 24 (le_word c0 c1 c2 c3)) = c3" for c0 c1 c2 c3 :: u8
    by (rule bit_word_eqI, auto simp: le_word_def bit_simps dest: bit_imp_le_length)+
  show ?thesis using byte [of a0 a1 a2 a3] byte [of b0 b1 b2 b3] assms by simp
qed

lemma length_4_iff: "length bs = 4 \<longleftrightarrow> (\<exists>a b c d. bs = [a, b, c, d])"
  by (auto simp: numeral_eq_Suc length_Suc_conv)

interpretation crc: streaming_checksum crc_ref_step 4
proof
  fix s s' :: u32 and b :: u8
  assume "crc_ref_step s b = crc_ref_step s' b"
  then have "s XOR ucast b = s' XOR ucast b" by (auto simp: crc_ref_step_def dest: crc_bits_inj)
  then show "s = s'" by simp
next
  fix bs bs' :: bytes and s :: u32
  assume "length bs = 4" "length bs' = 4" and eq: "foldl crc_ref_step s bs = foldl crc_ref_step s bs'"
  then obtain a0 a1 a2 a3 b0 b1 b2 b3 where bs: "bs = [a0, a1, a2, a3]" "bs' = [b0, b1, b2, b3]"
    by (auto simp: length_4_iff)
  with eq have "s XOR le_word a0 a1 a2 a3 = s XOR le_word b0 b1 b2 b3"
    by (auto simp only: crc_step4 dest: crc_bits_inj)
  then have "le_word a0 a1 a2 a3 = le_word b0 b1 b2 b3"
    by simp
  with bs show "bs = bs'" by (auto dest: le_word_inj)
qed


text \<open>C30: the table-driven checksum of the source is the bitwise CRC-32 reference on every
  buffer that holds the bytes to be summed.\<close>

theorem GetCRC32_is_crc32: "sz \<le> length data \<Longrightarrow> GetCRC32 data sz = Inr (crc32_ref (take sz data))"
  by (simp add: GetCRC32_eq)

theorem GetCRC32_is_crc32_witness:
  "GetCRC32 [0x61, 0x62, 0x63] 3 = Inr (crc32_ref [0x61, 0x62, 0x63]) \<and> crc32_ref [0x61, 0x62, 0x63] = 0x352441C2"
proof -
  have "(3::nat) \<le> length [0x61, 0x62, 0x63 :: u8]" by simp
  from GetCRC32_is_crc32 [OF this] show ?thesis
    by (simp add: crc32_ref_def crc_ref_step_def crc_bits_8 crc_bit_def)
qed

text \<open>C31: corruption of up to four consecutive bytes always changes the CRC-32 value.\<close>

theorem GetCRC32_detects_burst:
  assumes "length mid = length mid'" "length mid \<le> 4" "mid \<noteq> mid'"
    and "GetCRC32 (pre @ mid @ post) (length (pre @ mid @ post)) = Inr c"
    and "GetCRC32 (pre @ mid' @ post) (length (pre @ mid' @ post)) = Inr c'"
  shows "c \<noteq> c'"
  using crc.detects_window [OF assms(1-3)] assms(4,5)
  by (auto simp: GetCRC32_eq crc32_ref_def)

theorem GetCRC32_detects_burst_witness: "GetCRC32 [1, 2, 3] 3 \<noteq> GetCRC32 [1, 7, 3] 3"
proof -
  have "crc32_ref [1, 2, 3] \<noteq> crc32_ref [1, 7, 3]"
    by (rule GetCRC32_detects_burst [of "[2]" "[7]" "[1]" "[3]"]) (simp_all add: GetCRC32_eq)
  then show ?thesis by (simp add: GetCRC32_eq)
qed

section \<open>Random numbers and strings\<close>

text \<open>
  The generator keeps its state in the static \<open>seed\<close>. Arithmetic is on \<open>uint32_t\<close>, so the
  size \<open>max - min + 1\<close> of the range wraps to zero for the full range, and the remainder by it
  is then undefined behaviour.
\<close>

definition GetRandomUInt :: "u32 \<Rightarrow> u32 \<Rightarrow> u32 \<Rightarrow> (u32 \<times> u32) res" where
  "GetRandomUInt mn mx seed =
     (let seed' = (214013 * seed) + 2531011;
          range = mx - mn + 1
      in if range = 0 then Inl Division_By_Zero
         else Inr (((drop_bit 4 seed' AND 0x7FFF7FFF) mod range) + mn, seed'))"

definition random_chars :: string where
  "random_chars = ''0123456789abcdefghijklmnopqrstuvwxyz''"

fun random_loop :: "nat \<Rightarrow> nat \<Rightarrow> string \<Rightarrow> u32 \<Rightarrow> (string \<times> u32) res" where
  "random_loop i 0 buffer seed = Inr (buffer, seed)"
| "random_loop i (Suc n) buffer seed =
     bindR (GetRandomUInt 0 (of_nat (length random_chars) - 1) seed) (\<lambda>(r, seed).
     bindR (rd random_chars (unat r)) (\<lambda>c.
     bindR (wr buffer i c) (\<lambda>buffer. random_loop (i + 1) n buffer seed)))"

definition GetRandomString :: "nat \<Rightarrow> string \<Rightarrow> u32 \<Rightarrow> (string \<times> string \<times> u32) res" where
  "GetRandomString len buffer seed =
     (let len = (if len > 64 then 64 else len)
      in bindR (random_loop 0 len buffer seed) (\<lambda>(buffer, seed).
         bindR (rd_block buffer 0 len) (\<lambda>s. Inr (s, buffer, seed))))"

lemma word_mod_add_bounds:
  fixes mn mx x :: u32
  assumes "mn \<le> mx" "mx - mn + 1 \<noteq> 0"
  shows "mn \<le> x mod (mx - mn + 1) + mn \<and> x mod (mx - mn + 1) + mn \<le> mx"
proof -
  let ?r = "mx - mn + 1"
  have d: "unat (mx - mn) = unat mx - unat mn" using assms(1) by (simp add: unat_sub)
  have r: "unat ?r = unat mx - unat mn + 1"
    using assms(2) d by (metis unatSuc add.commute Suc_eq_plus1)
  have "unat (x mod ?r) < unat ?r" using assms(2) by (simp add: unat_mod unat_gt_0)
  then have le: "unat (x mod ?r) + unat mn \<le> unat mx"
    using r assms(1) by (simp add: word_le_nat_alt)
  then have "unat (x mod ?r + mn) = unat (x mod ?r) + unat mn"
    by (intro unat_add_lem [THEN iffD1] le_less_trans [OF le unsigned_less])
  with le show ?thesis by (simp add: word_le_nat_alt)
qed

text \<open>A random number lies within its bounds, for every ordered range but the full one.\<close>

theorem GetRandomUInt_bounds:
  assumes "mn \<le> mx" "mx - mn \<noteq> - 1"
  shows "\<exists>r seed'. GetRandomUInt mn mx seed = Inr (r, seed') \<and> mn \<le> r \<and> r \<le> mx"
proof -
  have "mx - mn + 1 \<noteq> 0" using assms(2) by (metis add_eq_0_iff2)
  with word_mod_add_bounds [OF assms(1) this] show ?thesis
    by (simp add: GetRandomUInt_def Let_def)
qed

theorem GetRandomUInt_bounds_witness:
  "\<exists>r seed'. GetRandomUInt 10 35 7 = Inr (r, seed') \<and> 10 \<le> r \<and> r \<le> 35"
  by (rule GetRandomUInt_bounds) simp_all

lemma GetRandomUInt_full_range: "GetRandomUInt 0 0xFFFFFFFF seed = Inl Division_By_Zero"
  by (simp add: GetRandomUInt_def)

lemma length_random_chars [simp]: "length random_chars = 36"
  by (simp add: random_chars_def)

lemma random_index: "\<exists>r seed'. GetRandomUInt 0 (of_nat (length random_chars) - 1) seed = Inr (r, seed') \<and> unat r < 36"
proof -
  obtain r seed' where "GetRandomUInt 0 35 seed = Inr (r, seed')" "r \<le> 35"
    using GetRandomUInt_bounds [of 0 35 seed] by auto
  then show ?thesis by (auto simp: word_le_nat_alt)
qed

text \<open>The loop fills the cells it has not reached with characters of the alphabet.\<close>

lemma random_loop_fills:
  "i + n \<le> length buffer \<Longrightarrow> \<exists>buffer' seed'. random_loop i n buffer seed = Inr (buffer', seed')
     \<and> length buffer' = length buffer
     \<and> (\<forall>k. k < i \<longrightarrow> buffer' ! k = buffer ! k)
     \<and> (\<forall>k. i \<le> k \<and> k < i + n \<longrightarrow> buffer' ! k \<in> set random_chars)"
proof (induction n arbitrary: i buffer seed)
  case 0
  then show ?case by auto
next
  case (Suc n)
  obtain r seed' where r: "GetRandomUInt 0 (of_nat (length random_chars) - 1) seed = Inr (r, seed')"
      and lt: "unat r < 36"
    using random_index by blast
  define c where "c = random_chars ! unat r"
  have c: "c \<in> set random_chars" using lt by (simp add: c_def)
  obtain buffer' seed'' where loop: "random_loop (i + 1) n (buffer[i := c]) seed' = Inr (buffer', seed'')"
      and len: "length buffer' = length buffer"
      and old: "\<forall>k. k < i + 1 \<longrightarrow> buffer' ! k = buffer[i := c] ! k"
      and new: "\<forall>k. i + 1 \<le> k \<and> k < i + 1 + n \<longrightarrow> buffer' ! k \<in> set random_chars"
    using Suc.IH [of "i + 1" "buffer[i := c]" seed'] Suc.prems by auto
  have "random_loop i (Suc n) buffer seed = Inr (buffer', seed'')"
    using r lt loop Suc.prems by (simp add: c_def wr_def)
  moreover have "buffer' ! k = buffer ! k" if "k < i" for k
    using old that by simp
  moreover have "buffer' ! k \<in> set random_chars" if "i \<le> k" "k < i + Suc n" for k
    using old new c that Suc.prems by (cases "k = i") auto
  ultimately show ?case using len by auto
qed

text \<open>A random string is produced without touching memory outside the static buffer of 64
  characters, has the requested length up to 64, and consists of digits and small letters.\<close>

theorem GetRandomString_spec:
  assumes "length buffer = 64"
  shows "\<exists>s buffer' seed'. GetRandomString len buffer seed = Inr (s, buffer', seed')
     \<and> length buffer' = 64 \<and> length s = min len 64 \<and> set s \<subseteq> set random_chars"
proof -
  define n where "n = min len 64"
  have n: "(if len > 64 then 64 else len) = n" "n \<le> 64" by (auto simp: n_def)
  obtain buffer' seed' where loop: "random_loop 0 n buffer seed = Inr (buffer', seed')"
      and len: "length buffer' = 64" and new: "\<forall>k < n. buffer' ! k \<in> set random_chars"
    using random_loop_fills [of 0 n buffer seed] assms n by auto
  then have "set (take n buffer') \<subseteq> set random_chars"
    using n(2) by (auto simp: in_set_conv_nth)
  moreover have "GetRandomString len buffer seed = Inr (take n buffer', buffer', seed')"
    unfolding GetRandomString_def Let_def n(1) using loop len n(2) by simp
  ultimately show ?thesis using len n(2) by (simp flip: n_def)
qed

theorem GetRandomString_spec_witness:
  "\<exists>s buffer' seed'. GetRandomString 100 (replicate 64 CHR ''x'') 1 = Inr (s, buffer', seed')
     \<and> length buffer' = 64 \<and> length s = min 100 64 \<and> set s \<subseteq> set random_chars"
  by (rule GetRandomString_spec) simp

section \<open>The HMAC context\<close>

text \<open>
  \<open>hmacSha1Ctx\<close> is a raw pointer: null before \<open>ClassInit\<close>, an allocated OpenSSL context after
  it, and, since \<open>ClassDestroy\<close> frees the context without resetting the pointer, dangling after
  that. \<open>HMAC_CTX_new\<close> may fail and return null; its outcome is the argument \<open>alloc_ok\<close>.
\<close>

datatype hmac_ctx = Ctx_Null | Ctx_Live | Ctx_Dangling

record crypto =
  seed :: u32
  hmacSha1Ctx :: hmac_ctx

definition crypto_initial :: crypto where
  "crypto_initial = \<lparr>seed = 0, hmacSha1Ctx = Ctx_Null\<rparr>"

definition ClassInit :: "u64 \<Rightarrow> bool \<Rightarrow> crypto \<Rightarrow> crypto" where
  "ClassInit seed_address alloc_ok c =
     (let c = c\<lparr>seed := ucast seed_address\<rparr>
      in if hmacSha1Ctx c = Ctx_Null
         then c\<lparr>hmacSha1Ctx := (if alloc_ok then Ctx_Live else Ctx_Null)\<rparr>
         else c)"

definition ClassDestroy :: "crypto \<Rightarrow> crypto res" where
  "ClassDestroy c =
     (case hmacSha1Ctx c of
        Ctx_Null \<Rightarrow> Inr c
      | Ctx_Live \<Rightarrow> Inr (c\<lparr>hmacSha1Ctx := Ctx_Dangling\<rparr>)
      | Ctx_Dangling \<Rightarrow> Inl Double_Free)"

text \<open>\<open>hmac key message\<close> is the 20-byte HMAC-SHA1 value that OpenSSL computes.\<close>

definition GetHmacShA1 ::
  "(bytes \<Rightarrow> bytes \<Rightarrow> bytes) \<Rightarrow> crypto \<Rightarrow> bytes \<Rightarrow> bytes \<Rightarrow> nat \<Rightarrow> bytes res" where
  "GetHmacShA1 hmac c key data len =
     (case hmacSha1Ctx c of
        Ctx_Null \<Rightarrow> Inl Null_Deref
      | Ctx_Dangling \<Rightarrow> Inl Use_After_Free
      | Ctx_Live \<Rightarrow> bindR (rd_block data 0 len) (\<lambda>msg. Inr (hmac key msg)))"

lemma GetHmacShA1_live:
  "hmacSha1Ctx c = Ctx_Live \<Longrightarrow> len \<le> length data \<Longrightarrow>
     GetHmacShA1 hmac c key data len = Inr (hmac key (take len data))"
  by (simp add: GetHmacShA1_def)

text \<open>The context works from initialisation to destruction; after a destruction the dangling
  pointer is neither renewed by another \<open>ClassInit\<close> nor safe to use or to destroy again.\<close>

theorem hmac_context_lifecycle:
  "GetHmacShA1 hmac (ClassInit a True crypto_initial) key [] 0 = Inr (hmac key [])
   \<and> (\<exists>c. ClassDestroy (ClassInit a True crypto_initial) = Inr c
        \<and> GetHmacShA1 hmac (ClassInit b True c) key data len = Inl Use_After_Free
        \<and> ClassDestroy (ClassInit b True c) = Inl Double_Free)"
  by (simp add: GetHmacShA1_def ClassDestroy_def ClassInit_def crypto_initial_def Let_def)

end
