(* ===== verification/Stun_Message.thy ===== *)
theory Stun_Message
  imports Crypto_Ops Ip_Addr
begin

text \<open>
  The class \<open>Stun\<close> of \<open>src/Stun.h\<close>: its enumerations, the object with its constructor and
  accessors, and the recognition of STUN packets by \<open>IsStun\<close>.

  Pointers of the object into the message buffer are kept relative to it: \<open>messageIntegrity\<close> is
  the offset of the attribute value in \<open>data\<close>, and \<open>transactionId\<close> the twelve bytes that the
  pointer designates, which neither \<open>Parse\<close> nor \<open>CheckAuthentication\<close> changes. \<open>None\<close> stands for
  a null pointer.
\<close>

section \<open>Enumerations\<close>

datatype Class = REQUEST | INDICATION | SUCCESS_RESPONSE | ERROR_RESPONSE

fun class_code :: "Class \<Rightarrow> u16" where
  "class_code REQUEST = 0"
| "class_code INDICATION = 1"
| "class_code SUCCESS_RESPONSE = 2"
| "class_code ERROR_RESPONSE = 3"

definition class_of_code :: "u16 \<Rightarrow> Class" where
  "class_of_code c =
     (if c = 0 then REQUEST else if c = 1 then INDICATION
      else if c = 2 then SUCCESS_RESPONSE else ERROR_RESPONSE)"

text \<open>A method is any 16-bit value; only \<open>BINDING\<close> has a name.\<close>

definition BINDING :: u16 where "BINDING = 1"

datatype Attribute = MAPPED_ADDRESS | USERNAME | MESSAGE_INTEGRITY | ERROR_CODE
  | UNKNOWN_ATTRIBUTES | REALM | NONCE | XOR_MAPPED_ADDRESS | PRIORITY | USE_CANDIDATE
  | SOFTWARE | ALTERNATE_SERVER | FINGERPRINT | ICE_CONTROLLED | ICE_CONTROLLING
  | Other_Attribute u16

fun attribute_code :: "Attribute \<Rightarrow> u16" where
  "attribute_code MAPPED_ADDRESS = 0x0001"
| "attribute_code USERNAME = 0x0006"
| "attribute_code MESSAGE_INTEGRITY = 0x0008"
| "attribute_code ERROR_CODE = 0x0009"
| "attribute_code UNKNOWN_ATTRIBUTES = 0x000A"
| "attribute_code REALM = 0x0014"
| "attribute_code NONCE = 0x0015"
| "attribute_code XOR_MAPPED_ADDRESS = 0x0020"
| "attribute_code PRIORITY = 0x0024"
| "attribute_code USE_CANDIDATE = 0x0025"
| "attribute_code SOFTWARE = 0x8022"
| "attribute_code ALTERNATE_SERVER = 0x8023"
| "attribute_code FINGERPRINT = 0x8028"
| "attribute_code ICE_CONTROLLED = 0x8029"
| "attribute_code ICE_CONTROLLING = 0x802A"
| "attribute_code (Other_Attribute c) = c"

text \<open>The cast of a 16-bit value to \<open>Attribute\<close>; values without a name stay as they are.\<close>

definition known_attributes :: "Attribute list" where
  "known_attributes =
     [MAPPED_ADDRESS, USERNAME, MESSAGE_INTEGRITY, ERROR_CODE, UNKNOWN_ATTRIBUTES, REALM, NONCE,
      XOR_MAPPED_ADDRESS, PRIORITY, USE_CANDIDATE, SOFTWARE, ALTERNATE_SERVER, FINGERPRINT,
      ICE_CONTROLLED, ICE_CONTROLLING]"

definition attribute_of_code :: "u16 \<Rightarrow> Attribute" where
  "attribute_of_code c =
     (case List.find (\<lambda>a. attribute_code a = c) known_attributes of
        Some a \<Rightarrow> a | None \<Rightarrow> Other_Attribute c)"

lemma class_of_code_class_code [simp]: "class_of_code (class_code k) = k"
  by (cases k) (simp_all add: class_of_code_def)

lemma attribute_of_code_simps [simp]:
  "attribute_of_code 0x0006 = USERNAME" "attribute_of_code 0x0008 = MESSAGE_INTEGRITY"
  "attribute_of_code 0x0009 = ERROR_CODE" "attribute_of_code 0x0020 = XOR_MAPPED_ADDRESS"
  "attribute_of_code 0x0024 = PRIORITY" "attribute_of_code 0x0025 = USE_CANDIDATE"
  "attribute_of_code 0x8028 = FINGERPRINT" "attribute_of_code 0x8029 = ICE_CONTROLLED"
  "attribute_of_code 0x802A = ICE_CONTROLLING"
  by (simp_all add: attribute_of_code_def known_attributes_def)

lemma attribute_code_of_code [simp]: "attribute_code (attribute_of_code c) = c"
  by (auto simp: attribute_of_code_def find_Some_iff split: option.split)

datatype Authentication = Auth_OK | UNAUTHORIZED | BAD_REQUEST

section \<open>Texts and bytes\<close>

text \<open>\<open>reinterpret_cast\<close> between \<open>uint8_t\<close> and \<open>char\<close>.\<close>

definition byte_to_char :: "u8 \<Rightarrow> char" where
  "byte_to_char b = char_of (unat b)"

definition char_to_byte :: "char \<Rightarrow> u8" where
  "char_to_byte c = word_of_nat (of_char c)"

definition string_of_bytes :: "bytes \<Rightarrow> string" where
  "string_of_bytes bs = map byte_to_char bs"

definition bytes_of_string :: "string \<Rightarrow> bytes" where
  "bytes_of_string s = map char_to_byte s"

lemma of_char_less [simp]: "of_char c < (256 :: nat)"
  by (cases c) (simp add: of_char_def split: if_splits)

lemma byte_char_inverse [simp]: "byte_to_char (char_to_byte c) = c"
  by (simp add: byte_to_char_def char_to_byte_def unat_of_nat)

lemma string_of_bytes_of_string [simp]: "string_of_bytes (bytes_of_string s) = s"
  by (simp add: string_of_bytes_def bytes_of_string_def comp_def)

lemma length_bytes_of_string [simp]: "length (bytes_of_string s) = length s"
  by (simp add: bytes_of_string_def)

section \<open>The object\<close>

record stun =
  klass :: Class
  stun_method :: u16
  transactionId :: bytes
  stun_data :: "bytes option"
  stun_size :: nat
  username :: string
  priority :: u32
  iceControlling :: u64
  iceControlled :: u64
  hasUseCandidate :: bool
  messageIntegrity :: "nat option"
  hasFingerprint :: bool
  xorMappedAddress :: "sockaddr option"
  errorCode :: u16
  password :: string

definition Stun :: "Class \<Rightarrow> u16 \<Rightarrow> bytes \<Rightarrow> bytes option \<Rightarrow> nat \<Rightarrow> stun" where
  "Stun k m tid d sz =
     \<lparr>klass = k, stun_method = m, transactionId = tid, stun_data = d, stun_size = sz,
      username = '''', priority = 0, iceControlling = 0, iceControlled = 0,
      hasUseCandidate = False, messageIntegrity = None, hasFingerprint = False,
      xorMappedAddress = None, errorCode = 0, password = ''''\<rparr>"

definition SetUsername :: "bytes \<Rightarrow> stun \<Rightarrow> stun" where
  "SetUsername name s = s\<lparr>username := string_of_bytes name\<rparr>"

definition SetPriority :: "u32 \<Rightarrow> stun \<Rightarrow> stun" where
  "SetPriority p s = s\<lparr>priority := p\<rparr>"

definition SetIceControlling :: "u64 \<Rightarrow> stun \<Rightarrow> stun" where
  "SetIceControlling v s = s\<lparr>iceControlling := v\<rparr>"

definition SetIceControlled :: "u64 \<Rightarrow> stun \<Rightarrow> stun" where
  "SetIceControlled v s = s\<lparr>iceControlled := v\<rparr>"

definition SetUseCandidate :: "stun \<Rightarrow> stun" where
  "SetUseCandidate s = s\<lparr>hasUseCandidate := True\<rparr>"

definition SetXorMappedAddress :: "sockaddr \<Rightarrow> stun \<Rightarrow> stun" where
  "SetXorMappedAddress a s = s\<lparr>xorMappedAddress := Some a\<rparr>"

definition SetErrorCode :: "u16 \<Rightarrow> stun \<Rightarrow> stun" where
  "SetErrorCode e s = s\<lparr>errorCode := e\<rparr>"

definition SetMessageIntegrity :: "nat option \<Rightarrow> stun \<Rightarrow> stun" where
  "SetMessageIntegrity i s = s\<lparr>messageIntegrity := i\<rparr>"

definition SetFingerprint :: "stun \<Rightarrow> stun" where
  "SetFingerprint s = s\<lparr>hasFingerprint := True\<rparr>"

text \<open>The accessors; \<open>GetClass\<close>, \<open>GetMethod\<close> and \<open>GetUsername\<close> are what the server dispatches on.\<close>

definition GetClass :: "stun \<Rightarrow> Class" where [simp]: "GetClass s = klass s"
definition GetMethod :: "stun \<Rightarrow> u16" where [simp]: "GetMethod s = stun_method s"
definition GetData :: "stun \<Rightarrow> bytes option" where [simp]: "GetData s = stun_data s"
definition GetSize :: "stun \<Rightarrow> nat" where [simp]: "GetSize s = stun_size s"
definition GetUsername :: "stun \<Rightarrow> string" where [simp]: "GetUsername s = username s"
definition GetPriority :: "stun \<Rightarrow> u32" where [simp]: "GetPriority s = priority s"
definition GetIceControlling :: "stun \<Rightarrow> u64" where [simp]: "GetIceControlling s = iceControlling s"
definition GetIceControlled :: "stun \<Rightarrow> u64" where [simp]: "GetIceControlled s = iceControlled s"
definition HasUseCandidate :: "stun \<Rightarrow> bool" where [simp]: "HasUseCandidate s = hasUseCandidate s"
definition GetErrorCode :: "stun \<Rightarrow> u16" where [simp]: "GetErrorCode s = errorCode s"
definition HasFingerprint :: "stun \<Rightarrow> bool" where [simp]: "HasFingerprint s = hasFingerprint s"

definition HasMessageIntegrity :: "stun \<Rightarrow> bool" where
  "HasMessageIntegrity s = (messageIntegrity s \<noteq> None)"

lemmas stun_setters = SetUsername_def SetPriority_def SetIceControlling_def SetIceControlled_def
  SetUseCandidate_def SetXorMappedAddress_def SetErrorCode_def SetMessageIntegrity_def
  SetFingerprint_def

definition CreateSuccessResponse :: "stun \<Rightarrow> stun" where
  "CreateSuccessResponse s = Stun SUCCESS_RESPONSE (stun_method s) (transactionId s) None 0"

definition CreateErrorResponse :: "u16 \<Rightarrow> stun \<Rightarrow> stun" where
  "CreateErrorResponse code s =
     SetErrorCode code (Stun ERROR_RESPONSE (stun_method s) (transactionId s) None 0)"

definition Authenticate :: "string \<Rightarrow> stun \<Rightarrow> stun" where
  "Authenticate pwd s = (if klass s = ERROR_RESPONSE then s else s\<lparr>password := pwd\<rparr>)"

section \<open>Recognition\<close>

definition magicCookie :: bytes where
  "magicCookie = [0x21, 0x12, 0xA4, 0x42]"

lemma length_magicCookie [simp]: "length magicCookie = 4"
  by (simp add: magicCookie_def)

definition IsStun :: "bytes \<Rightarrow> nat \<Rightarrow> bool res" where
  "IsStun data len =
     (if len < 20 then Inr False
      else bindR (rd data 0) (\<lambda>b0. if \<not> b0 < 3 then Inr False
      else bindR (rd data 4) (\<lambda>b4. if b4 \<noteq> magicCookie ! 0 then Inr False
      else bindR (rd data 5) (\<lambda>b5. if b5 \<noteq> magicCookie ! 1 then Inr False
      else bindR (rd data 6) (\<lambda>b6. if b6 \<noteq> magicCookie ! 2 then Inr False
      else bindR (rd data 7) (\<lambda>b7. Inr (b7 = magicCookie ! 3)))))))"

lemma IsStun_eq:
  "len \<le> length data \<Longrightarrow>
     IsStun data len = Inr (20 \<le> len \<and> data ! 0 < 3 \<and> take 4 (drop 4 data) = magicCookie)"
proof -
  assume len: "len \<le> length data"
  show ?thesis
  proof (cases "20 \<le> len")
    case True
    with len have "take 4 (drop 4 data) = [data ! 4, data ! 5, data ! 6, data ! 7]"
      by (intro nth_equalityI) (auto simp: numeral_eq_Suc less_Suc_eq)
    moreover have "rd data i = Inr (data ! i)" if "i < 20" for i
      using that True len by (intro rd_Inr) linarith
    ultimately show ?thesis using True by (auto simp: IsStun_def magicCookie_def)
  qed (simp add: IsStun_def)
qed

end
