(* ===== verification/Stun_Parse.thy ===== *)
theory Stun_Parse
  imports Stun_Message
begin

text \<open>
  \<open>Stun::Parse\<close> of \<open>src/Stun.cpp\<close>: the loop over the attributes of a received message. The
  result type separates the ways the call can end: \<open>None\<close> when the loop never ends,
  \<open>Some (Inl f)\<close> for a fault, \<open>Some (Inr None)\<close> when the packet is deleted and a null pointer
  returned, \<open>Some (Inr (Some p))\<close> when the packet is accepted.

  The next position is computed in 16 bits, as in the source, so that the loop is a
  \<open>partial_function\<close>. It ends on every message shorter than \<open>2 ^ 16\<close> bytes, and does not end
  on some longer ones.
\<close>

section \<open>The attribute loop\<close>

record parse_state =
  packet :: stun
  seenIntegrity :: bool
  seenFingerprint :: bool
  fingerprintAttrPos :: "nat option"
  fingerprint :: "u32 option"

text \<open>
  The switch over the attribute type: the value starts at \<open>vpos\<close> and the attribute at \<open>pos\<close>;
  \<open>None\<close> is the deletion of the packet.
\<close>

definition parse_attribute ::
  "bytes \<Rightarrow> nat \<Rightarrow> nat \<Rightarrow> Attribute \<Rightarrow> nat \<Rightarrow> parse_state \<Rightarrow> parse_state option res" where
  "parse_attribute data pos vpos attrType attrLength st =
     (case attrType of
        USERNAME \<Rightarrow>
          bindR (rd_block data vpos attrLength) (\<lambda>name.
            Inr (Some (st\<lparr>packet := SetUsername name (packet st)\<rparr>)))
      | PRIORITY \<Rightarrow>
          if attrLength \<noteq> 4 then Inr None
          else bindR (Get4Bytes data vpos) (\<lambda>v.
            Inr (Some (st\<lparr>packet := SetPriority v (packet st)\<rparr>)))
      | ICE_CONTROLLING \<Rightarrow>
          if attrLength \<noteq> 8 then Inr None
          else bindR (Get8Bytes data vpos) (\<lambda>v.
            Inr (Some (st\<lparr>packet := SetIceControlling v (packet st)\<rparr>)))
      | ICE_CONTROLLED \<Rightarrow>
          if attrLength \<noteq> 8 then Inr None
          else bindR (Get8Bytes data vpos) (\<lambda>v.
            Inr (Some (st\<lparr>packet := SetIceControlled v (packet st)\<rparr>)))
      | USE_CANDIDATE \<Rightarrow>
          if attrLength \<noteq> 0 then Inr None
          else Inr (Some (st\<lparr>packet := SetUseCandidate (packet st)\<rparr>))
      | MESSAGE_INTEGRITY \<Rightarrow>
          if attrLength \<noteq> 20 then Inr None
          else Inr (Some (st\<lparr>seenIntegrity := True,
                             packet := SetMessageIntegrity (Some vpos) (packet st)\<rparr>))
      | FINGERPRINT \<Rightarrow>
          if attrLength \<noteq> 4 then Inr None
          else bindR (Get4Bytes data vpos) (\<lambda>v.
            Inr (Some (st\<lparr>seenFingerprint := True, fingerprintAttrPos := Some pos,
                          fingerprint := Some v, packet := SetFingerprint (packet st)\<rparr>)))
      | ERROR_CODE \<Rightarrow>
          if attrLength < 4 then Inr None
          else bindR (Get1Byte data (vpos + 2)) (\<lambda>errorClass.
               bindR (Get1Byte data (vpos + 3)) (\<lambda>errorNumber.
            Inr (Some (st\<lparr>packet :=
              SetErrorCode (ucast errorClass * 100 + ucast errorNumber) (packet st)\<rparr>))))
      | _ \<Rightarrow> Inr (Some st))"

text \<open>One iteration: the new position and state, or the deletion of the packet.\<close>

definition parse_body ::
  "bytes \<Rightarrow> nat \<Rightarrow> nat \<Rightarrow> parse_state \<Rightarrow> (nat \<times> parse_state) option res" where
  "parse_body data len pos st =
     bindR (Get2Bytes data pos) (\<lambda>t. let attrType = attribute_of_code t in
     bindR (Get2Bytes data (pos + 2)) (\<lambda>l. let attrLength = unat l in
       if pos + 4 + attrLength > len then Inr None
       else if seenFingerprint st then Inr None
       else if seenIntegrity st \<and> attrType \<noteq> FINGERPRINT then Inr None
       else bindR (parse_attribute data pos (pos + 4) attrType attrLength st) (\<lambda>r.
         case r of
           None \<Rightarrow> Inr None
         | Some st' \<Rightarrow>
             Inr (Some (unat (PadTo4Bytes16 (word_of_nat (pos + 4 + attrLength))), st')))))"

partial_function (option) parse_loop ::
  "bytes \<Rightarrow> nat \<Rightarrow> nat \<Rightarrow> parse_state \<Rightarrow> (nat \<times> parse_state) option res option" where
  "parse_loop data len pos st =
     (if pos + 4 \<le> len
      then (case parse_body data len pos st of
              Inl e \<Rightarrow> Some (Inl e)
            | Inr None \<Rightarrow> Some (Inr None)
            | Inr (Some (pos', st')) \<Rightarrow> parse_loop data len pos' st')
      else Some (Inr (Some (pos, st))))"

declare parse_loop.simps [code]

text \<open>After the loop: the end of the message must be met exactly, and the fingerprint hold.\<close>

definition parse_finish :: "bytes \<Rightarrow> nat \<Rightarrow> nat \<times> parse_state \<Rightarrow> stun option res" where
  "parse_finish data len = (\<lambda>(pos, st).
     if pos \<noteq> len then Inr None
     else if seenFingerprint st
     then (case (fingerprintAttrPos st, fingerprint st) of
             (Some fpos, Some fp) \<Rightarrow>
               bindR (GetCRC32 data fpos) (\<lambda>crc.
                 Inr (if fp \<noteq> crc XOR 0x5354554e then None else Some (packet st)))
           | _ \<Rightarrow> Inl Uninitialised)
     else Inr (Some (packet st)))"

definition parse_method :: "u16 \<Rightarrow> u16" where
  "parse_method msgType =
     (msgType AND 0x000f) OR drop_bit 1 (msgType AND 0x00e0) OR drop_bit 2 (msgType AND 0x3E00)"

definition parse_class :: "u8 \<Rightarrow> u8 \<Rightarrow> u16" where
  "parse_class b0 b1 = push_bit 1 (ucast b0 AND 0x01) OR drop_bit 4 (ucast b1 AND 0x10)"

definition parse_init :: "stun \<Rightarrow> parse_state" where
  "parse_init p =
     \<lparr>packet = p, seenIntegrity = False, seenFingerprint = False, fingerprintAttrPos = None,
      fingerprint = None\<rparr>"

text \<open>
  The header: \<open>Inr None\<close> when the message is refused, else the new packet. The packet's data is
  the buffer itself, and its transaction identifier the bytes 8 to 19.
\<close>

definition parse_header :: "bytes \<Rightarrow> nat \<Rightarrow> stun option res" where
  "parse_header data len =
     bindR (IsStun data len) (\<lambda>is.
       if \<not> is then Inr None
       else bindR (Get2Bytes data 0) (\<lambda>msgType. bindR (Get2Bytes data 2) (\<lambda>msgLength.
         if unat msgLength \<noteq> len - 20 \<or> msgLength AND 0x03 \<noteq> 0 then Inr None
         else bindR (rd data 0) (\<lambda>b0. bindR (rd data 1) (\<lambda>b1. bindR (rd_block data 8 12) (\<lambda>tid.
           Inr (Some (Stun (class_of_code (parse_class b0 b1)) (parse_method msgType) tid
                        (Some data) len))))))))"

definition Parse :: "bytes \<Rightarrow> nat \<Rightarrow> stun option res option" where
  "Parse data len =
     (case parse_header data len of
        Inl e \<Rightarrow> Some (Inl e)
      | Inr None \<Rightarrow> Some (Inr None)
      | Inr (Some p) \<Rightarrow>
          (case parse_loop data len 20 (parse_init p) of
             None \<Rightarrow> None
           | Some (Inl e) \<Rightarrow> Some (Inl e)
           | Some (Inr None) \<Rightarrow> Some (Inr None)
           | Some (Inr (Some r)) \<Rightarrow> Some (parse_finish data len r)))"

end
