(* ===== verification/Stun_Reference.thy ===== *)
theory Stun_Reference
  imports Stun_Parse
begin

text \<open>
  A reference for \<open>Stun::Parse\<close> that says what a message means, in two phases: the bytes after
  the header are a sequence of type-length-value attributes, each padded to a multiple of four
  bytes, and the attributes are then interpreted one after the other. The in-place parser of
  the code computes the same function on every buffer below \<open>2 ^ 16\<close> bytes, which also shows
  that it ends and reads no byte outside the message. Above that bound the 16-bit position wraps
  around, and a message of 65552 bytes is shown on which it never ends.
\<close>

section \<open>Attributes as type, value and padding\<close>

type_synonym tlv = "u16 \<times> bytes \<times> bytes"

definition pad_to_4 :: "nat \<Rightarrow> nat" where
  "pad_to_4 n = (n + 3) div 4 * 4"

lemma pad_to_4_bounds: "n \<le> pad_to_4 n" "pad_to_4 n < n + 4"
proof -
  have "(n + 3) div 4 * 4 + (n + 3) mod 4 = n + 3" by simp
  moreover have "(n + 3) mod 4 < 4" by simp
  ultimately show "n \<le> pad_to_4 n" "pad_to_4 n < n + 4"
    unfolding pad_to_4_def by linarith+
qed

lemma pad_to_4_mod [simp]: "pad_to_4 n mod 4 = 0"
  by (simp add: pad_to_4_def)

lemma pad_to_4_least: "n \<le> m \<Longrightarrow> m mod 4 = 0 \<Longrightarrow> pad_to_4 n \<le> m"
  using pad_to_4_bounds(2) [of n] pad_to_4_mod [of n] by presburger

lemma pad_to_4_add: "pos mod 4 = 0 \<Longrightarrow> pad_to_4 (pos + n) = pos + pad_to_4 n"
proof -
  assume "pos mod 4 = 0"
  then obtain q where "pos = 4 * q" by (auto simp: mod_eq_0_iff_dvd)
  moreover have "(4 * q + (n + 3)) div 4 = q + (n + 3) div 4" by simp
  ultimately show ?thesis by (simp add: pad_to_4_def add.assoc)
qed

lemma unat_PadTo4Bytes16_small:
  "pad_to_4 n < 2 ^ 16 \<Longrightarrow> unat (PadTo4Bytes16 (word_of_nat n)) = pad_to_4 n"
  using pad_to_4_bounds(1) [of n]
  by (simp add: unat_PadTo4Bytes16 unat_of_nat flip: pad_to_4_def)

fun enc_tlv :: "tlv \<Rightarrow> bytes" where
  "enc_tlv (t, v, p) = be2 t @ be2 (word_of_nat (length v)) @ v @ p"

fun tlv_ok :: "tlv \<Rightarrow> bool" where
  "tlv_ok (t, v, p) \<longleftrightarrow> length v < 2 ^ 16 \<and> length p = pad_to_4 (length v) - length v"

lemma length_enc_tlv: "tlv_ok (t, v, p) \<Longrightarrow> length (enc_tlv (t, v, p)) = 4 + pad_to_4 (length v)"
  using pad_to_4_bounds(1) [of "length v"] by simp

function tlvs_of :: "bytes \<Rightarrow> tlv list option" where
  "tlvs_of bs =
     (if bs = [] then Some []
      else if length bs < 4 then None
      else let n = unat (de2 (take 2 (drop 2 bs))); m = pad_to_4 n
           in if length bs < 4 + m then None
              else map_option
                     (Cons (de2 (take 2 bs), take n (drop 4 bs), take (m - n) (drop (4 + n) bs)))
                     (tlvs_of (drop (4 + m) bs)))"
  by pat_completeness auto
termination
  by (relation "measure length") auto

declare tlvs_of.simps [simp del]

text \<open>The decoder inverts the encoding of every sequence of well-formed attributes.\<close>

lemma tlvs_of_enc:
  assumes "tlv_ok (t, v, p)"
  shows "tlvs_of (enc_tlv (t, v, p) @ bs) = map_option (Cons (t, v, p)) (tlvs_of bs)"
proof -
  let ?bs = "enc_tlv (t, v, p) @ bs"
  have n: "unat (de2 (take 2 (drop 2 ?bs))) = length v"
    using assms by (simp add: unat_of_nat)
  have m: "length ?bs = 4 + pad_to_4 (length v) + length bs"
    using length_enc_tlv [OF assms] by simp
  have "drop (4 + pad_to_4 (length v)) ?bs = bs"
    using length_enc_tlv [OF assms] by simp
  moreover have "?bs \<noteq> []" "\<not> length ?bs < 4" "\<not> length ?bs < 4 + pad_to_4 (length v)"
    using m by (auto simp del: enc_tlv.simps)
  moreover have "de2 (take 2 ?bs) = t" "take (length v) (drop 4 ?bs) = v"
    "take (pad_to_4 (length v) - length v) (drop (4 + length v) ?bs) = p"
    using assms by simp_all
  ultimately show ?thesis
    by (simp only: tlvs_of.simps [of ?bs] n Let_def if_False if_True)
qed

lemma tlvs_of_concat: "list_all tlv_ok ts \<Longrightarrow> tlvs_of (concat (map enc_tlv ts)) = Some ts"
proof (induction ts)
  case Nil
  then show ?case by (simp add: tlvs_of.simps)
next
  case (Cons a ts)
  then show ?case by (cases a) (simp add: tlvs_of_enc del: enc_tlv.simps tlv_ok.simps)
qed

section \<open>Interpretation of the attributes\<close>

definition ref_attribute :: "nat \<Rightarrow> Attribute \<Rightarrow> bytes \<Rightarrow> parse_state \<Rightarrow> parse_state option" where
  "ref_attribute pos a v st =
     (case a of
        USERNAME \<Rightarrow> Some (st\<lparr>packet := SetUsername v (packet st)\<rparr>)
      | PRIORITY \<Rightarrow>
          if length v \<noteq> 4 then None else Some (st\<lparr>packet := SetPriority (de4 v) (packet st)\<rparr>)
      | ICE_CONTROLLING \<Rightarrow>
          if length v \<noteq> 8 then None else Some (st\<lparr>packet := SetIceControlling (de8 v) (packet st)\<rparr>)
      | ICE_CONTROLLED \<Rightarrow>
          if length v \<noteq> 8 then None else Some (st\<lparr>packet := SetIceControlled (de8 v) (packet st)\<rparr>)
      | USE_CANDIDATE \<Rightarrow>
          if v \<noteq> [] then None else Some (st\<lparr>packet := SetUseCandidate (packet st)\<rparr>)
      | MESSAGE_INTEGRITY \<Rightarrow>
          if length v \<noteq> 20 then None
          else Some (st\<lparr>seenIntegrity := True, packet := SetMessageIntegrity (Some (pos + 4)) (packet st)\<rparr>)
      | FINGERPRINT \<Rightarrow>
          if length v \<noteq> 4 then None
          else Some (st\<lparr>seenFingerprint := True, fingerprintAttrPos := Some pos,
                        fingerprint := Some (de4 v), packet := SetFingerprint (packet st)\<rparr>)
      | ERROR_CODE \<Rightarrow>
          if length v < 4 then None
          else Some (st\<lparr>packet := SetErrorCode (ucast (v ! 2) * 100 + ucast (v ! 3)) (packet st)\<rparr>)
      | _ \<Rightarrow> Some st)"

fun ref_run :: "nat \<Rightarrow> tlv list \<Rightarrow> parse_state \<Rightarrow> parse_state option" where
  "ref_run pos [] st = Some st"
| "ref_run pos ((t, v, p) # ts) st =
     (let a = attribute_of_code t
      in if seenFingerprint st \<or> (seenIntegrity st \<and> a \<noteq> FINGERPRINT) then None
         else Option.bind (ref_attribute pos a v st) (ref_run (pos + 4 + pad_to_4 (length v)) ts))"

definition header_ok :: "bytes \<Rightarrow> nat \<Rightarrow> bool" where
  "header_ok data len \<longleftrightarrow>
     20 \<le> len \<and> data ! 0 < 3 \<and> take 4 (drop 4 data) = magicCookie
     \<and> unat (de2 (take 2 (drop 2 data))) = len - 20 \<and> len mod 4 = 0"

definition ref_packet :: "bytes \<Rightarrow> nat \<Rightarrow> stun" where
  "ref_packet data len =
     Stun (class_of_code (parse_class (data ! 0) (data ! 1))) (parse_method (de2 (take 2 data)))
       (take 12 (drop 8 data)) (Some data) len"

definition ref_fingerprint_ok :: "bytes \<Rightarrow> parse_state \<Rightarrow> bool" where
  "ref_fingerprint_ok data st \<longleftrightarrow>
     (seenFingerprint st \<longrightarrow>
        fingerprint st = Some (crc32_ref (take (the (fingerprintAttrPos st)) data) XOR 0x5354554e))"

definition ref_parse :: "bytes \<Rightarrow> nat \<Rightarrow> stun option" where
  "ref_parse data len =
     (if \<not> header_ok data len then None
      else Option.bind (tlvs_of (take (len - 20) (drop 20 data))) (\<lambda>ts.
           Option.bind (ref_run 20 ts (parse_init (ref_packet data len))) (\<lambda>st.
           if ref_fingerprint_ok data st then Some (packet st) else None)))"

section \<open>The loop computes the reference\<close>

lemma parse_attribute_ref:
  assumes "pos + 4 + n \<le> length data"
  shows "parse_attribute data pos (pos + 4) a n st
       = Inr (ref_attribute pos a (take n (drop (pos + 4) data)) st)"
  using assms
  by (cases a)
    (auto simp: parse_attribute_def ref_attribute_def codec_simps rd_block_def hd_drop_conv_nth
      take_Suc ac_simps)

lemma parse_body_ref:
  assumes "pos + 4 \<le> len" "len \<le> length data"
    and "n = unat (de2 (take 2 (drop (pos + 2) data)))"
    and "a = attribute_of_code (de2 (take 2 (drop pos data)))"
  shows "parse_body data len pos st =
     Inr (if pos + 4 + n > len \<or> seenFingerprint st \<or> (seenIntegrity st \<and> a \<noteq> FINGERPRINT) then None
          else map_option (\<lambda>st'. (unat (PadTo4Bytes16 (word_of_nat (pos + 4 + n))), st'))
                 (ref_attribute pos a (take n (drop (pos + 4) data)) st))"
proof -
  have "Get2Bytes data pos = Inr (de2 (take 2 (drop pos data)))"
    "Get2Bytes data (pos + 2) = Inr (de2 (take 2 (drop (pos + 2) data)))"
    using assms(1,2) by (simp_all add: codec_simps)
  then have "parse_body data len pos st =
     (if pos + 4 + n > len then Inr None
      else if seenFingerprint st then Inr None
      else if seenIntegrity st \<and> a \<noteq> FINGERPRINT then Inr None
      else bindR (parse_attribute data pos (pos + 4) a n st) (\<lambda>r. case r of
          None \<Rightarrow> Inr None
        | Some st' \<Rightarrow> Inr (Some (unat (PadTo4Bytes16 (word_of_nat (pos + 4 + n))), st'))))"
    by (simp only: parse_body_def Let_def bindR_Inr assms(3,4))
  also have "\<dots> = Inr (if pos + 4 + n > len \<or> seenFingerprint st \<or> (seenIntegrity st \<and> a \<noteq> FINGERPRINT)
      then None
      else map_option (\<lambda>st'. (unat (PadTo4Bytes16 (word_of_nat (pos + 4 + n))), st'))
             (ref_attribute pos a (take n (drop (pos + 4) data)) st))"
    using assms(2) by (auto simp: parse_attribute_ref split: option.splits)
  finally show ?thesis .
qed

text \<open>One unfolding of the decoder on the part of the buffer that is still to be read.\<close>

lemma tlvs_of_window:
  assumes "pos + 4 \<le> len" "len \<le> length data"
    and "n = unat (de2 (take 2 (drop (pos + 2) data)))" "m = pad_to_4 n"
  shows "tlvs_of (take (len - pos) (drop pos data)) =
     (if len < pos + 4 + m then None
      else map_option (Cons (de2 (take 2 (drop pos data)), take n (drop (pos + 4) data),
                             take (m - n) (drop (pos + 4 + n) data)))
             (tlvs_of (take (len - (pos + 4 + m)) (drop (pos + 4 + m) data))))"
proof -
  let ?bs = "take (len - pos) (drop pos data)"
  have len: "length ?bs = len - pos" using assms(1,2) by simp
  have "take 2 ?bs = take 2 (drop pos data)" "take 2 (drop 2 ?bs) = take 2 (drop (pos + 2) data)"
    using assms(1) by (simp_all add: drop_take min_def ac_simps)
  then have n: "unat (de2 (take 2 (drop 2 ?bs))) = n" and t: "de2 (take 2 ?bs) = de2 (take 2 (drop pos data))"
    using assms(3) by simp_all
  have "n \<le> m" using assms(4) pad_to_4_bounds(1) by simp
  have v: "take n (drop 4 ?bs) = take n (drop (pos + 4) data)"
    "take (m - n) (drop (4 + n) ?bs) = take (m - n) (drop (pos + 4 + n) data)"
    "drop (4 + m) ?bs = take (len - (pos + 4 + m)) (drop (pos + 4 + m) data)"
    if "pos + 4 + m \<le> len"
    using that \<open>n \<le> m\<close> by (simp_all add: drop_take min_def ac_simps)
  have "?bs \<noteq> []" "\<not> length ?bs < 4" using len assms(1) by auto
  then have "tlvs_of ?bs =
     (if length ?bs < 4 + m then None
      else map_option (Cons (de2 (take 2 ?bs), take n (drop 4 ?bs), take (m - n) (drop (4 + n) ?bs)))
             (tlvs_of (drop (4 + m) ?bs)))"
    by (simp only: tlvs_of.simps [of ?bs] n Let_def if_False assms(4) [symmetric])
  moreover have "length ?bs < 4 + m \<longleftrightarrow> len < pos + 4 + m" unfolding len using assms(1) by linarith
  ultimately show ?thesis using v t by (cases "len < pos + 4 + m") simp_all
qed

lemma parse_loop_ref:
  assumes "len \<le> length data" "len < 2 ^ 16" "len mod 4 = 0" "pos mod 4 = 0" "pos \<le> len"
  shows "parse_loop data len pos st =
     Some (Inr (Option.bind (tlvs_of (take (len - pos) (drop pos data)))
                  (\<lambda>ts. map_option (Pair len) (ref_run pos ts st))))"
  using assms(4,5)
proof (induction "len - pos" arbitrary: pos st rule: less_induct)
  case less
  show ?case
  proof (cases "pos = len")
    case True
    then show ?thesis by (simp add: parse_loop.simps [of data len len] tlvs_of.simps [of "[]"])
  next
    case False
    then have "pos + 4 \<le> len" using less.prems assms(3) by presburger
    define n where "n = unat (de2 (take 2 (drop (pos + 2) data)))"
    define a where "a = attribute_of_code (de2 (take 2 (drop pos data)))"
    define m where "m = pad_to_4 n"
    define v where "v = take n (drop (pos + 4) data)"
    note body = parse_body_ref [OF \<open>pos + 4 \<le> len\<close> assms(1) n_def a_def, of st, folded v_def]
    note tlvs = tlvs_of_window [OF \<open>pos + 4 \<le> len\<close> assms(1) n_def m_def, folded v_def]
    have nm: "n \<le> m" "m mod 4 = 0" by (simp_all add: m_def pad_to_4_bounds)
    have rest: "(len - (pos + 4)) mod 4 = 0"
      using less.prems(1) assms(3) by (simp add: dvd_diff_nat flip: dvd_eq_mod_eq_0)
    have fits: "pos + 4 + m \<le> len" if "pos + 4 + n \<le> len"
    proof -
      have "n \<le> len - (pos + 4)" using that by linarith
      then have "m \<le> len - (pos + 4)" unfolding m_def using rest by (rule pad_to_4_least)
      with \<open>pos + 4 \<le> len\<close> show ?thesis by linarith
    qed
    have jump: "unat (PadTo4Bytes16 (word_of_nat (pos + 4 + n))) = pos + 4 + m" if "pos + 4 + n \<le> len"
    proof -
      have "pad_to_4 (pos + 4 + n) = pos + 4 + m"
        unfolding m_def using less.prems(1) by (intro pad_to_4_add) (simp add: mod_add_eq)
      then show ?thesis
        using unat_PadTo4Bytes16_small [of "pos + 4 + n"] fits [OF that] assms(2) by simp
    qed
    have IH: "parse_loop data len (pos + 4 + m) st' =
        Some (Inr (Option.bind (tlvs_of (take (len - (pos + 4 + m)) (drop (pos + 4 + m) data)))
                     (\<lambda>ts. map_option (Pair len) (ref_run (pos + 4 + m) ts st'))))"
      if "pos + 4 + m \<le> len" for st'
    proof (rule less.hyps)
      show "(pos + 4 + m) mod 4 = 0"
        using nm less.prems(1) by (simp add: dvd_add flip: dvd_eq_mod_eq_0)
    qed (use that in simp_all)
    show ?thesis
    proof (cases "len < pos + 4 + n \<or> seenFingerprint st \<or> (seenIntegrity st \<and> a \<noteq> FINGERPRINT)
        \<or> ref_attribute (pos) a v st = None")
      case True
      then have "parse_loop data len pos st = Some (Inr None)"
        using \<open>pos + 4 \<le> len\<close> body by (auto simp: parse_loop.simps [of data len pos])
      moreover have "len < pos + 4 + m \<or> (\<forall>ts. ref_run pos ((de2 (take 2 (drop pos data)), v,
          take (m - n) (drop (pos + 4 + n) data)) # ts) st = None)"
        using True nm by (auto simp flip: a_def)
      ultimately show ?thesis unfolding tlvs by (auto simp: bind_eq_None_conv map_option_case split: option.split)
    next
      case False
      then obtain st' where st': "ref_attribute pos a v st = Some st'" by auto
      have "parse_body data len pos st = Inr (Some (pos + 4 + m, st'))"
        unfolding body using False st' by (auto simp: jump simp del: of_nat_add)
      then have "parse_loop data len pos st = parse_loop data len (pos + 4 + m) st'"
        using \<open>pos + 4 \<le> len\<close> by (simp add: parse_loop.simps [of data len pos])
      moreover have "pos + 4 + n \<le> length data" using False assms(1) by linarith
      then have "pad_to_4 (length v) = m" by (simp add: v_def m_def)
      ultimately show ?thesis
        using False fits st' IH unfolding tlvs
        by (auto simp: a_def [symmetric] bind_map_option comp_def)
    qed
  qed
qed

section \<open>The parser computes the reference\<close>

lemma and_3_word_eq_0: "x AND 0x03 = 0 \<longleftrightarrow> unat x mod 4 = 0" for x :: u16
  by (rule and_3_eq_0)

lemma parse_header_ref:
  assumes "len \<le> length data"
  shows "parse_header data len = Inr (if header_ok data len then Some (ref_packet data len) else None)"
proof (cases "20 \<le> len")
  case False
  then show ?thesis using assms by (simp add: parse_header_def IsStun_eq header_ok_def)
next
  case True
  have rd_i: "rd data i = Inr (data ! i)" if "i < 20" for i
    using that True assms by (intro rd_Inr) linarith
  from True assms have r: "rd data 0 = Inr (data ! 0)" "rd data 1 = Inr (data ! 1)"
      "rd_block data 8 12 = Inr (take 12 (drop 8 data))"
      "Get2Bytes data 0 = Inr (de2 (take 2 data))" "Get2Bytes data 2 = Inr (de2 (take 2 (drop 2 data)))"
    by (simp_all add: rd_i codec_simps)
  have "(len - 20) mod 4 = 0 \<longleftrightarrow> len mod 4 = 0"
    using True by presburger
  then show ?thesis
    using True r by (auto simp: parse_header_def IsStun_eq [OF assms] header_ok_def ref_packet_def
        and_3_word_eq_0)
qed

definition tlvs_length :: "tlv list \<Rightarrow> nat" where
  "tlvs_length ts = sum_list (map (\<lambda>(t, v, p). 4 + pad_to_4 (length v)) ts)"

lemma tlvs_of_length: "tlvs_of bs = Some ts \<Longrightarrow> tlvs_length ts = length bs"
proof (induction bs arbitrary: ts rule: tlvs_of.induct)
  case (1 bs)
  define n m where "n = unat (de2 (take 2 (drop 2 bs)))" and "m = pad_to_4 n"
  show ?case
  proof (cases "bs = []")
    case True
    with "1.prems" show ?thesis by (simp add: tlvs_of.simps tlvs_length_def)
  next
    case False
    with "1.prems" have len: "\<not> length bs < 4" "\<not> length bs < 4 + m"
      and "\<exists>ts'. tlvs_of (drop (4 + m) bs) = Some ts'
        \<and> ts = (de2 (take 2 bs), take n (drop 4 bs), take (m - n) (drop (4 + n) bs)) # ts'"
      by (auto simp: tlvs_of.simps [of bs] Let_def m_def n_def split: if_splits)
    then obtain ts' where ts': "tlvs_of (drop (4 + m) bs) = Some ts'"
        and ts: "ts = (de2 (take 2 bs), take n (drop 4 bs), take (m - n) (drop (4 + n) bs)) # ts'"
      by blast
    have "tlvs_length ts' = length (drop (4 + m) bs)"
      using "1.IH" [OF False len(1) n_def m_def len(2) ts'] .
    moreover have "length (take n (drop 4 bs)) = n"
      using len pad_to_4_bounds(1) [of n] by (simp add: m_def)
    ultimately show ?thesis using len by (simp add: ts tlvs_length_def m_def)
  qed
qed

text \<open>A fingerprint that was seen has a position inside the attributes and a value.\<close>

definition fingerprint_at :: "nat \<Rightarrow> parse_state \<Rightarrow> bool" where
  "fingerprint_at bound st \<longleftrightarrow>
     (seenFingerprint st \<longrightarrow> (\<exists>q f. fingerprintAttrPos st = Some q \<and> fingerprint st = Some f \<and> q \<le> bound))"

lemma ref_attribute_fingerprint:
  "ref_attribute pos a v st = Some st' \<Longrightarrow> pos \<le> bound \<Longrightarrow> fingerprint_at bound st \<Longrightarrow> fingerprint_at bound st'"
  by (cases a) (auto simp: ref_attribute_def fingerprint_at_def split: if_splits)

lemma ref_run_fingerprint:
  "ref_run pos ts st = Some st' \<Longrightarrow> fingerprint_at bound st \<Longrightarrow> pos + tlvs_length ts \<le> bound \<Longrightarrow>
     fingerprint_at bound st'"
proof (induction pos ts st rule: ref_run.induct)
  case (2 pos t v p ts st)
  then obtain st1 where st1: "ref_attribute pos (attribute_of_code t) v st = Some st1"
      and rest: "ref_run (pos + 4 + pad_to_4 (length v)) ts st1 = Some st'"
      and free: "\<not> (seenFingerprint st \<or> (seenIntegrity st \<and> attribute_of_code t \<noteq> FINGERPRINT))"
    by (auto simp: Let_def bind_eq_Some_conv split: if_splits)
  have "fingerprint_at bound st1"
    using "2.prems"(3) by (intro ref_attribute_fingerprint [OF st1 _ "2.prems"(2)]) simp
  with rest free show ?case
    using "2.prems"(3) st1 by (intro "2.IH" [OF refl free]) (simp_all add: tlvs_length_def)
qed simp

lemma parse_finish_ref:
  assumes "fingerprint_at (length data) st"
  shows "parse_finish data len (len, st) = Inr (if ref_fingerprint_ok data st then Some (packet st) else None)"
  using assms
  by (auto simp: parse_finish_def fingerprint_at_def ref_fingerprint_ok_def GetCRC32_eq)

lemma Parse_ref_parse:
  assumes "len \<le> length data" "len < 2 ^ 16"
  shows "Parse data len = Some (Inr (ref_parse data len))"
proof (cases "header_ok data len")
  case False
  then show ?thesis by (simp add: Parse_def parse_header_ref [OF assms(1)] ref_parse_def)
next
  case True
  define st0 where "st0 = parse_init (ref_packet data len)"
  have "20 \<le> len" "len mod 4 = 0" using True by (simp_all add: header_ok_def)
  then have loop: "parse_loop data len 20 st0 =
     Some (Inr (Option.bind (tlvs_of (take (len - 20) (drop 20 data)))
                  (\<lambda>ts. map_option (Pair len) (ref_run 20 ts st0))))"
    using assms by (intro parse_loop_ref) simp_all
  have "fingerprint_at (length data) st" if "tlvs_of (take (len - 20) (drop 20 data)) = Some ts"
      and "ref_run 20 ts st0 = Some st" for ts st
    using that(2)
  proof (rule ref_run_fingerprint)
    show "fingerprint_at (length data) st0" by (simp add: st0_def parse_init_def fingerprint_at_def)
    show "20 + tlvs_length ts \<le> length data"
      using tlvs_of_length [OF that(1)] \<open>20 \<le> len\<close> assms(1) by simp
  qed
  then show ?thesis
    using True loop
    by (auto simp: Parse_def parse_header_ref [OF assms(1)] ref_parse_def parse_finish_ref
        bind_eq_None_conv simp flip: st0_def split: option.splits Option.bind_splits)
qed

text \<open>C1: on every buffer, and for every message length below \<open>2 ^ 16\<close>, the parser ends without a
  fault, touches no byte outside the buffer (not even when the buffer is the message), and computes
  exactly the reference.\<close>

theorem Parse_is_reference:
  assumes "len \<le> length data" "len < 2 ^ 16"
  shows "Parse data len = Some (Inr (ref_parse data len))"
  using assms by (rule Parse_ref_parse)

theorem Parse_is_reference_witness:
  "Parse ([0, 1, 0, 4] @ magicCookie @ replicate 12 7 @ [0, 0x25, 0, 0]) 24
     = Some (Inr (Some (SetUseCandidate
         (Stun REQUEST BINDING (replicate 12 7)
           (Some ([0, 1, 0, 4] @ magicCookie @ replicate 12 7 @ [0, 0x25, 0, 0])) 24))))"
proof -
  let ?d = "[0, 1, 0, 4] @ magicCookie @ replicate 12 7 @ [0, 0x25, 0, 0]"
  have "24 \<le> length ?d" "(24::nat) < 2 ^ 16" by simp_all
  from Parse_is_reference [OF this] show ?thesis
    by (simp add: ref_parse_def header_ok_def ref_packet_def parse_class_def parse_method_def
        class_of_code_def de2_def tlvs_of.simps Let_def pad_to_4_def ref_attribute_def
        ref_fingerprint_ok_def parse_init_def stun_setters Stun_def BINDING_def magicCookie_def)
qed

section \<open>Accepted messages\<close>

abbreviation tlv_type :: "tlv \<Rightarrow> Attribute" where
  "tlv_type x \<equiv> attribute_of_code (fst x)"

fun attributes_ordered :: "tlv list \<Rightarrow> bool" where
  "attributes_ordered [] = True"
| "attributes_ordered (x # xs) =
     ((tlv_type x = FINGERPRINT \<longrightarrow> xs = [])
      \<and> (tlv_type x = MESSAGE_INTEGRITY \<longrightarrow> list_all (\<lambda>y. tlv_type y = FINGERPRINT) xs)
      \<and> attributes_ordered xs)"

lemma ref_attribute_flags:
  "ref_attribute pos a v st = Some st' \<Longrightarrow>
     (seenFingerprint st' \<longleftrightarrow> seenFingerprint st \<or> a = FINGERPRINT)
     \<and> (seenIntegrity st' \<longleftrightarrow> seenIntegrity st \<or> a = MESSAGE_INTEGRITY)"
  by (cases a) (auto simp: ref_attribute_def split: if_splits)

lemma ref_run_ordered:
  "ref_run pos ts st = Some st' \<Longrightarrow>
     attributes_ordered ts
     \<and> (seenFingerprint st \<longrightarrow> ts = [])
     \<and> (seenIntegrity st \<longrightarrow> list_all (\<lambda>y. tlv_type y = FINGERPRINT) ts)"
proof (induction pos ts st rule: ref_run.induct)
  case (2 pos t v p ts st)
  then obtain st1 where st1: "ref_attribute pos (attribute_of_code t) v st = Some st1"
      and rest: "ref_run (pos + 4 + pad_to_4 (length v)) ts st1 = Some st'"
      and free: "\<not> (seenFingerprint st \<or> (seenIntegrity st \<and> attribute_of_code t \<noteq> FINGERPRINT))"
    by (auto simp: Let_def bind_eq_Some_conv split: if_splits)
  have "attributes_ordered ts \<and> (seenFingerprint st1 \<longrightarrow> ts = [])
      \<and> (seenIntegrity st1 \<longrightarrow> list_all (\<lambda>y. tlv_type y = FINGERPRINT) ts)"
    by (rule "2.IH" [OF refl free st1 rest])
  with ref_attribute_flags [OF st1] free show ?case by auto
qed simp

text \<open>C29: an accepted message has a valid header and a sequence of attributes in which a
  fingerprint can only be last and nothing but a fingerprint follows a message integrity, and
  the value of a fingerprint is the CRC-32 of what precedes it.\<close>

theorem Parse_accepts_only_well_formed:
  assumes "len \<le> length data" "len < 2 ^ 16" "Parse data len = Some (Inr (Some p))"
  shows "header_ok data len
    \<and> (\<exists>ts. tlvs_of (take (len - 20) (drop 20 data)) = Some ts \<and> attributes_ordered ts
         \<and> (\<exists>st. ref_run 20 ts (parse_init (ref_packet data len)) = Some st \<and> packet st = p
              \<and> ref_fingerprint_ok data st))"
proof -
  have "ref_parse data len = Some p"
    using Parse_ref_parse [OF assms(1,2)] assms(3) by simp
  then show ?thesis
    by (auto simp: ref_parse_def bind_eq_Some_conv dest: ref_run_ordered split: if_splits)
qed

text \<open>A request with the one attribute \<open>USE-CANDIDATE\<close>.\<close>

definition candidate_message :: bytes where
  "candidate_message = [0, 1, 0, 4] @ magicCookie @ replicate 12 7 @ [0, 0x25, 0, 0]"

theorem Parse_accepts_only_well_formed_witness:
  "\<exists>p. Parse candidate_message 24 = Some (Inr (Some p)) \<and> hasUseCandidate p
     \<and> header_ok candidate_message 24
     \<and> (\<exists>ts. tlvs_of (take (24 - 20) (drop 20 candidate_message)) = Some ts \<and> attributes_ordered ts
         \<and> (\<exists>st. ref_run 20 ts (parse_init (ref_packet candidate_message 24)) = Some st \<and> packet st = p
              \<and> ref_fingerprint_ok candidate_message st))"
proof -
  let ?d = "candidate_message"
  have p: "Parse ?d 24 = Some (Inr (Some (SetUseCandidate (Stun REQUEST BINDING (replicate 12 7) (Some ?d) 24))))"
    by (subst Parse_ref_parse)
      (simp_all add: ref_parse_def header_ok_def ref_packet_def parse_class_def parse_method_def
        class_of_code_def de2_def tlvs_of.simps Let_def pad_to_4_def ref_attribute_def
        ref_fingerprint_ok_def parse_init_def stun_setters Stun_def BINDING_def magicCookie_def
        candidate_message_def)
  have "24 \<le> length ?d" "(24::nat) < 2 ^ 16" by (simp_all add: candidate_message_def)
  from Parse_accepts_only_well_formed [OF this p] p show ?thesis
    by (auto simp: stun_setters)
qed

section \<open>A message on which the parser does not end\<close>

definition endless_message :: bytes where
  "endless_message =
     [0x00, 0x01, 0xFF, 0xFC] @ magicCookie @ replicate 12 0 @ [0, 0, 0xFF, 0xE8] @ replicate 65528 0"

lemma parse_loop_None:
  assumes "parse_body data len pos st = Inr (Some (pos, st))" "pos + 4 \<le> len"
  shows "parse_loop data len pos st = None"
proof (rule ccontr)
  assume "parse_loop data len pos st \<noteq> None"
  then obtain r where "parse_loop data len pos st = Some r" by auto
  then have "\<not> (data = data \<and> len = len \<and> pos = pos \<and> st = st)"
  proof (rule parse_loop.raw_induct [where P = "\<lambda>d l q s r. \<not> (d = data \<and> l = len \<and> q = pos \<and> s = st)",
        rotated])
    fix f d l q s r
    assume IH: "\<And>d l q s r. f d l q s = Some r \<Longrightarrow> \<not> (d = data \<and> l = len \<and> q = pos \<and> s = st)"
      and eq: "(if q + 4 \<le> l then case parse_body d l q s of Inl e \<Rightarrow> Some (Inl e)
          | Inr None \<Rightarrow> Some (Inr None) | Inr (Some (pos', st')) \<Rightarrow> f d l pos' st'
          else Some (Inr (Some (q, s)))) = Some r"
    show "\<not> (d = data \<and> l = len \<and> q = pos \<and> s = st)"
    proof
      assume "d = data \<and> l = len \<and> q = pos \<and> s = st"
      with eq assms have "f data len pos st = Some r" by simp
      from IH [OF this] show False by simp
    qed
  qed
  then show False by simp
qed

lemma length_endless_message: "length endless_message = 65552"
  by (simp add: endless_message_def)

lemma endless_message_body_0:
  "parse_body endless_message 65552 0 st = Inr (Some (0, st))"
  if "\<not> seenFingerprint st" "\<not> seenIntegrity st"
proof -
  have t: "de2 (take 2 (drop 0 endless_message)) = 1"
    and n: "65532 = unat (de2 (take 2 (drop (0 + 2) endless_message)))"
    by (simp_all add: endless_message_def de2_def)
  show ?thesis
    using that
    by (subst parse_body_ref [OF _ _ n refl])
      (simp_all add: length_endless_message t [simplified] ref_attribute_def
        attribute_of_code_def known_attributes_def unat_PadTo4Bytes16)
qed

lemma endless_message_body_20:
  "parse_body endless_message 65552 20 st = Inr (Some (0, st))"
  if "\<not> seenFingerprint st" "\<not> seenIntegrity st"
proof -
  have t: "de2 (take 2 (drop 20 endless_message)) = 0"
    and n: "65512 = unat (de2 (take 2 (drop (20 + 2) endless_message)))"
    by (simp_all add: endless_message_def de2_def)
  show ?thesis
    using that
    by (subst parse_body_ref [OF _ _ n refl])
      (simp_all add: length_endless_message t [simplified] ref_attribute_def
        attribute_of_code_def known_attributes_def unat_PadTo4Bytes16)
qed

text \<open>C40: there is a message of 65552 bytes, with a valid header, on which the parser never ends:
  the position, rounded up in 16 bits, goes back to 0 and stays there.\<close>

theorem Parse_endless: "Parse endless_message 65552 = None"
proof -
  let ?st = "parse_init (ref_packet endless_message 65552)"
  have st: "\<not> seenFingerprint ?st" "\<not> seenIntegrity ?st" by (simp_all add: parse_init_def)
  have "parse_loop endless_message 65552 20 ?st = parse_loop endless_message 65552 0 ?st"
    by (subst parse_loop.simps) (simp add: endless_message_body_20 [OF st])
  also have "\<dots> = None"
    by (rule parse_loop_None [OF endless_message_body_0 [OF st]]) simp
  finally have loop: "parse_loop endless_message 65552 20 ?st = None" .
  have "header_ok endless_message 65552"
    by (simp add: header_ok_def endless_message_def de2_def magicCookie_def)
  then show ?thesis
    by (simp add: Parse_def parse_header_ref length_endless_message loop)
qed

end
