(* ===== verification/Rtc_Server.thy ===== *)
theory Rtc_Server
  imports Stream_Cache Stun_Reference
begin

text \<open>
  The class \<open>RTCServer\<close> of \<open>src/rtc_server.hpp\<close> and \<open>src/rtc_server.cpp\<close>: the three maps of the
  server, the dispatch of received packets, the creation of peers, and the receive loop. The server
  extends the heap of peers and streams. What the WebRTC core and the sockets answer is an argument
  of the operation that asks. \<open>leaked\<close> counts the receive buffers that nothing frees.
\<close>

section \<open>State\<close>

record server = heap +
  listening :: bool
  lip :: string
  lport :: nat
  lOuterAddr :: string
  SarsPeersStreamIDMaps :: "(string, nat) std_map"
  SarsPeersUfragMaps :: "(string, nat) std_map"
  SarsPeersAddrMaps :: "(string, nat) std_map"
  leaked :: nat

definition RTCServer :: "string \<Rightarrow> nat \<Rightarrow> string \<Rightarrow> server" where
  "RTCServer host udp_port outer =
     \<lparr>peers = [], scaches = [], effects = [], listening = False, lip = host, lport = udp_port,
      lOuterAddr = outer, SarsPeersStreamIDMaps = [], SarsPeersUfragMaps = [], SarsPeersAddrMaps = [],
      leaked = 0\<rparr>"

section \<open>Received packets\<close>

text \<open>
  The branch for STUN packets: \<open>Inr None\<close> when the packet is dropped, else the server with the
  binding of the address to the peer. The parser's own result \<open>None\<close> is that it does not end.
\<close>

definition dispatch_stun :: "bytes \<Rightarrow> nat \<Rightarrow> string \<Rightarrow> server \<Rightarrow> server option res option" where
  "dispatch_stun buf len remote srv =
     (case Parse buf len of
        None \<Rightarrow> None
      | Some (Inl e) \<Rightarrow> Some (Inl e)
      | Some (Inr None) \<Rightarrow> Some (Inr None)
      | Some (Inr (Some stun)) \<Rightarrow> Some (Inr (
          if GetClass stun = REQUEST \<and> GetMethod stun = BINDING then
            (case map_find (SarsPeersUfragMaps srv) (GetUsername stun) of
               None \<Rightarrow> None
             | Some peer \<Rightarrow>
                 Some (srv\<lparr>SarsPeersAddrMaps := map_emplace remote peer (SarsPeersAddrMaps srv)\<rparr>))
          else Some srv)))"

text \<open>The peer of the address takes the packet, and remembers the address.\<close>

definition deliver :: "bytes \<Rightarrow> nat \<Rightarrow> string \<Rightarrow> string \<Rightarrow> bytes \<Rightarrow> server \<Rightarrow> server res" where
  "deliver buf len remote ipstr p srv =
     (case map_find (SarsPeersAddrMaps srv) remote of
        None \<Rightarrow> Inr (srv\<lparr>leaked := leaked srv + 1\<rparr>)
      | Some i \<Rightarrow>
          bindR (get_peer srv i) (\<lambda>peer.
          let addr = \<lparr>addr_type = kAddrIpv4, ip = ipstr, port = p\<rparr>;
              peer = peer\<lparr>remote_addr := Some addr\<rparr>
          in Inr (emit (UdpSocketRecv buf (int len) addr peer) (set_peer i peer srv))))"

definition OnRecvClientPkt :: "bytes \<Rightarrow> nat \<Rightarrow> sockaddr \<Rightarrow> server \<Rightarrow> server res option" where
  "OnRecvClientPkt buf len addr srv =
     (case bindR (sin_addr addr) (\<lambda>a. bindR (sin_port addr) (\<lambda>p. Inr (a, p))) of
        Inl e \<Rightarrow> Some (Inl e)
      | Inr (a, p) \<Rightarrow>
          let ipstr = inet_ntoa a; remote = remote_key a p
          in (case IsStun buf len of
                Inl e \<Rightarrow> Some (Inl e)
              | Inr is_stun \<Rightarrow>
                  if is_stun then
                    (case dispatch_stun buf len remote srv of
                       None \<Rightarrow> None
                     | Some (Inl e) \<Rightarrow> Some (Inl e)
                     | Some (Inr None) \<Rightarrow> Some (Inr (srv\<lparr>leaked := leaked srv + 1\<rparr>))
                     | Some (Inr (Some srv)) \<Rightarrow> Some (deliver buf len remote ipstr p srv))
                  else Some (deliver buf len remote ipstr p srv)))"

text \<open>
  \<open>Cycle\<close> receives packets of at most 2048 bytes until \<open>RecvFrom\<close> fails with \<open>ret\<close>; the last buffer
  is not freed. The packets are those that the socket delivers, a finite list of them. This is the loop by
  itself: the other coroutines run while it waits in \<open>RecvFrom\<close>, and in the transition system of
  \<open>Server_Steps\<close>, which has one event for each packet, their events come in between.
\<close>

fun Cycle :: "(bytes \<times> nat \<times> sockaddr) list \<Rightarrow> int \<Rightarrow> server \<Rightarrow> (int \<times> server) res option" where
  "Cycle [] ret srv = Some (Inr (ret, srv\<lparr>leaked := leaked srv + 1\<rparr>))"
| "Cycle ((buf, nread, addr) # pkts) ret srv =
     (case OnRecvClientPkt buf nread addr srv of
        None \<Rightarrow> None
      | Some (Inl e) \<Rightarrow> Some (Inl e)
      | Some (Inr srv) \<Rightarrow> Cycle pkts ret srv)"

text \<open>\<open>RTCServer::SendPktToClient\<close>, which a peer calls through its \<open>sender\<close>; the result of \<open>SendTo\<close> is
  not looked at.\<close>

definition Server_SendPktToClient :: "bytes \<Rightarrow> int \<Rightarrow> bytes \<Rightarrow> bytes \<Rightarrow> server \<Rightarrow> server res" where
  "Server_SendPktToClient buf len to_port to_host srv =
     (if \<not> listening srv then Inl Null_Deref else Inr (emit [SendTo buf len to_port to_host] srv))"

definition call_OnSendDataToRemote ::
  "(string \<Rightarrow> bytes option) \<Rightarrow> nat \<Rightarrow> bytes \<Rightarrow> int \<Rightarrow> net_addr \<Rightarrow> server \<Rightarrow> server res" where
  "call_OnSendDataToRemote inet_pton i data len addr srv =
     bindR (get_peer srv i) (\<lambda>p.
     bindR (OnSendDataToRemote inet_pton data len addr p) (\<lambda>(buf, n, to_port, to_host).
       Server_SendPktToClient buf n to_port to_host srv))"

text \<open>\<open>run\<close>: \<open>listen\<close> says whether \<open>ListenUdp\<close> gave a listener, \<open>start\<close> is the result of \<open>Start\<close>.\<close>

definition run :: "bool \<Rightarrow> int \<Rightarrow> server \<Rightarrow> int \<times> server" where
  "run listen start srv =
     (if \<not> listen then (-1, srv\<lparr>listening := False\<rparr>) else (start, srv\<lparr>listening := True\<rparr>))"

section \<open>Peers\<close>

definition video_format_parameters :: "(string, string) std_map" where
  "video_format_parameters =
     map_assign ''profile-level-id'' ''42001f''
       (map_assign ''level-asymmetry-allowed'' ''1'' (map_assign ''packetization-mode'' ''1'' []))"

definition video_feedback_types :: "string list" where
  "video_feedback_types = [''nack'', ''nack pli'', ''ccm fir'', ''goog-remb'']"

definition pc_init_param :: "pc_setting list" where
  "pc_init_param =
     [LogLevel_Warning, IceTimeOutMs 10000, VideoMaxNackQueLen 8192, AudioMaxNackQueLen 2048,
      MaxNackWaitTime 2000, MaxNackTimes 10,
      AudioExtMap 1 ''uurn:ietf:params:rtp-hdrext:ssrc-audio-level'',
      VideoExtMap 4 ''urn:3gpp:video-orientation'',
      AudioRtpMap ''opus'' 111 2 48000 [''nack''] [],
      SDESFlag False, AVPFFlag False, DumpMask 0, BitrateEtimatorFlag False,
      VideoRtpMap ''H264'' 102 2 90000 video_feedback_types video_format_parameters,
      VideoRtpMap ''H264'' 125 2 90000 video_feedback_types
        (map_assign ''profile-level-id'' ''42e01f'' video_format_parameters)]"

text \<open>What the environment answers while a peer is made: the connection that the core creates, two
  results of \<open>rand\<close>, and the session description that \<open>CreateAnswer\<close> stores.\<close>

record peer_env =
  env_pc :: "nat option"
  env_rand_video :: u32
  env_rand_audio :: u32
  env_answer :: string

text \<open>\<open>CreateRtcPeer\<close> returns its result code and the answer, which stays empty without a connection.\<close>

definition CreateRtcPeer ::
  "nat \<Rightarrow> string \<Rightarrow> string \<Rightarrow> bool \<Rightarrow> peer_env \<Rightarrow> server \<Rightarrow> (int \<times> string \<times> server) res" where
  "CreateRtcPeer i stream_id offer hasLocal env srv =
     (let srv = emit [CreatePeerConnection_Call i stream_id pc_init_param] srv
      in case env_pc env of
           None \<Rightarrow> Inr (-1, '''', srv)
         | Some pc \<Rightarrow>
             bindR (get_peer srv i) (\<lambda>peer.
             let peer = SetPC pc peer;
                 peer = (if hasLocal
                         then peer\<lparr>local_video_ssrc := env_rand_video env,
                                   local_audio_ssrc := env_rand_audio env\<rparr>
                         else peer);
                 srv = emit (if hasLocal
                             then [AddLocalVideoTrack_Call pc (local_video_ssrc peer) ''MainVideo'',
                                   AddLocalAudioTrack_Call pc (local_audio_ssrc peer) ''MainAudio'']
                             else []) (set_peer i peer srv);
                 srv = emit [SetRemoteDescription_Call pc offer,
                             CreateAnswer_Call pc (lOuterAddr srv) (lport srv)] srv;
                 answer = env_answer env
             in bindR (getUfragFromSdp offer) (\<lambda>r1. case r1 of
                  None \<Rightarrow> Inr (-1, answer, srv)
                | Some u \<Rightarrow>
                    bindR (getUfragFromSdp answer) (\<lambda>r2. case r2 of
                      None \<Rightarrow> Inr (-1, answer, srv)
                    | Some lu \<Rightarrow>
                        let key = lu @ '':'' @ u;
                            peer = peer\<lparr>sender_set := True, ufrag := key\<rparr>;
                            srv = set_peer i peer srv
                        in Inr (0, answer,
                             srv\<lparr>SarsPeersUfragMaps := map_emplace key i (SarsPeersUfragMaps srv)\<rparr>)))))"

text \<open>Both callers ignore the result code, and never return a null pointer.\<close>

definition CreateRtcPublisher ::
  "string \<Rightarrow> string \<Rightarrow> peer_env \<Rightarrow> server \<Rightarrow> (nat \<times> string \<times> server) res" where
  "CreateRtcPublisher stream_id offer env srv =
     (let (i, srv) = new_peer Publisher srv
      in bindR (CreateRtcPeer i stream_id offer True env srv) (\<lambda>(_, answer, srv). Inr (i, answer, srv)))"

definition CreateRtcPlayer ::
  "string \<Rightarrow> string \<Rightarrow> peer_env \<Rightarrow> server \<Rightarrow> (nat \<times> string \<times> server) res" where
  "CreateRtcPlayer stream_id offer env srv =
     (let (i, srv) = new_peer Player srv
      in bindR (CreateRtcPeer i stream_id offer True env srv) (\<lambda>(_, answer, srv). Inr (i, answer, srv)))"

definition GetOrCreateStreamCache :: "string \<Rightarrow> server \<Rightarrow> nat \<times> server" where
  "GetOrCreateStreamCache stream_id srv =
     (case map_find (SarsPeersStreamIDMaps srv) stream_id of
        Some c \<Rightarrow> (c, srv)
      | None \<Rightarrow>
          let (c, srv) = new_scache srv
          in (c, srv\<lparr>SarsPeersStreamIDMaps := map_emplace stream_id c (SarsPeersStreamIDMaps srv)\<rparr>))"

text \<open>One round of the loop in \<open>main\<close>: the timer of every peer, in key order; \<open>now i\<close> is the time of
  day when peer \<open>i\<close> is served.\<close>

fun timer_loop :: "(nat \<Rightarrow> u64) \<Rightarrow> nat list \<Rightarrow> server \<Rightarrow> server res" where
  "timer_loop now [] srv = Inr srv"
| "timer_loop now (i # is) srv =
     bindR (get_peer srv i) (\<lambda>p. timer_loop now is (emit (OnTimer (now i) p) srv))"

definition timer_round :: "(nat \<Rightarrow> u64) \<Rightarrow> server \<Rightarrow> server res" where
  "timer_round now srv = timer_loop now (map_values (SarsPeersUfragMaps srv)) srv"

end
