(* ===== verification/Server_Invariant.thy ===== *)
theory Server_Invariant
  imports Rtc_Server
begin

text \<open>
  The invariant of the server state: what the maps, the streams and the peers promise about each
  other, and that every operation of the server keeps it. Operations are cut into the elementary
  updates of the heap (a peer replaced, an effect emitted, an object added), for which the
  preservation lemmas are collected in \<open>inv_intros\<close>.
\<close>

section \<open>The invariant\<close>

text \<open>No part of the server opens a dump file.\<close>

definition peer_ok :: "'a heap_scheme \<Rightarrow> peer \<Rightarrow> bool" where
  "peer_ok h p \<longleftrightarrow>
     (\<forall>c. peer_scache p = Some c \<longrightarrow>
        c < length (scaches h) \<and> (peer_class p = Player \<longrightarrow> publisher (scaches h ! c) \<noteq> None))
     \<and> (peerconnection_state p \<noteq> kNew \<longrightarrow> peer_connection p \<noteq> None)
     \<and> fp_h264 p = None"

definition has_class :: "'a heap_scheme \<Rightarrow> peer_class \<Rightarrow> nat \<Rightarrow> bool" where
  "has_class h cls i \<longleftrightarrow> i < length (peers h) \<and> peer_class (peers h ! i) = cls"

definition scache_ok :: "'a heap_scheme \<Rightarrow> scache \<Rightarrow> bool" where
  "scache_ok h s \<longleftrightarrow>
     (CanPublish s \<longleftrightarrow> publisher s = None)
     \<and> (\<forall>i. publisher s = Some i \<longrightarrow> has_class h Publisher i)
     \<and> (\<forall>i\<in>set (players s). has_class h Player i)
     \<and> (players s \<noteq> [] \<longrightarrow> publisher s \<noteq> None)"

definition heap_ok :: "'a heap_scheme \<Rightarrow> bool" where
  "heap_ok h \<longleftrightarrow> (\<forall>p\<in>set (peers h). peer_ok h p) \<and> (\<forall>s\<in>set (scaches h). scache_ok h s)"

text \<open>A peer that the server can find by its user name can receive and send.\<close>

definition reachable_peer :: "'a heap_scheme \<Rightarrow> string \<Rightarrow> nat \<Rightarrow> bool" where
  "reachable_peer h k i \<longleftrightarrow>
     i < length (peers h) \<and> sender_set (peers h ! i) \<and> peer_connection (peers h ! i) \<noteq> None
     \<and> ufrag (peers h ! i) = k"

definition maps_ok :: "server \<Rightarrow> bool" where
  "maps_ok srv \<longleftrightarrow>
     map_ordered (SarsPeersUfragMaps srv) \<and> map_ordered (SarsPeersAddrMaps srv)
     \<and> map_ordered (SarsPeersStreamIDMaps srv)
     \<and> (\<forall>k i. map_find (SarsPeersUfragMaps srv) k = Some i \<longrightarrow> reachable_peer srv k i)
     \<and> (\<forall>a i. map_find (SarsPeersAddrMaps srv) a = Some i \<longrightarrow>
           map_find (SarsPeersUfragMaps srv) (ufrag (peers srv ! i)) = Some i)
     \<and> (\<forall>k c. map_find (SarsPeersStreamIDMaps srv) k = Some c \<longrightarrow> c < length (scaches srv))"

definition server_ok :: "server \<Rightarrow> bool" where
  "server_ok srv \<longleftrightarrow> heap_ok srv \<and> maps_ok srv"

definition registered :: "server \<Rightarrow> nat \<Rightarrow> bool" where
  "registered srv i \<longleftrightarrow> (\<exists>k. map_find (SarsPeersUfragMaps srv) k = Some i)"

lemma server_ok_new_server: "server_ok (RTCServer a b c)"
  by (simp add: server_ok_def heap_ok_def maps_ok_def RTCServer_def map_ordered_def)

lemma server_ok_started: "server_ok ((RTCServer a b c)\<lparr>listening := l\<rparr>)"
  by (simp add: server_ok_def heap_ok_def maps_ok_def RTCServer_def map_ordered_def)

section \<open>Elementary updates\<close>

lemma emit_simps [simp]:
  "peers (emit es h) = peers h" "scaches (emit es h) = scaches h"
  "effects (emit es h) = effects h @ es"
  by (simp_all add: emit_def)

lemma emit_server_simps [simp]:
  "SarsPeersUfragMaps (emit es srv) = SarsPeersUfragMaps srv"
  "SarsPeersAddrMaps (emit es srv) = SarsPeersAddrMaps srv"
  "SarsPeersStreamIDMaps (emit es srv) = SarsPeersStreamIDMaps srv"
  "leaked (emit es srv) = leaked srv" "lOuterAddr (emit es srv) = lOuterAddr srv"
  "lport (emit es srv) = lport srv" "listening (emit es srv) = listening srv"
  by (simp_all add: emit_def)

lemma set_peer_simps [simp]:
  "peers (set_peer i p h) = (peers h)[i := p]" "scaches (set_peer i p h) = scaches h"
  "effects (set_peer i p h) = effects h"
  by (simp_all add: set_peer_def)

lemma set_peer_server_simps [simp]:
  "SarsPeersUfragMaps (set_peer i p srv) = SarsPeersUfragMaps srv"
  "SarsPeersAddrMaps (set_peer i p srv) = SarsPeersAddrMaps srv"
  "SarsPeersStreamIDMaps (set_peer i p srv) = SarsPeersStreamIDMaps srv"
  "leaked (set_peer i p srv) = leaked srv" "lOuterAddr (set_peer i p srv) = lOuterAddr srv"
  "lport (set_peer i p srv) = lport srv" "listening (set_peer i p srv) = listening srv"
  by (simp_all add: set_peer_def)

lemma set_scache_simps [simp]:
  "peers (set_scache c s h) = peers h" "scaches (set_scache c s h) = (scaches h)[c := s]"
  "effects (set_scache c s h) = effects h"
  by (simp_all add: set_scache_def)

lemma set_scache_server_simps [simp]:
  "SarsPeersUfragMaps (set_scache c s srv) = SarsPeersUfragMaps srv"
  "SarsPeersAddrMaps (set_scache c s srv) = SarsPeersAddrMaps srv"
  "SarsPeersStreamIDMaps (set_scache c s srv) = SarsPeersStreamIDMaps srv"
  "listening (set_scache c s srv) = listening srv"
  by (simp_all add: set_scache_def)

lemma server_ok_emit [inv_intros]: "server_ok srv \<Longrightarrow> server_ok (emit es srv)"
  by (simp add: server_ok_def heap_ok_def maps_ok_def peer_ok_def scache_ok_def has_class_def
      reachable_peer_def)

lemma server_ok_leaked [inv_intros]: "server_ok srv \<Longrightarrow> server_ok (srv\<lparr>leaked := n\<rparr>)"
  by (simp add: server_ok_def heap_ok_def maps_ok_def peer_ok_def scache_ok_def has_class_def
      reachable_peer_def)

lemma registered_emit [simp]: "registered (emit es srv) i = registered srv i"
  by (simp add: registered_def)

lemma registered_set_peer [simp]: "registered (set_peer j p srv) i = registered srv i"
  by (simp add: registered_def)

text \<open>A peer may be replaced by one of the same class that is well-formed itself, and, when it is
  registered, by one that still can be reached under the same name.\<close>

lemma server_ok_set_peer [inv_intros]:
  assumes ok: "server_ok srv" and i: "i < length (peers srv)"
    and p: "peer_ok srv p" "peer_class p = peer_class (peers srv ! i)"
    and reg: "registered srv i \<Longrightarrow>
      sender_set p \<and> peer_connection p \<noteq> None \<and> ufrag p = ufrag (peers srv ! i)"
  shows "server_ok (set_peer i p srv)"
proof -
  have "has_class (set_peer i p srv) cls j = has_class srv cls j" for cls j
    using i p(2) by (cases "j = i") (auto simp: has_class_def)
  then have scache: "scache_ok (set_peer i p srv) s = scache_ok srv s" for s
    by (simp add: scache_ok_def)
  have peer: "peer_ok (set_peer i p srv) q = peer_ok srv q" for q by (simp add: peer_ok_def)
  have "heap_ok (set_peer i p srv)"
    using ok p(1) set_update_subset_insert [of "peers srv" i p]
    by (auto simp: server_ok_def heap_ok_def scache peer)
  moreover have "reachable_peer (set_peer i p srv) k j"
    if "map_find (SarsPeersUfragMaps srv) k = Some j" for k j
  proof -
    have "reachable_peer srv k j" using ok that by (simp add: server_ok_def maps_ok_def)
    then show ?thesis
      using reg that by (cases "j = i") (auto simp: reachable_peer_def registered_def)
  qed
  moreover have "map_find (SarsPeersUfragMaps srv) (ufrag ((peers srv)[i := p] ! j)) = Some j"
    if "map_find (SarsPeersAddrMaps srv) a = Some j" for a j
  proof -
    have j: "map_find (SarsPeersUfragMaps srv) (ufrag (peers srv ! j)) = Some j"
      using ok that by (simp add: server_ok_def maps_ok_def)
    moreover have "ufrag p = ufrag (peers srv ! i)" if "j = i"
      using reg j that by (auto simp: registered_def)
    ultimately show ?thesis using i by (cases "j = i") simp_all
  qed
  ultimately show ?thesis using ok by (simp add: server_ok_def maps_ok_def)
qed

lemma server_ok_peer: "server_ok srv \<Longrightarrow> i < length (peers srv) \<Longrightarrow> peer_ok srv (peers srv ! i)"
  by (simp add: server_ok_def heap_ok_def)

lemma server_ok_scache:
  "server_ok srv \<Longrightarrow> c < length (scaches srv) \<Longrightarrow> scache_ok srv (scaches srv ! c)"
  by (simp add: server_ok_def heap_ok_def)

lemma server_ok_registered:
  "server_ok srv \<Longrightarrow> map_find (SarsPeersUfragMaps srv) k = Some i \<Longrightarrow> reachable_peer srv k i"
  by (simp add: server_ok_def maps_ok_def)

lemma server_ok_addr:
  "server_ok srv \<Longrightarrow> map_find (SarsPeersAddrMaps srv) a = Some i \<Longrightarrow>
     map_find (SarsPeersUfragMaps srv) (ufrag (peers srv ! i)) = Some i"
  by (simp add: server_ok_def maps_ok_def)

lemma server_ok_addr_peer:
  assumes "server_ok srv" "map_find (SarsPeersAddrMaps srv) a = Some i"
  shows "reachable_peer srv (ufrag (peers srv ! i)) i"
  using server_ok_registered [OF assms(1) server_ok_addr [OF assms]] .

section \<open>Packets\<close>

lemma server_ok_bind_addr [inv_intros]:
  assumes ok: "server_ok srv" and i: "map_find (SarsPeersUfragMaps srv) u = Some i"
  shows "server_ok (srv\<lparr>SarsPeersAddrMaps := map_emplace a i (SarsPeersAddrMaps srv)\<rparr>)"
proof -
  have m: "map_ordered (SarsPeersAddrMaps srv)" using ok by (simp add: server_ok_def maps_ok_def)
  have "ufrag (peers srv ! i) = u" using server_ok_registered [OF ok i] by (simp add: reachable_peer_def)
  then have "map_find (SarsPeersUfragMaps srv) (ufrag (peers srv ! j)) = Some j"
    if "map_find (map_emplace a i (SarsPeersAddrMaps srv)) b = Some j" for b j
    using smap.emplace_all [OF m, of "\<lambda>_ j. map_find (SarsPeersUfragMaps srv) (ufrag (peers srv ! j)) = Some j"]
      server_ok_addr [OF ok] i that by blast
  then show ?thesis
    using ok smap.inv_emplace [OF m]
    by (simp add: server_ok_def heap_ok_def maps_ok_def peer_ok_def scache_ok_def has_class_def
        reachable_peer_def)
qed

lemma deliver_ok:
  assumes "server_ok srv"
  shows "\<exists>srv'. deliver buf len remote ipstr p srv = Inr srv' \<and> server_ok srv'"
proof (cases "map_find (SarsPeersAddrMaps srv) remote")
  case None
  then show ?thesis using assms by (simp add: deliver_def server_ok_leaked)
next
  case (Some i)
  have "reachable_peer srv (ufrag (peers srv ! i)) i" by (rule server_ok_addr_peer [OF assms Some])
  then have i: "i < length (peers srv)"
    and r: "sender_set (peers srv ! i)" "peer_connection (peers srv ! i) \<noteq> None"
    by (simp_all add: reachable_peer_def)
  have "server_ok (emit es (set_peer i ((peers srv ! i)\<lparr>remote_addr := Some addr\<rparr>) srv))" for es addr
    using server_ok_peer [OF assms i] r by (intro inv_intros assms i) (simp_all add: peer_ok_def)
  then show ?thesis using i by (simp add: deliver_def Some get_peer_def Let_def)
qed

lemma dispatch_stun_ok:
  assumes "server_ok srv" "len \<le> length buf" "len < 2 ^ 16"
  shows "\<exists>r. dispatch_stun buf len remote srv = Some (Inr r) \<and> (\<forall>srv'. r = Some srv' \<longrightarrow> server_ok srv')"
  using server_ok_bind_addr [OF assms(1)]
  by (auto simp: dispatch_stun_def Parse_ref_parse [OF assms(2,3)] assms(1) split: option.splits)

definition sockaddr_in_ok :: "sockaddr \<Rightarrow> bool" where
  "sockaddr_in_ok addr \<longleftrightarrow> 6 \<le> length (sa_data addr)"

lemma OnRecvClientPkt_unfold:
  assumes "sockaddr_in_ok addr" "len \<le> length buf" "len < 2 ^ 16"
  defines "a \<equiv> take 4 (drop 2 (sa_data addr))" and "p \<equiv> take 2 (sa_data addr)"
  shows "OnRecvClientPkt buf len addr srv =
    (if 20 \<le> len \<and> buf ! 0 < 3 \<and> take 4 (drop 4 buf) = magicCookie then
       (case dispatch_stun buf len (remote_key a p) srv of
          None \<Rightarrow> None
        | Some (Inl e) \<Rightarrow> Some (Inl e)
        | Some (Inr None) \<Rightarrow> Some (Inr (srv\<lparr>leaked := leaked srv + 1\<rparr>))
        | Some (Inr (Some srv)) \<Rightarrow> Some (deliver buf len (remote_key a p) (inet_ntoa a) p srv))
     else Some (deliver buf len (remote_key a p) (inet_ntoa a) p srv))"
proof -
  have "sin_addr addr = Inr a" "sin_port addr = Inr p"
    using assms(1) by (simp_all add: sin_addr_def sin_port_def sockaddr_in_ok_def a_def p_def)
  then show ?thesis
    by (simp only: OnRecvClientPkt_def IsStun_eq [OF assms(2)] bindR_Inr sum.case prod.case Let_def)
qed

lemma OnRecvClientPkt_ok:
  assumes "server_ok srv" "sockaddr_in_ok addr" "len \<le> length buf" "len < 2 ^ 16"
  shows "\<exists>srv'. OnRecvClientPkt buf len addr srv = Some (Inr srv') \<and> server_ok srv'"
proof -
  obtain r where r: "dispatch_stun buf len remote srv = Some (Inr r)" "\<forall>srv'. r = Some srv' \<longrightarrow> server_ok srv'"
    if "remote = remote_key (take 4 (drop 2 (sa_data addr))) (take 2 (sa_data addr))" for remote
    using dispatch_stun_ok [OF assms(1,3,4)] by metis
  show ?thesis
    unfolding OnRecvClientPkt_unfold [OF assms(2-4)]
    using r [OF refl] deliver_ok assms(1) server_ok_leaked
    by (auto split: option.split)
qed

section \<open>Growth\<close>

text \<open>What no operation of the server undoes: objects stay, keep their class, and a stream that has a
  publisher keeps refusing others.\<close>

definition grows :: "'a heap_scheme \<Rightarrow> 'b heap_scheme \<Rightarrow> bool" where
  "grows h h' \<longleftrightarrow>
     (\<forall>cls i. has_class h cls i \<longrightarrow> has_class h' cls i)
     \<and> (\<forall>c < length (scaches h). c < length (scaches h')
          \<and> (\<not> CanPublish (scaches h ! c) \<longrightarrow> \<not> CanPublish (scaches h' ! c)))"

lemma grows_refl [inv_intros]: "peers h' = peers h \<Longrightarrow> scaches h' = scaches h \<Longrightarrow> grows h h'"
  by (simp add: grows_def has_class_def)

lemma grows_trans: "grows h h' \<Longrightarrow> grows h' h'' \<Longrightarrow> grows h h''"
  by (simp add: grows_def)

lemma grows_set_peer [inv_intros]:
  "i < length (peers h) \<Longrightarrow> peer_class p = peer_class (peers h ! i) \<Longrightarrow> grows h (set_peer i p h)"
  by (auto simp: grows_def has_class_def nth_list_update)

lemma deliver_grows: "deliver buf len remote ipstr p srv = Inr srv' \<Longrightarrow> grows srv srv'"
  by (auto simp: deliver_def get_peer_def Let_def rd_def grows_def has_class_def nth_list_update
      split: option.splits if_splits)

lemma grows_maps [simp]:
  "grows (srv\<lparr>SarsPeersAddrMaps := m\<rparr>) h = grows srv h"
  "grows (srv\<lparr>SarsPeersUfragMaps := m\<rparr>) h = grows srv h"
  by (simp_all add: grows_def has_class_def)

lemma OnRecvClientPkt_grows:
  "OnRecvClientPkt buf len addr srv = Some (Inr srv') \<Longrightarrow> grows srv srv'"
  by (auto simp: OnRecvClientPkt_def dispatch_stun_def Let_def grows_refl
      split: sum.splits option.splits if_splits dest!: deliver_grows)

section \<open>New objects\<close>

lemma server_ok_new_peer:
  assumes ok: "server_ok srv" and new: "new_peer cls srv = (i, srv')"
  shows "server_ok srv'" "i = length (peers srv)" "i < length (peers srv')" "peers srv' ! i = RtcPeer cls"
    "\<not> registered srv' i" "grows srv srv'" "SarsPeersStreamIDMaps srv' = SarsPeersStreamIDMaps srv"
    "scaches srv' = scaches srv"
proof -
  have srv': "srv' = srv\<lparr>peers := peers srv @ [RtcPeer cls]\<rparr>" and i: "i = length (peers srv)"
    using new by (simp_all add: new_peer_def)
  have cls: "has_class srv cls' j \<Longrightarrow> has_class srv' cls' j" for cls' j
    by (simp add: srv' has_class_def nth_append)
  have "peer_ok srv p \<Longrightarrow> peer_ok srv' p" for p by (simp add: peer_ok_def srv')
  moreover have "peer_ok srv' (RtcPeer cls)" by (simp add: peer_ok_def RtcPeer_def)
  moreover have "scache_ok srv s \<Longrightarrow> scache_ok srv' s" for s by (auto simp: scache_ok_def cls)
  ultimately have "heap_ok srv'" using ok by (auto simp: server_ok_def heap_ok_def srv')
  have old: "map_find (SarsPeersUfragMaps srv) k = Some j \<Longrightarrow> j < length (peers srv)" for k j
    using server_ok_registered [OF ok] by (auto simp: reachable_peer_def)
  have "maps_ok srv'"
    using ok old server_ok_addr_peer [OF ok]
    by (auto simp: server_ok_def maps_ok_def srv' reachable_peer_def nth_append intro: less_SucI)
  with \<open>heap_ok srv'\<close> show "server_ok srv'" by (simp add: server_ok_def)
  show "i = length (peers srv)" "i < length (peers srv')" "peers srv' ! i = RtcPeer cls"
    "SarsPeersStreamIDMaps srv' = SarsPeersStreamIDMaps srv" "scaches srv' = scaches srv"
    by (simp_all add: srv' i)
  show "\<not> registered srv' i" using old by (auto simp: registered_def srv' i)
  show "grows srv srv'" using cls by (simp add: grows_def) (simp add: srv')
qed

lemma GetOrCreateStreamCache_ok:
  assumes ok: "server_ok srv" and get: "GetOrCreateStreamCache k srv = (c, srv')"
  shows "server_ok srv'" "c < length (scaches srv')" "grows srv srv'" "peers srv' = peers srv"
proof -
  have "server_ok srv' \<and> c < length (scaches srv') \<and> grows srv srv' \<and> peers srv' = peers srv"
  proof (cases "map_find (SarsPeersStreamIDMaps srv) k")
    case (Some d)
    with get ok show ?thesis
      by (simp add: GetOrCreateStreamCache_def server_ok_def maps_ok_def grows_refl)
  next
    case None
    have m: "map_ordered (SarsPeersStreamIDMaps srv)" using ok by (simp add: server_ok_def maps_ok_def)
    have srv': "srv' = srv\<lparr>scaches := scaches srv @ [StreamCache],
          SarsPeersStreamIDMaps := map_emplace k c (SarsPeersStreamIDMaps srv)\<rparr>"
      and c: "c = length (scaches srv)"
      using get None by (auto simp: GetOrCreateStreamCache_def new_scache_def)
    have "peer_ok srv p \<Longrightarrow> peer_ok srv' p" for p by (auto simp: peer_ok_def srv' nth_append)
    moreover have "scache_ok srv s \<Longrightarrow> scache_ok srv' s" for s by (auto simp: scache_ok_def srv' has_class_def)
    moreover have "scache_ok srv' StreamCache" by (simp add: scache_ok_def StreamCache_def)
    ultimately have "heap_ok srv'" using ok by (auto simp: server_ok_def heap_ok_def srv')
    moreover have "d < length (scaches srv')" if "map_find (SarsPeersStreamIDMaps srv') k' = Some d" for k' d
    proof -
      have "\<And>k' d. map_find (SarsPeersStreamIDMaps srv) k' = Some d \<Longrightarrow> d < Suc (length (scaches srv))"
        using ok by (auto simp: server_ok_def maps_ok_def less_Suc_eq)
      then show ?thesis
        using smap.emplace_all [OF m, of "\<lambda>_ d. d < Suc (length (scaches srv))" k c k' d] that
        by (simp add: srv' c)
    qed
    then have "maps_ok srv'"
      using ok smap.inv_emplace [OF m] by (simp add: server_ok_def maps_ok_def srv' reachable_peer_def)
    ultimately show ?thesis
      by (simp add: server_ok_def) (simp add: srv' c grows_def has_class_def nth_append)
  qed
  then show "server_ok srv'" "c < length (scaches srv')" "grows srv srv'" "peers srv' = peers srv"
    by blast+
qed

section \<open>New peers\<close>

lemma server_ok_register [inv_intros]:
  assumes ok: "server_ok srv" and r: "reachable_peer srv key i"
  shows "server_ok (srv\<lparr>SarsPeersUfragMaps := map_emplace key i (SarsPeersUfragMaps srv)\<rparr>)"
proof -
  have m: "map_ordered (SarsPeersUfragMaps srv)" using ok by (simp add: server_ok_def maps_ok_def)
  have "reachable_peer srv k j" if "map_find (map_emplace key i (SarsPeersUfragMaps srv)) k = Some j" for k j
    using smap.emplace_all [OF m, of "reachable_peer srv"] server_ok_registered [OF ok] r that by blast
  moreover have "map_find (map_emplace key i (SarsPeersUfragMaps srv)) (ufrag (peers srv ! j)) = Some j"
    if "map_find (SarsPeersAddrMaps srv) a = Some j" for a j
    using smap.emplace_keeps [OF m server_ok_addr [OF ok that]] .
  ultimately show ?thesis
    using ok smap.inv_emplace [OF m]
    by (simp add: server_ok_def heap_ok_def maps_ok_def peer_ok_def scache_ok_def has_class_def
        reachable_peer_def)
qed

text \<open>The state in which the connection of a new peer has been asked for its answer.\<close>

definition offered :: "nat \<Rightarrow> nat \<Rightarrow> string \<Rightarrow> string \<Rightarrow> peer_env \<Rightarrow> peer_class \<Rightarrow> server \<Rightarrow> server" where
  "offered i pc stream_id offer env cls srv =
     emit [CreatePeerConnection_Call i stream_id pc_init_param,
           AddLocalVideoTrack_Call pc (env_rand_video env) ''MainVideo'',
           AddLocalAudioTrack_Call pc (env_rand_audio env) ''MainAudio'',
           SetRemoteDescription_Call pc offer, CreateAnswer_Call pc (lOuterAddr srv) (lport srv)]
       (set_peer i ((RtcPeer cls)\<lparr>peer_connection := Some pc, local_video_ssrc := env_rand_video env,
          local_audio_ssrc := env_rand_audio env\<rparr>) srv)"

lemma emit_set_peer: "emit es (set_peer i p (emit es' h)) = emit (es' @ es) (set_peer i p h)"
  by (simp add: emit_def set_peer_def)

lemma emit_emit: "emit es (emit es' h) = emit (es' @ es) h"
  by (simp add: emit_def)

lemma CreateRtcPeer_eq:
  assumes "i < length (peers srv)" "peers srv ! i = RtcPeer cls"
  shows "CreateRtcPeer i stream_id offer True env srv =
    (case env_pc env of
       None \<Rightarrow> Inr (-1, '''', emit [CreatePeerConnection_Call i stream_id pc_init_param] srv)
     | Some pc \<Rightarrow>
         let srv1 = offered i pc stream_id offer env cls srv
         in bindR (getUfragFromSdp offer) (\<lambda>r1. case r1 of
              None \<Rightarrow> Inr (-1, env_answer env, srv1)
            | Some u \<Rightarrow> bindR (getUfragFromSdp (env_answer env)) (\<lambda>r2. case r2 of
                None \<Rightarrow> Inr (-1, env_answer env, srv1)
              | Some lu \<Rightarrow>
                  let srv2 = set_peer i ((peers srv1 ! i)\<lparr>sender_set := True, ufrag := lu @ '':'' @ u\<rparr>) srv1
                  in Inr (0, env_answer env, srv2\<lparr>SarsPeersUfragMaps :=
                       map_emplace (lu @ '':'' @ u) i (SarsPeersUfragMaps srv2)\<rparr>))))"
  using assms
  by (cases "env_pc env")
    (simp_all add: CreateRtcPeer_def get_peer_def Let_def offered_def SetPC_def emit_set_peer emit_emit
      cong: option.case_cong)

lemma server_ok_offered:
  assumes "server_ok srv" "i < length (peers srv)" "peers srv ! i = RtcPeer cls" "\<not> registered srv i"
  shows "server_ok (offered i pc stream_id offer env cls srv)"
  unfolding offered_def using assms
  by (intro inv_intros) (simp_all add: peer_ok_def RtcPeer_def)

lemma grows_emit [simp]: "grows h (emit es h') = grows h h'"
  by (simp add: grows_def has_class_def)

lemma grows_offered:
  "i < length (peers srv) \<Longrightarrow> peers srv ! i = RtcPeer cls \<Longrightarrow>
     grows srv (offered i pc stream_id offer env cls srv)"
  by (simp add: offered_def grows_set_peer RtcPeer_def)

lemma grows_right [simp]:
  "grows h (srv\<lparr>SarsPeersUfragMaps := m\<rparr>) = grows h srv" for srv :: server
  by (simp add: grows_def has_class_def)

lemma CreateRtcPeer_ok:
  assumes ok: "server_ok srv" and i: "i < length (peers srv)" "peers srv ! i = RtcPeer cls"
    and new: "\<not> registered srv i"
  shows "\<exists>ret answer srv'. CreateRtcPeer i stream_id offer True env srv = Inr (ret, answer, srv')
    \<and> server_ok srv' \<and> grows srv srv' \<and> has_class srv' cls i \<and> scaches srv' = scaches srv"
proof (cases "env_pc env")
  case None
  with ok i show ?thesis
    by (simp add: CreateRtcPeer_eq [OF i] server_ok_emit grows_refl has_class_def RtcPeer_def)
next
  case (Some pc)
  define srv1 where "srv1 = offered i pc stream_id offer env cls srv"
  have ok1: "server_ok srv1" and grow1: "grows srv srv1" and len1: "i < length (peers srv1)"
    and sc1: "scaches srv1 = scaches srv" and cls1: "has_class srv1 cls i"
    using server_ok_offered [OF ok i new] grows_offered [OF i] i
    by (simp_all add: srv1_def offered_def has_class_def RtcPeer_def)
  have p1: "peer_connection (peers srv1 ! i) = Some pc" "peer_scache (peers srv1 ! i) = None"
    "peerconnection_state (peers srv1 ! i) = kNew" "\<not> registered srv1 i" "fp_h264 (peers srv1 ! i) = None"
    using i new by (simp_all add: srv1_def offered_def RtcPeer_def)
  obtain r1 r2 where r: "getUfragFromSdp offer = Inr r1" "getUfragFromSdp (env_answer env) = Inr r2"
    using getUfragFromSdp_defined by metis
  define registered_srv where "registered_srv key =
      (let srv2 = set_peer i ((peers srv1 ! i)\<lparr>sender_set := True, ufrag := key\<rparr>) srv1
       in srv2\<lparr>SarsPeersUfragMaps := map_emplace key i (SarsPeersUfragMaps srv2)\<rparr>)" for key
  have "server_ok (registered_srv key) \<and> grows srv (registered_srv key)
      \<and> has_class (registered_srv key) cls i \<and> scaches (registered_srv key) = scaches srv" for key
  proof -
    let ?srv2 = "set_peer i ((peers srv1 ! i)\<lparr>sender_set := True, ufrag := key\<rparr>) srv1"
    have "server_ok ?srv2"
      by (intro server_ok_set_peer ok1 len1) (use p1 in \<open>simp_all add: peer_ok_def\<close>)
    moreover have "reachable_peer ?srv2 key i"
      using len1 p1 by (simp add: reachable_peer_def)
    moreover have "grows srv ?srv2"
      by (rule grows_trans [OF grow1]) (use len1 in \<open>simp add: grows_set_peer\<close>)
    moreover have "has_class ?srv2 cls i" using cls1 len1 by (simp add: has_class_def)
    ultimately show ?thesis
      using server_ok_register [of ?srv2 key i] sc1 cls1
      by (simp add: registered_srv_def Let_def) (simp add: has_class_def)
  qed
  with Some r show ?thesis
    using ok1 grow1 cls1 sc1
    by (cases r1; cases r2)
      (simp_all add: CreateRtcPeer_eq [OF i] Let_def flip: srv1_def, simp_all add: registered_srv_def Let_def)
qed

end
