(* ===== verification/Signalling.thy ===== *)
theory Signalling
  imports Server_Invariant
begin

text \<open>
  The HTTP signalling of \<open>src/signalling.hpp\<close> and \<open>src/signalling.cpp\<close>, and \<open>main\<close> of \<open>src/sars.cpp\<close>.
  The JSON library is a parameter: \<open>parse\<close> gives the members \<open>sdp\<close> and \<open>streamurl\<close> of a body, or
  \<open>None\<close> when \<open>json::parse\<close> or the conversion of a member throws, and \<open>dump\<close> prints an answer. A
  handler that publishes or plays writes its response before it enters the peer into the stream;
  the write gives up the processor, so that each of the two handlers is a first part, up to and
  including the write, and a second part.
\<close>

section \<open>Publishing\<close>

datatype http_result = COCO_SUCCESS | ERROR_HTTP_HANDLER_INVALID | Ret int

text \<open>The response: its length converted to \<open>int\<close>, its type, and its body. \<open>dump\<close> stands for the JSON
  library's \<open>dump()\<close> of an object with the answer, which throws when the text is not UTF-8: it is
  assumed that the core's answer is.\<close>

definition write_answer :: "(string \<Rightarrow> string) \<Rightarrow> string \<Rightarrow> server \<Rightarrow> server" where
  "write_answer dump answer srv =
     (let res = dump answer
      in emit [Http_Write (size_to_int32 (length res)) ''text/jsonp'' res] srv)"

text \<open>
  The first part: \<open>Inl\<close> the code that the handler returns at once, or \<open>Inr\<close> the new peer and its
  stream. The checks for null pointers, with codes -13 and -14, cannot succeed: both objects come
  from \<open>make_shared\<close>.
\<close>

definition publish_begin ::
  "(string \<Rightarrow> (string \<times> string) option) \<Rightarrow> (string \<Rightarrow> string) \<Rightarrow> string \<Rightarrow> peer_env \<Rightarrow> server
     \<Rightarrow> ((int + nat \<times> nat) \<times> server) res" where
  "publish_begin parse dump body env srv =
     (case parse body of
        None \<Rightarrow> Inl (Thrown ''json'')
      | Some (offer, streamUrl) \<Rightarrow>
          bindR (GetStreamIdFromStreamUrl streamUrl) (\<lambda>streamID.
          let (c, srv) = GetOrCreateStreamCache streamID srv
          in bindR (get_scache srv c) (\<lambda>scache.
             if CanPublish scache = False then Inr (Inl (-15), srv)
             else bindR (CreateRtcPublisher streamID offer env srv) (\<lambda>(peer, answer_sdp, srv).
               Inr (Inr (peer, c), write_answer dump answer_sdp srv)))))"

text \<open>
  \<open>_publisher = publisher\<close> gives up the reference to the previous publisher: an object that neither the
  map of user names nor a stream holds is destroyed, with its connection. Its index keeps an empty
  object, on which the core makes no callbacks. A pending request holds only the peer that it has made
  itself, which has not entered a stream yet. No other assignment of the server can free a peer.
\<close>

definition owned :: "server \<Rightarrow> nat \<Rightarrow> bool" where
  "owned srv j \<longleftrightarrow>
     j \<in> set (map_values (SarsPeersUfragMaps srv))
     \<or> (\<exists>s\<in>set (scaches srv). publisher s = Some j \<or> j \<in> set (players s))"

definition release_peer :: "nat option \<Rightarrow> server \<Rightarrow> server res" where
  "release_peer old srv =
     (case old of
        None \<Rightarrow> Inr srv
      | Some j \<Rightarrow>
          if owned srv j then Inr srv
          else bindR (get_peer srv j) (\<lambda>p. bindR (RtcPeer_destroy p) (\<lambda>es.
            Inr (emit es (set_peer j (RtcPeer (peer_class p)) srv)))))"

definition publish_finish :: "nat \<Rightarrow> nat \<Rightarrow> server \<Rightarrow> server res" where
  "publish_finish peer c srv =
     bindR (get_scache srv c) (\<lambda>s.
     bindR (SetPublisher c peer srv) (\<lambda>srv.
     bindR (release_peer (publisher s) srv) (SetStreamCache peer c)))"

text \<open>The whole handler when nothing comes between its parts; \<open>write_ret\<close> is what \<open>Write\<close> returns.\<close>

definition HandlePublish ::
  "(string \<Rightarrow> (string \<times> string) option) \<Rightarrow> (string \<Rightarrow> string) \<Rightarrow> string \<Rightarrow> peer_env \<Rightarrow> int \<Rightarrow> server
     \<Rightarrow> (http_result \<times> server) res" where
  "HandlePublish parse dump body env write_ret srv =
     bindR (publish_begin parse dump body env srv) (\<lambda>(r, srv).
       case r of
         Inl code \<Rightarrow> Inr (Ret code, srv)
       | Inr (peer, c) \<Rightarrow> bindR (publish_finish peer c srv) (\<lambda>srv. Inr (Ret write_ret, srv)))"

section \<open>Playing\<close>

definition play_begin ::
  "(string \<Rightarrow> (string \<times> string) option) \<Rightarrow> (string \<Rightarrow> string) \<Rightarrow> string \<Rightarrow> peer_env \<Rightarrow> server
     \<Rightarrow> ((int + nat \<times> nat) \<times> server) res" where
  "play_begin parse dump body env srv =
     (case parse body of
        None \<Rightarrow> Inl (Thrown ''json'')
      | Some (offer, streamUrl) \<Rightarrow>
          bindR (GetStreamIdFromStreamUrl streamUrl) (\<lambda>streamID.
          let (c, srv) = GetOrCreateStreamCache streamID srv
          in bindR (get_scache srv c) (\<lambda>scache.
             if CanPublish scache then Inr (Inl (-15), srv)
             else bindR (CreateRtcPlayer streamID offer env srv) (\<lambda>(peer, answer_sdp, srv).
               Inr (Inr (peer, c), write_answer dump answer_sdp srv)))))"

definition play_finish :: "nat \<Rightarrow> nat \<Rightarrow> server \<Rightarrow> server res" where
  "play_finish peer c srv = bindR (AddPlayer c peer srv) (SetStreamCache peer c)"

definition HandlePlay ::
  "(string \<Rightarrow> (string \<times> string) option) \<Rightarrow> (string \<Rightarrow> string) \<Rightarrow> string \<Rightarrow> peer_env \<Rightarrow> server
     \<Rightarrow> (http_result \<times> server) res" where
  "HandlePlay parse dump body env srv =
     bindR (play_begin parse dump body env srv) (\<lambda>(r, srv).
       case r of
         Inl code \<Rightarrow> Inr (Ret code, srv)
       | Inr (peer, c) \<Rightarrow> bindR (play_finish peer c srv) (\<lambda>srv. Inr (Ret 0, srv)))"

definition HandleUnPublish :: "server \<Rightarrow> http_result \<times> server" where
  "HandleUnPublish srv = (Ret 0, srv)"

definition HandleUnPlay :: "server \<Rightarrow> http_result \<times> server" where
  "HandleUnPlay srv = (Ret 0, srv)"

section \<open>The handlers of the HTTP server\<close>

definition PublishHandler_serve_http ::
  "(string \<Rightarrow> (string \<times> string) option) \<Rightarrow> (string \<Rightarrow> string) \<Rightarrow> string \<Rightarrow> string \<Rightarrow> peer_env \<Rightarrow> int \<Rightarrow> server
     \<Rightarrow> (http_result \<times> server) res" where
  "PublishHandler_serve_http parse dump method_str body env write_ret srv =
     (if method_str \<noteq> ''POST'' then Inr (ERROR_HTTP_HANDLER_INVALID, emit [Http_Error 404] srv)
      else HandlePublish parse dump body env write_ret srv)"

definition PlayHandler_serve_http ::
  "(string \<Rightarrow> (string \<times> string) option) \<Rightarrow> (string \<Rightarrow> string) \<Rightarrow> string \<Rightarrow> string \<Rightarrow> peer_env \<Rightarrow> server
     \<Rightarrow> (http_result \<times> server) res" where
  "PlayHandler_serve_http parse dump method_str body env srv =
     (if method_str \<noteq> ''POST'' then Inr (ERROR_HTTP_HANDLER_INVALID, emit [Http_Error 404] srv)
      else HandlePlay parse dump body env srv)"

text \<open>\<open>file\<close> is the content of \<open>../static/index.html\<close>, if it can be opened; the array that it is read
  into is never freed. 200 is \<open>CONSTS_HTTP_OK\<close>.\<close>

definition serveStatic :: "string option \<Rightarrow> int \<Rightarrow> server \<Rightarrow> (http_result \<times> server) res" where
  "serveStatic file write_ret srv =
     (case file of
        None \<Rightarrow> Inl (Exited 1)
      | Some text \<Rightarrow>
          Inr (Ret write_ret,
               emit [Http_Status 200, Http_Write (size_to_int32 (length text)) ''text/html'' text]
                 (srv\<lparr>leaked := leaked srv + 1\<rparr>)))"

definition DefaultHandler_serve_http ::
  "string option \<Rightarrow> string \<Rightarrow> string \<Rightarrow> int \<Rightarrow> server \<Rightarrow> (http_result \<times> server) res" where
  "DefaultHandler_serve_http file path method_str write_ret srv =
     (if path = ''/'' then serveStatic file write_ret srv
      else if path = ''/hello'' \<and> method_str = ''GET''
      then Inr (Ret write_ret, emit [Http_Write 11 ''text/jsonp'' ''hello world''] srv)
      else Inr (COCO_SUCCESS, srv))"

text \<open>The handler objects; their \<open>_sigHandler\<close> is always the one signalling object.\<close>

datatype handler = DefaultHandler | PublishHandler | PlayHandler

definition init_routes :: "(string \<times> handler) list" where
  "init_routes = [(''/'', DefaultHandler), (''/v1/publish'', PublishHandler), (''/v1/play'', PlayHandler)]"

text \<open>The signalling server: its address, and the routes that \<open>init\<close> enters into the multiplexer.\<close>

record signalling =
  sig_ip :: string
  sig_port :: u32
  sig_mux :: "(string \<times> handler) list option"

definition WebRTCSignalling :: "string \<Rightarrow> u32 \<Rightarrow> signalling" where
  "WebRTCSignalling host tcp_port = \<lparr>sig_ip = host, sig_port = tcp_port, sig_mux = None\<rparr>"

definition signalling_init :: "signalling \<Rightarrow> http_result \<times> signalling" where
  "signalling_init sig = (COCO_SUCCESS, sig\<lparr>sig_mux := Some init_routes\<rparr>)"

text \<open>
  \<open>WebRTCSignalling::run\<close> starts the HTTP server on the routes and then flows off its end without
  the value that \<open>main\<close> compares with \<open>COCO_SUCCESS\<close>.
\<close>

definition signalling_run :: "signalling \<Rightarrow> (int \<times> signalling) res" where
  "signalling_run sig = (let (_, sig) = signalling_init sig in Inl Missing_Return)"

definition main_start :: "bool \<Rightarrow> int \<Rightarrow> (int \<times> server) res" where
  "main_start listen start =
     (let (ret, srv) = run listen start (RTCServer ''0.0.0.0'' 18000 ''49.232.131.173'')
      in if ret \<noteq> 0 then Inr (ret, srv)
         else bindR (signalling_run (WebRTCSignalling ''0.0.0.0'' 18080)) (\<lambda>(ret, _). Inr (ret, srv)))"

end
