(* ===== verification/Stun_Serialize.thy ===== *)
theory Stun_Serialize
  imports Stun_Reference
begin

text \<open>
  \<open>Stun::Serialize\<close> of \<open>src/Stun.cpp\<close>, writing in place into the caller's buffer: the size
  computed beforehand, the header, one writer per attribute in the order of the source, the
  message integrity with its temporary change of the length field, and the fingerprint. A writer
  takes and returns the buffer and the position. Every writer keeps the contract
  \<open>attribute_writer\<close>, from which the layout of the whole message follows.
\<close>

section \<open>Sizes and fields\<close>

definition usernamePaddedLen :: "stun \<Rightarrow> u16" where
  "usernamePaddedLen s =
     (if username s \<noteq> '''' then PadTo4Bytes16 (word_of_nat (length (username s))) else 0)"

text \<open>The flag after the switch over the family, which may reset it.\<close>

definition addXorMappedAddress :: "stun \<Rightarrow> bool" where
  "addXorMappedAddress s =
     (case xorMappedAddress s of
        None \<Rightarrow> False
      | Some a \<Rightarrow> stun_method s = BINDING \<and> klass s = SUCCESS_RESPONSE
                  \<and> (sa_family a = AF_INET \<or> sa_family a = AF_INET6))"

definition xorMappedAddressPaddedLen :: "stun \<Rightarrow> u16" where
  "xorMappedAddressPaddedLen s =
     (if \<not> addXorMappedAddress s then 0
      else if map_option sa_family (xorMappedAddress s) = Some AF_INET then 8 else 20)"

definition addErrorCode :: "stun \<Rightarrow> bool" where
  "addErrorCode s \<longleftrightarrow> errorCode s \<noteq> 0 \<and> klass s = ERROR_RESPONSE"

definition addMessageIntegrity :: "stun \<Rightarrow> bool" where
  "addMessageIntegrity s \<longleftrightarrow> klass s \<noteq> ERROR_RESPONSE \<and> password s \<noteq> ''''"

definition serialize_size :: "stun \<Rightarrow> nat" where
  "serialize_size s =
     20 + (if username s \<noteq> '''' then 4 + unat (usernamePaddedLen s) else 0)
        + (if priority s \<noteq> 0 then 4 + 4 else 0)
        + (if iceControlling s \<noteq> 0 then 4 + 8 else 0)
        + (if iceControlled s \<noteq> 0 then 4 + 8 else 0)
        + (if hasUseCandidate s then 4 else 0)
        + (if addXorMappedAddress s then 4 + unat (xorMappedAddressPaddedLen s) else 0)
        + (if addErrorCode s then 4 + 4 else 0)
        + (if addMessageIntegrity s then 4 + 20 else 0)
        + (4 + 4)"

definition typeField :: "stun \<Rightarrow> u16" where
  "typeField s =
     push_bit 2 (stun_method s AND 0x0f80) OR push_bit 1 (stun_method s AND 0x0070) OR (stun_method s AND 0x000f)
     OR push_bit 7 (class_code (klass s) AND 0x02) OR push_bit 4 (class_code (klass s) AND 0x01)"

section \<open>Writers\<close>

type_synonym cursor = "bytes \<times> nat"

definition write_header :: "stun \<Rightarrow> bytes \<Rightarrow> bytes res" where
  "write_header s buffer =
     bindR (Set2Bytes buffer 0 (typeField s)) (\<lambda>b.
     bindR (Set2Bytes b 2 (word_of_nat (serialize_size s) - 20)) (\<lambda>b.
     bindR (wr_block b 4 magicCookie) (\<lambda>b.
     bindR (rd_block (transactionId s) 0 12) (\<lambda>tid. wr_block b 8 tid))))"

definition write_username :: "stun \<Rightarrow> cursor \<Rightarrow> cursor res" where
  "write_username s = (\<lambda>(buffer, pos).
     if usernamePaddedLen s \<noteq> 0 then
       bindR (Set2Bytes buffer pos (attribute_code USERNAME)) (\<lambda>b.
       bindR (Set2Bytes b (pos + 2) (word_of_nat (length (username s)))) (\<lambda>b.
       bindR (wr_block b (pos + 4) (bytes_of_string (username s))) (\<lambda>b.
         Inr (b, pos + 4 + unat (usernamePaddedLen s)))))
     else Inr (buffer, pos))"

definition write_priority :: "stun \<Rightarrow> cursor \<Rightarrow> cursor res" where
  "write_priority s = (\<lambda>(buffer, pos).
     if priority s \<noteq> 0 then
       bindR (Set2Bytes buffer pos (attribute_code PRIORITY)) (\<lambda>b.
       bindR (Set2Bytes b (pos + 2) 4) (\<lambda>b.
       bindR (Set4Bytes b (pos + 4) (priority s)) (\<lambda>b. Inr (b, pos + 4 + 4))))
     else Inr (buffer, pos))"

definition write_ice_controlling :: "stun \<Rightarrow> cursor \<Rightarrow> cursor res" where
  "write_ice_controlling s = (\<lambda>(buffer, pos).
     if iceControlling s \<noteq> 0 then
       bindR (Set2Bytes buffer pos (attribute_code ICE_CONTROLLING)) (\<lambda>b.
       bindR (Set2Bytes b (pos + 2) 8) (\<lambda>b.
       bindR (Set8Bytes b (pos + 4) (iceControlling s)) (\<lambda>b. Inr (b, pos + 4 + 8))))
     else Inr (buffer, pos))"

definition write_ice_controlled :: "stun \<Rightarrow> cursor \<Rightarrow> cursor res" where
  "write_ice_controlled s = (\<lambda>(buffer, pos).
     if iceControlled s \<noteq> 0 then
       bindR (Set2Bytes buffer pos (attribute_code ICE_CONTROLLED)) (\<lambda>b.
       bindR (Set2Bytes b (pos + 2) 8) (\<lambda>b.
       bindR (Set8Bytes b (pos + 4) (iceControlled s)) (\<lambda>b. Inr (b, pos + 4 + 8))))
     else Inr (buffer, pos))"

definition write_use_candidate :: "stun \<Rightarrow> cursor \<Rightarrow> cursor res" where
  "write_use_candidate s = (\<lambda>(buffer, pos).
     if hasUseCandidate s then
       bindR (Set2Bytes buffer pos (attribute_code USE_CANDIDATE)) (\<lambda>b.
       bindR (Set2Bytes b (pos + 2) 0) (\<lambda>b. Inr (b, pos + 4)))
     else Inr (buffer, pos))"

text \<open>\<open>buffer[i] ^= mask[0]; buffer[i + 1] ^= mask[1]; \<dots>\<close>\<close>

fun xor_block :: "bytes \<Rightarrow> nat \<Rightarrow> bytes \<Rightarrow> bytes res" where
  "xor_block buffer i [] = Inr buffer"
| "xor_block buffer i (m # ms) =
     bindR (rd buffer i) (\<lambda>x. bindR (wr buffer i (x XOR m)) (\<lambda>b. xor_block b (i + 1) ms))"

text \<open>
  The two cases of the XOR-MAPPED-ADDRESS switch, with \<open>v\<close> the position of the value. The
  transaction identifier is read back from the buffer, where \<open>transactionId\<close> points by then.
\<close>

definition write_xor_address4 :: "sockaddr \<Rightarrow> bytes \<Rightarrow> nat \<Rightarrow> bytes res" where
  "write_xor_address4 a buffer v =
     bindR (wr buffer v 0) (\<lambda>b.
     bindR (wr b (v + 1) 0x01) (\<lambda>b.
     bindR (sin_port a) (\<lambda>port. bindR (wr_block b (v + 2) port) (\<lambda>b.
     bindR (xor_block b (v + 2) (take 2 magicCookie)) (\<lambda>b.
     bindR (sin_addr a) (\<lambda>addr. bindR (wr_block b (v + 4) addr) (\<lambda>b.
     xor_block b (v + 4) magicCookie)))))))"

definition write_xor_address6 :: "sockaddr \<Rightarrow> bytes \<Rightarrow> nat \<Rightarrow> bytes res" where
  "write_xor_address6 a buffer v =
     bindR (wr buffer v 0) (\<lambda>b.
     bindR (wr b (v + 1) 0x02) (\<lambda>b.
     bindR (sin_port a) (\<lambda>port. bindR (wr_block b (v + 2) port) (\<lambda>b.
     bindR (xor_block b (v + 2) (take 2 magicCookie)) (\<lambda>b.
     bindR (sin6_addr a) (\<lambda>addr. bindR (wr_block b (v + 4) addr) (\<lambda>b.
     bindR (xor_block b (v + 4) magicCookie) (\<lambda>b.
     bindR (rd_block b 8 12) (\<lambda>tid. xor_block b (v + 8) tid)))))))))"

definition write_xor_mapped_address :: "stun \<Rightarrow> cursor \<Rightarrow> cursor res" where
  "write_xor_mapped_address s = (\<lambda>(buffer, pos).
     if addXorMappedAddress s then
       (case xorMappedAddress s of
          None \<Rightarrow> Inl Null_Deref
        | Some a \<Rightarrow>
            bindR (Set2Bytes buffer pos (attribute_code XOR_MAPPED_ADDRESS)) (\<lambda>b.
            bindR (Set2Bytes b (pos + 2) (xorMappedAddressPaddedLen s)) (\<lambda>b.
              if sa_family a = AF_INET
              then bindR (write_xor_address4 a b (pos + 4)) (\<lambda>b. Inr (b, pos + 4 + 8))
              else if sa_family a = AF_INET6
              then bindR (write_xor_address6 a b (pos + 4)) (\<lambda>b. Inr (b, pos + 4 + 20))
              else Inr (b, pos))))
     else Inr (buffer, pos))"

definition codeClass :: "u16 \<Rightarrow> u8" where
  "codeClass e = ucast (e div 100)"

definition codeNumber :: "u16 \<Rightarrow> u8" where
  "codeNumber e = ucast e - codeClass e * 100"

definition write_error_code :: "stun \<Rightarrow> cursor \<Rightarrow> cursor res" where
  "write_error_code s = (\<lambda>(buffer, pos).
     if addErrorCode s then
       bindR (Set2Bytes buffer pos (attribute_code ERROR_CODE)) (\<lambda>b.
       bindR (Set2Bytes b (pos + 2) 4) (\<lambda>b.
       bindR (Set2Bytes b (pos + 4) 0) (\<lambda>b.
       bindR (Set1Byte b (pos + 6) (codeClass (errorCode s))) (\<lambda>b.
       bindR (Set1Byte b (pos + 7) (codeNumber (errorCode s))) (\<lambda>b. Inr (b, pos + 4 + 4))))))
     else Inr (buffer, pos))"

definition write_message_integrity ::
  "(bytes \<Rightarrow> bytes \<Rightarrow> bytes) \<Rightarrow> crypto \<Rightarrow> stun \<Rightarrow> cursor \<Rightarrow> cursor res" where
  "write_message_integrity hmac c s = (\<lambda>(buffer, pos).
     if addMessageIntegrity s then
       bindR (Set2Bytes buffer 2 (word_of_nat (serialize_size s - 20 - 8))) (\<lambda>b.
       bindR (GetHmacShA1 hmac c (bytes_of_string (password s)) b pos) (\<lambda>computed.
       bindR (Set2Bytes b pos (attribute_code MESSAGE_INTEGRITY)) (\<lambda>b.
       bindR (Set2Bytes b (pos + 2) 20) (\<lambda>b.
       bindR (rd_block computed 0 20) (\<lambda>mac. bindR (wr_block b (pos + 4) mac) (\<lambda>b.
       bindR (Set2Bytes b 2 (word_of_nat (serialize_size s - 20))) (\<lambda>b.
         Inr (b, pos + 4 + 20))))))))
     else Inr (buffer, pos))"

definition write_fingerprint :: "cursor \<Rightarrow> cursor res" where
  "write_fingerprint = (\<lambda>(buffer, pos).
     bindR (GetCRC32 buffer pos) (\<lambda>crc.
     bindR (Set2Bytes buffer pos (attribute_code FINGERPRINT)) (\<lambda>b.
     bindR (Set2Bytes b (pos + 2) 4) (\<lambda>b.
     bindR (Set4Bytes b (pos + 4) (crc XOR 0x5354554e)) (\<lambda>b. Inr (b, pos + 4 + 4))))))"

text \<open>
  The whole operation: the object updated and the buffer, to which its \<open>data\<close> points. The
  position behind the last attribute is returned too; the source compares it with the size in a
  commented-out assertion.
\<close>

definition write_plain_attributes :: "stun \<Rightarrow> cursor \<Rightarrow> cursor res" where
  "write_plain_attributes s c =
     bindR (write_username s c) (\<lambda>c.
     bindR (write_priority s c) (\<lambda>c.
     bindR (write_ice_controlling s c) (\<lambda>c.
     bindR (write_ice_controlled s c) (\<lambda>c.
     bindR (write_use_candidate s c) (\<lambda>c.
     bindR (write_xor_mapped_address s c) (\<lambda>c.
     write_error_code s c))))))"

definition Serialize ::
  "(bytes \<Rightarrow> bytes \<Rightarrow> bytes) \<Rightarrow> crypto \<Rightarrow> stun \<Rightarrow> bytes \<Rightarrow> (stun \<times> cursor) res" where
  "Serialize hmac c s buffer =
     bindR (write_header s buffer) (\<lambda>b.
     bindR (write_plain_attributes s (b, 20)) (\<lambda>(b, pos).
     bindR (write_message_integrity hmac c s (b, pos)) (\<lambda>(b, pos').
     bindR (write_fingerprint (b, pos')) (\<lambda>(b, pos'').
       Inr (s\<lparr>stun_data := Some b, stun_size := serialize_size s,
              transactionId := take 12 (drop 8 b),
              messageIntegrity := (if addMessageIntegrity s then Some (pos + 4) else None),
              hasFingerprint := True\<rparr>, (b, pos''))))))"

section \<open>The contract of a writer\<close>

lemma wr_block_join_up:
  assumes "j = i + length as"
  shows "bindR (wr_block d i as) (\<lambda>d. wr_block d j bs) = wr_block d i (as @ bs)"
    and "bindR (wr_block d i as) (\<lambda>d. bindR (wr_block d j bs) f) = bindR (wr_block d i (as @ bs)) f"
proof -
  show eq: "bindR (wr_block d i as) (\<lambda>d. wr_block d j bs) = wr_block d i (as @ bs)"
  proof (cases "i + length as \<le> length d")
    case True
    then have "i \<le> length d" by simp
    with True assms show ?thesis by (simp add: wr_block_def min_absorb2 ac_simps)
  qed (use assms in \<open>simp add: wr_block_def\<close>)
  show "bindR (wr_block d i as) (\<lambda>d. bindR (wr_block d j bs) f) = bindR (wr_block d i (as @ bs)) f"
    by (simp add: eq flip: bindR_assoc)
qed

text \<open>
  At a position behind a prefix that the writer accepts, the writer replaces the next \<open>width\<close>
  bytes by the encoding of the attributes \<open>ts\<close>, which may depend on the prefix and on the bytes
  that were there, leaves all other bytes, and moves on by \<open>width\<close>.
\<close>

abbreviation enc_tlvs :: "tlv list \<Rightarrow> bytes" where
  "enc_tlvs ts \<equiv> concat (map enc_tlv ts)"

locale attribute_writer =
  fixes ok :: "bytes \<Rightarrow> bool"
    and emit :: "cursor \<Rightarrow> cursor res"
    and width :: nat
    and ts :: "bytes \<Rightarrow> bytes \<Rightarrow> tlv list"
  assumes ok_append: "ok pre \<Longrightarrow> ok (pre @ rest)"
    and emit_at: "ok pre \<Longrightarrow> length old = width \<Longrightarrow>
      emit (pre @ old @ post, length pre)
        = Inr (pre @ enc_tlvs (ts pre old) @ post, length pre + width)"
    and ts_ok: "ok pre \<Longrightarrow> length old = width \<Longrightarrow> list_all tlv_ok (ts pre old)"
    and ts_length: "ok pre \<Longrightarrow> length old = width \<Longrightarrow> length (enc_tlvs (ts pre old)) = width"
begin

lemma emit_in_bounds:
  assumes "ok (take pos buffer)" "pos + width \<le> length buffer"
  obtains buffer' where "emit (buffer, pos) = Inr (buffer', pos + width)"
    "length buffer' = length buffer" "take pos buffer' = take pos buffer"
    "drop (pos + width) buffer' = drop (pos + width) buffer"
proof -
  from assms(2) obtain pre old post where d: "buffer = pre @ old @ post" "length pre = pos" "length old = width"
    by (rule list_three_way_split)
  with assms(1) have "ok pre" by simp
  from emit_at [OF this d(3)] ts_length [OF this d(3)] d that show thesis by simp
qed

end

lemma attribute_writer_seq:
  assumes a: "attribute_writer ok w n ts" and b: "attribute_writer ok w' n' ts'"
  shows "attribute_writer ok (\<lambda>c. bindR (w c) w') (n + n')
     (\<lambda>pre old. ts pre (take n old) @ ts' (pre @ enc_tlvs (ts pre (take n old))) (drop n old))"
proof (unfold_locales)
  fix pre old :: bytes and post
  assume ok: "ok pre" and old: "length old = n + n'"
  define mid where "mid = enc_tlvs (ts pre (take n old))"
  have l1: "length (take n old) = n" and l2: "length (drop n old) = n'" using old by simp_all
  have mid: "length mid = n"
    unfolding mid_def by (rule attribute_writer.ts_length [OF a ok l1])
  have ok': "ok (pre @ mid)" by (rule attribute_writer.ok_append [OF a ok])
  have "w (pre @ take n old @ drop n old @ post, length pre)
      = Inr (pre @ mid @ drop n old @ post, length pre + n)"
    unfolding mid_def by (rule attribute_writer.emit_at [OF a ok l1])
  then have 1: "w (pre @ old @ post, length pre) = Inr (pre @ mid @ drop n old @ post, length pre + n)"
    by (simp only: append_assoc [symmetric] append_take_drop_id)
  have "w' ((pre @ mid) @ drop n old @ post, length (pre @ mid))
      = Inr ((pre @ mid) @ enc_tlvs (ts' (pre @ mid) (drop n old)) @ post, length (pre @ mid) + n')"
    by (rule attribute_writer.emit_at [OF b ok' l2])
  with 1 show "bindR (w (pre @ old @ post, length pre)) w'
      = Inr (pre @ enc_tlvs (ts pre (take n old)
               @ ts' (pre @ enc_tlvs (ts pre (take n old))) (drop n old)) @ post,
             length pre + (n + n'))"
    by (simp add: mid flip: mid_def)
  show "list_all tlv_ok (ts pre (take n old)
      @ ts' (pre @ enc_tlvs (ts pre (take n old))) (drop n old))"
    using attribute_writer.ts_ok [OF a ok l1] attribute_writer.ts_ok [OF b ok' l2]
    by (simp flip: mid_def)
  show "length (enc_tlvs (ts pre (take n old)
      @ ts' (pre @ enc_tlvs (ts pre (take n old))) (drop n old))) = n + n'"
    using mid attribute_writer.ts_length [OF b ok' l2] by (simp flip: mid_def)
qed (rule attribute_writer.ok_append [OF a])

text \<open>A writer that is one block write of a fixed sequence of attributes, when its flag is set.\<close>

lemma attribute_writer_block:
  assumes "\<And>pre rest. ok pre \<Longrightarrow> ok (pre @ rest)" "list_all tlv_ok ts"
    and "\<And>pre old post. ok pre \<Longrightarrow> length old = length (enc_tlvs ts) \<Longrightarrow>
      w (pre @ old @ post, length pre) =
        bindR (wr_block (pre @ old @ post) (length pre) (enc_tlvs ts))
          (\<lambda>b. Inr (b, length pre + length (enc_tlvs ts)))"
    and "n = length (enc_tlvs ts)"
  shows "attribute_writer ok w n (\<lambda>_ _. ts)"
  using assms by unfold_locales (simp_all add: wr_block_at)

section \<open>The attributes of a message\<close>

definition username_tlvs :: "stun \<Rightarrow> bytes \<Rightarrow> tlv list" where
  "username_tlvs s stale =
     (if username s \<noteq> '''' then [(attribute_code USERNAME, bytes_of_string (username s), stale)] else [])"

definition priority_tlvs :: "stun \<Rightarrow> tlv list" where
  "priority_tlvs s =
     (if priority s \<noteq> 0 then [(attribute_code PRIORITY, be4 (priority s), [])] else [])"

definition controlling_tlvs :: "stun \<Rightarrow> tlv list" where
  "controlling_tlvs s =
     (if iceControlling s \<noteq> 0 then [(attribute_code ICE_CONTROLLING, be8 (iceControlling s), [])] else [])"

definition controlled_tlvs :: "stun \<Rightarrow> tlv list" where
  "controlled_tlvs s =
     (if iceControlled s \<noteq> 0 then [(attribute_code ICE_CONTROLLED, be8 (iceControlled s), [])] else [])"

definition candidate_tlvs :: "stun \<Rightarrow> tlv list" where
  "candidate_tlvs s = (if hasUseCandidate s then [(attribute_code USE_CANDIDATE, [], [])] else [])"

definition address_value :: "bytes \<Rightarrow> sockaddr \<Rightarrow> bytes" where
  "address_value tid a =
     (if sa_family a = AF_INET
      then [0, 1] @ map2 (XOR) (take 2 (sa_data a)) (take 2 magicCookie)
                  @ map2 (XOR) (take 4 (drop 2 (sa_data a))) magicCookie
      else [0, 2] @ map2 (XOR) (take 2 (sa_data a)) (take 2 magicCookie)
                  @ map2 (XOR) (take 16 (drop 6 (sa_data a))) (magicCookie @ tid))"

definition address_tlvs :: "stun \<Rightarrow> tlv list" where
  "address_tlvs s =
     (if addXorMappedAddress s
      then [(attribute_code XOR_MAPPED_ADDRESS,
             address_value (transactionId s) (the (xorMappedAddress s)), [])]
      else [])"

definition error_tlvs :: "stun \<Rightarrow> tlv list" where
  "error_tlvs s =
     (if addErrorCode s
      then [(attribute_code ERROR_CODE, [0, 0, codeClass (errorCode s), codeNumber (errorCode s)], [])]
      else [])"

text \<open>What a message must satisfy for its size field and its addresses to make sense.\<close>

definition serializable :: "stun \<Rightarrow> bool" where
  "serializable s \<longleftrightarrow>
     length (transactionId s) = 12 \<and> pad_to_4 (length (username s)) < 2 ^ 16
     \<and> (case xorMappedAddress s of None \<Rightarrow> True | Some a \<Rightarrow> sockaddr_complete a)"

definition header_written :: "stun \<Rightarrow> bytes \<Rightarrow> bool" where
  "header_written s pre \<longleftrightarrow>
     20 \<le> length pre \<and> take 2 (drop 2 pre) = be2 (word_of_nat (serialize_size s - 20))
     \<and> take 12 (drop 8 pre) = transactionId s"

lemma header_written_append: "header_written s pre \<Longrightarrow> header_written s (pre @ rest)"
  by (simp add: header_written_def)

lemma zero_word_be2 [simp]: "be2 0 = [0, 0]"
  by (simp add: be2_def)

lemma priority_writer:
  "attribute_writer (header_written s) (write_priority s) (if priority s \<noteq> 0 then 8 else 0)
     (\<lambda>_ _. priority_tlvs s)"
  by (rule attribute_writer_block)
    (auto simp: header_written_append priority_tlvs_def write_priority_def codec_simps
      wr_block_join_up pad_to_4_def wr_block_def split: if_splits)

interpretation priority_attr: attribute_writer "header_written s" "write_priority s" "if priority s \<noteq> 0 then 8 else 0" "\<lambda>_ _. priority_tlvs s" for s
  by (rule priority_writer)

lemma controlling_writer:
  "attribute_writer (header_written s) (write_ice_controlling s)
     (if iceControlling s \<noteq> 0 then 12 else 0) (\<lambda>_ _. controlling_tlvs s)"
  by (rule attribute_writer_block)
    (auto simp: header_written_append controlling_tlvs_def write_ice_controlling_def codec_simps
      wr_block_join_up pad_to_4_def wr_block_def split: if_splits)

interpretation controlling_attr: attribute_writer "header_written s" "write_ice_controlling s" "if iceControlling s \<noteq> 0 then 12 else 0" "\<lambda>_ _. controlling_tlvs s" for s
  by (rule controlling_writer)

lemma controlled_writer:
  "attribute_writer (header_written s) (write_ice_controlled s)
     (if iceControlled s \<noteq> 0 then 12 else 0) (\<lambda>_ _. controlled_tlvs s)"
  by (rule attribute_writer_block)
    (auto simp: header_written_append controlled_tlvs_def write_ice_controlled_def codec_simps
      wr_block_join_up pad_to_4_def wr_block_def split: if_splits)

interpretation controlled_attr: attribute_writer "header_written s" "write_ice_controlled s" "if iceControlled s \<noteq> 0 then 12 else 0" "\<lambda>_ _. controlled_tlvs s" for s
  by (rule controlled_writer)

lemma candidate_writer:
  "attribute_writer (header_written s) (write_use_candidate s)
     (if hasUseCandidate s then 4 else 0) (\<lambda>_ _. candidate_tlvs s)"
  by (rule attribute_writer_block)
    (auto simp: header_written_append candidate_tlvs_def write_use_candidate_def codec_simps
      wr_block_join_up pad_to_4_def wr_block_def split: if_splits)

interpretation candidate_attr: attribute_writer "header_written s" "write_use_candidate s" "if hasUseCandidate s then 4 else 0" "\<lambda>_ _. candidate_tlvs s" for s
  by (rule candidate_writer)

lemma error_writer:
  "attribute_writer (header_written s) (write_error_code s)
     (if addErrorCode s then 8 else 0) (\<lambda>_ _. error_tlvs s)"
  by (rule attribute_writer_block)
    (auto simp: header_written_append error_tlvs_def write_error_code_def codec_simps
      wr_block_join_up pad_to_4_def wr_block_def split: if_splits)

interpretation error_attr: attribute_writer "header_written s" "write_error_code s" "if addErrorCode s then 8 else 0" "\<lambda>_ _. error_tlvs s" for s
  by (rule error_writer)

lemma wr_block_after:
  "i = length pre \<Longrightarrow> length old = length new \<Longrightarrow>
     wr_block (pre @ old @ post) i new = Inr (pre @ new @ post)"
  by (simp add: wr_block_at)

lemma usernamePaddedLen_eq:
  "serializable s \<Longrightarrow>
     unat (usernamePaddedLen s) = (if username s \<noteq> '''' then pad_to_4 (length (username s)) else 0)"
  by (simp add: serializable_def usernamePaddedLen_def unat_PadTo4Bytes16_small)

lemma username_writer:
  assumes "serializable s"
  shows "attribute_writer (header_written s) (write_username s)
     (if username s \<noteq> '''' then 4 + pad_to_4 (length (username s)) else 0)
     (\<lambda>_ old. username_tlvs s (drop (4 + length (username s)) old))"
proof (cases "username s = ''''")
  case True
  then show ?thesis
    by unfold_locales
      (simp_all add: header_written_append write_username_def usernamePaddedLen_def username_tlvs_def)
next
  case False
  define n where "n = length (username s)"
  have "0 < n" "n \<le> pad_to_4 n" using False by (simp_all add: n_def pad_to_4_bounds)
  have u: "unat (usernamePaddedLen s) = pad_to_4 n"
    using usernamePaddedLen_eq [OF assms] False by (simp add: n_def)
  have "usernamePaddedLen s \<noteq> 0"
    using u \<open>0 < n\<close> \<open>n \<le> pad_to_4 n\<close> by (metis unsigned_0 le_zero_eq less_nat_zero_code)
  show ?thesis
  proof (unfold_locales)
    fix pre old :: bytes and post
    assume "length old = (if username s \<noteq> '''' then 4 + pad_to_4 (length (username s)) else 0)"
    then have old: "length old = 4 + pad_to_4 n" using False by (simp add: n_def)
    let ?e = "be2 (attribute_code USERNAME) @ be2 (word_of_nat n) @ bytes_of_string (username s)"
    have "write_username s (pre @ old @ post, length pre)
        = bindR (wr_block (pre @ old @ post) (length pre) ?e) (\<lambda>b. Inr (b, length pre + 4 + pad_to_4 n))"
      using \<open>usernamePaddedLen s \<noteq> 0\<close>
      by (simp add: write_username_def codec_simps wr_block_join_up u flip: n_def)
    also have "\<dots> = Inr (pre @ ?e @ drop (4 + n) old @ post, length pre + 4 + pad_to_4 n)"
    proof -
      have "wr_block (pre @ take (4 + n) old @ drop (4 + n) old @ post) (length pre) ?e
          = Inr (pre @ ?e @ drop (4 + n) old @ post)"
        by (rule wr_block_at) (use old \<open>n \<le> pad_to_4 n\<close> in \<open>simp add: n_def\<close>)
      then have "wr_block (pre @ old @ post) (length pre) ?e = Inr (pre @ ?e @ drop (4 + n) old @ post)"
        by (simp only: append_assoc [symmetric] append_take_drop_id)
      then show ?thesis by simp
    qed
    finally show "write_username s (pre @ old @ post, length pre)
        = Inr (pre @ enc_tlvs (username_tlvs s (drop (4 + length (username s)) old)) @ post,
             length pre + (if username s \<noteq> '''' then 4 + pad_to_4 (length (username s)) else 0))"
      using False by (simp add: username_tlvs_def flip: n_def)
    show "list_all tlv_ok (username_tlvs s (drop (4 + length (username s)) old))"
      using False old \<open>n \<le> pad_to_4 n\<close> assms
      by (simp add: username_tlvs_def serializable_def flip: n_def)
    show "length (enc_tlvs (username_tlvs s (drop (4 + length (username s)) old)))
        = (if username s \<noteq> '''' then 4 + pad_to_4 (length (username s)) else 0)"
      using False old \<open>n \<le> pad_to_4 n\<close> by (simp add: username_tlvs_def flip: n_def)
  qed (rule header_written_append)
qed

lemma xor_block_at:
  "length old = length ms \<Longrightarrow>
     xor_block (pre @ old @ post) (length pre) ms = Inr (pre @ map2 (XOR) old ms @ post)"
proof (induction ms arbitrary: pre old)
  case (Cons m ms)
  then obtain x xs where old: "old = x # xs" "length xs = length ms" by (auto simp: length_Suc_conv)
  have "xor_block ((pre @ [x XOR m]) @ xs @ post) (length (pre @ [x XOR m])) ms
      = Inr ((pre @ [x XOR m]) @ map2 (XOR) xs ms @ post)"
    by (rule Cons.IH) (rule old)
  then show ?case by (simp add: old wr_def)
qed simp

lemma xor_block_after:
  "i = length pre \<Longrightarrow> length old = length ms \<Longrightarrow>
     xor_block (pre @ old @ post) i ms = Inr (pre @ map2 (XOR) old ms @ post)"
  by (simp add: xor_block_at)

text \<open>The steps that both address families share, up to the continuation \<open>f\<close>.\<close>

lemma xor_value_at:
  assumes "length p = 2" "4 \<le> length h" "length old = 4 + length h"
  shows "bindR (wr_block (pre @ old @ post) (length pre) (0 # k # p)) (\<lambda>b.
         bindR (xor_block b (length pre + 2) (take 2 magicCookie)) (\<lambda>b.
         bindR (wr_block b (length pre + 4) h) (\<lambda>b.
         bindR (xor_block b (length pre + 4) magicCookie) f)))
    = f (pre @ [0, k] @ map2 (XOR) p (take 2 magicCookie) @ map2 (XOR) (take 4 h) magicCookie
           @ drop 4 h @ post)"
proof -
  define q where "q = map2 (XOR) p (take 2 magicCookie)"
  define v where "v = drop 4 old"
  define r where "r = drop 4 h"
  have len: "length q = 2" "length v = length h" "length (take 4 h) = 4"
    using assms by (simp_all add: q_def v_def min_def)
  have old: "old = take 4 old @ v" by (simp add: v_def)
  have h_post: "h @ post = take 4 h @ r @ post" by (simp add: r_def flip: append_assoc)
  have 1: "wr_block (pre @ old @ post) (length pre) (0 # k # p) = Inr (pre @ 0 # k # p @ v @ post)"
    using wr_block_at [of "take 4 old" "0 # k # p" pre "v @ post"] assms old
    by (simp flip: append_assoc)
  have 2: "xor_block (pre @ 0 # k # p @ v @ post) (length pre + 2) (take 2 magicCookie)
      = Inr (pre @ 0 # k # q @ v @ post)"
    using xor_block_at [of p "take 2 magicCookie" "pre @ [0, k]" "v @ post"] assms by (simp add: q_def)
  have 3: "wr_block (pre @ 0 # k # q @ v @ post) (length pre + 4) h = Inr (pre @ 0 # k # q @ h @ post)"
    using wr_block_at [of v h "pre @ 0 # k # q" post] len by simp
  have "xor_block ((pre @ 0 # k # q) @ take 4 h @ r @ post) (length (pre @ 0 # k # q)) magicCookie
      = Inr ((pre @ 0 # k # q) @ map2 (XOR) (take 4 h) magicCookie @ r @ post)"
    by (rule xor_block_at) (simp add: min_absorb2 assms(2))
  then have 4: "xor_block (pre @ 0 # k # q @ h @ post) (length pre + 4) magicCookie
      = Inr (pre @ 0 # k # q @ map2 (XOR) (take 4 h) magicCookie @ r @ post)"
    unfolding h_post using len(1) by simp
  show ?thesis by (simp only: 1 2 3 4 bindR_Inr) (simp add: q_def r_def)
qed

lemma write_xor_address4_at:
  assumes "sockaddr_complete a" "sa_family a = AF_INET" "length old = 8"
  shows "write_xor_address4 a (pre @ old @ post) (length pre) = Inr (pre @ address_value tid a @ post)"
proof -
  have port: "sin_port a = Inr (take 2 (sa_data a))"
    and addr: "sin_addr a = Inr (take 4 (drop 2 (sa_data a)))"
    and len: "14 \<le> length (sa_data a)"
    using assms by (simp_all add: sin_port_def sin_addr_def sockaddr_complete_def)
  then show ?thesis
    using xor_value_at [of "take 2 (sa_data a)" "take 4 (drop 2 (sa_data a))" old pre post 1 Inr] assms
    by (simp add: write_xor_address4_def wr_as_block wr_block_join_up address_value_def)
qed

lemma write_xor_address6_at:
  assumes "sockaddr_complete a" "sa_family a = AF_INET6" "length old = 20"
    and tid: "length tid = 12" "take 12 (drop 8 pre) = tid" "20 \<le> length pre"
  shows "write_xor_address6 a (pre @ old @ post) (length pre) = Inr (pre @ address_value tid a @ post)"
proof -
  define p where "p = take 2 (sa_data a)"
  define h where "h = take 16 (drop 6 (sa_data a))"
  define q where "q = [0, 2] @ map2 (XOR) p (take 2 magicCookie) @ map2 (XOR) (take 4 h) magicCookie"
  have port: "sin_port a = Inr p" and addr: "sin6_addr a = Inr h"
    and len: "length p = 2" "length h = 16"
    using assms by (simp_all add: sin_port_def sin6_addr_def sockaddr_complete_def p_def h_def)
  let ?f = "\<lambda>b. bindR (rd_block b 8 12) (\<lambda>tid. xor_block b (length pre + 8) tid)"
  have "write_xor_address6 a (pre @ old @ post) (length pre) = ?f (pre @ q @ drop 4 h @ post)"
    using xor_value_at [of p h old pre post 2 ?f] assms(3) len
    by (simp add: write_xor_address6_def wr_as_block wr_block_join_up port addr q_def)
  also have "rd_block (pre @ q @ drop 4 h @ post) 8 12 = Inr tid"
    using tid by simp
  also have "bindR (Inr tid) (xor_block (pre @ q @ drop 4 h @ post) (length pre + 8))
      = Inr (pre @ q @ map2 (XOR) (drop 4 h) tid @ post)"
    using xor_block_at [of "drop 4 h" tid "pre @ q" post] len tid by (simp add: q_def)
  also have "q @ map2 (XOR) (drop 4 h) tid @ post = address_value tid a @ post"
  proof -
    have "map2 (XOR) (take 4 h @ drop 4 h) (magicCookie @ tid)
        = map2 (XOR) (take 4 h) magicCookie @ map2 (XOR) (drop 4 h) tid"
      using len by (subst zip_append) simp_all
    then have "map2 (XOR) h (magicCookie @ tid)
        = map2 (XOR) (take 4 h) magicCookie @ map2 (XOR) (drop 4 h) tid"
      by (simp only: append_take_drop_id)
    moreover have "address_value tid a
        = [0, 2] @ map2 (XOR) p (take 2 magicCookie) @ map2 (XOR) h (magicCookie @ tid)"
      using assms(2) by (simp add: address_value_def p_def h_def)
    ultimately show ?thesis by (simp add: q_def)
  qed
  finally show ?thesis .
qed

lemma length_address_value:
  "sockaddr_complete a \<Longrightarrow> sa_family a = AF_INET \<or> sa_family a = AF_INET6 \<Longrightarrow> length tid = 12 \<Longrightarrow>
     length (address_value tid a) = (if sa_family a = AF_INET then 8 else 20)"
  by (auto simp: address_value_def sockaddr_complete_def)

definition address_width :: "stun \<Rightarrow> nat" where
  "address_width s = (if addXorMappedAddress s then 4 + unat (xorMappedAddressPaddedLen s) else 0)"

lemma address_writer:
  assumes "serializable s"
  shows "attribute_writer (header_written s) (write_xor_mapped_address s) (address_width s)
     (\<lambda>_ _. address_tlvs s)"
proof (cases "addXorMappedAddress s")
  case False
  then show ?thesis
    by unfold_locales
      (simp_all add: header_written_append write_xor_mapped_address_def address_width_def address_tlvs_def)
next
  case True
  then obtain a where a: "xorMappedAddress s = Some a"
      "sa_family a = AF_INET \<or> sa_family a = AF_INET6"
    by (auto simp: addXorMappedAddress_def split: option.splits)
  define n where "n = (if sa_family a = AF_INET then 8 else 20 :: nat)"
  define v where "v = address_value (transactionId s) a"
  have ok: "sockaddr_complete a" "length (transactionId s) = 12"
    using assms a by (simp_all add: serializable_def)
  then have v: "length v = n" using a by (simp add: v_def n_def length_address_value)
  have padded: "xorMappedAddressPaddedLen s = word_of_nat n" "unat (xorMappedAddressPaddedLen s) = n"
    using True a by (simp_all add: xorMappedAddressPaddedLen_def n_def)
  have width: "address_width s = 4 + n" using True by (simp add: address_width_def padded(2))
  let ?h = "be2 (attribute_code XOR_MAPPED_ADDRESS) @ be2 (word_of_nat n)"
  have tlvs: "address_tlvs s = [(attribute_code XOR_MAPPED_ADDRESS, v, [])]"
    using True a by (simp add: address_tlvs_def v_def)
  show ?thesis
  proof (unfold_locales)
    fix pre old :: bytes and post
    assume pre: "header_written s pre" and "length old = address_width s"
    then have old: "length old = 4 + n" by (simp add: width)
    have "wr_block (pre @ take 4 old @ drop 4 old @ post) (length pre) ?h
        = Inr (pre @ ?h @ drop 4 old @ post)"
      by (rule wr_block_at) (simp add: old)
    then have head: "wr_block (pre @ old @ post) (length pre) ?h = Inr ((pre @ ?h) @ drop 4 old @ post)"
      by (simp only: append_assoc [symmetric] append_take_drop_id)
    have value4: "write_xor_address4 a ((pre @ ?h) @ drop 4 old @ post) (length (pre @ ?h))
        = Inr ((pre @ ?h) @ v @ post)" if "sa_family a = AF_INET"
      unfolding v_def using ok that old by (intro write_xor_address4_at) (simp_all add: n_def)
    have value6: "write_xor_address6 a ((pre @ ?h) @ drop 4 old @ post) (length (pre @ ?h))
        = Inr ((pre @ ?h) @ v @ post)" if "sa_family a = AF_INET6"
      unfolding v_def using ok that old pre
      by (intro write_xor_address6_at) (simp_all add: n_def header_written_def)
    have "write_xor_mapped_address s (pre @ old @ post, length pre)
        = bindR (wr_block (pre @ old @ post) (length pre) ?h) (\<lambda>b.
            if sa_family a = AF_INET
            then bindR (write_xor_address4 a b (length pre + 4)) (\<lambda>b. Inr (b, length pre + 4 + 8))
            else if sa_family a = AF_INET6
            then bindR (write_xor_address6 a b (length pre + 4)) (\<lambda>b. Inr (b, length pre + 4 + 20))
            else Inr (b, length pre))"
      using True a by (simp add: write_xor_mapped_address_def codec_simps wr_block_join_up padded(1))
    also have "\<dots> = (if sa_family a = AF_INET
            then bindR (write_xor_address4 a ((pre @ ?h) @ drop 4 old @ post) (length pre + 4))
                   (\<lambda>b. Inr (b, length pre + 4 + 8))
            else if sa_family a = AF_INET6
            then bindR (write_xor_address6 a ((pre @ ?h) @ drop 4 old @ post) (length pre + 4))
                   (\<lambda>b. Inr (b, length pre + 4 + 20))
            else Inr ((pre @ ?h) @ drop 4 old @ post, length pre))"
      by (simp only: head bindR_Inr)
    also have "\<dots> = Inr (pre @ ?h @ v @ post, length pre + (4 + n))"
      using a(2) value4 value6 by (auto simp: n_def)
    finally show "write_xor_mapped_address s (pre @ old @ post, length pre)
        = Inr (pre @ enc_tlvs (address_tlvs s) @ post, length pre + address_width s)"
      by (simp add: tlvs v width)
  qed (use True v n_def in \<open>auto simp: tlvs width pad_to_4_def header_written_append\<close>)
qed

section \<open>Message integrity and fingerprint\<close>

definition header_bytes :: "stun \<Rightarrow> nat \<Rightarrow> bytes" where
  "header_bytes s n = be2 (typeField s) @ be2 (word_of_nat n) @ magicCookie @ transactionId s"

text \<open>
  The authentication code is that of the message so far, with a length field that does not count
  the fingerprint.
\<close>

definition integrity_of :: "(bytes \<Rightarrow> bytes \<Rightarrow> bytes) \<Rightarrow> stun \<Rightarrow> bytes \<Rightarrow> bytes" where
  "integrity_of hmac s pre =
     hmac (bytes_of_string (password s))
       (take 2 pre @ be2 (word_of_nat (serialize_size s - 20 - 8)) @ drop 4 pre)"

definition integrity_tlvs :: "(bytes \<Rightarrow> bytes \<Rightarrow> bytes) \<Rightarrow> stun \<Rightarrow> bytes \<Rightarrow> tlv list" where
  "integrity_tlvs hmac s pre =
     (if addMessageIntegrity s
      then [(attribute_code MESSAGE_INTEGRITY, integrity_of hmac s pre, [])] else [])"

definition fingerprint_tlvs :: "bytes \<Rightarrow> tlv list" where
  "fingerprint_tlvs pre = [(attribute_code FINGERPRINT, be4 (crc32_ref pre XOR 0x5354554e), [])]"

lemma fingerprint_writer:
  "attribute_writer (header_written s) write_fingerprint 8 (\<lambda>pre _. fingerprint_tlvs pre)"
proof (unfold_locales)
  fix pre old :: bytes and post
  assume "length old = 8"
  then show "write_fingerprint (pre @ old @ post, length pre)
      = Inr (pre @ enc_tlvs (fingerprint_tlvs pre) @ post, length pre + 8)"
    by (simp add: write_fingerprint_def GetCRC32_eq codec_simps wr_block_join_up wr_block_at
        fingerprint_tlvs_def)
qed (simp_all add: header_written_append fingerprint_tlvs_def pad_to_4_def)

interpretation fingerprint_attr:
  attribute_writer "header_written s" write_fingerprint 8 "\<lambda>pre _. fingerprint_tlvs pre" for s
  by (rule fingerprint_writer)

lemma integrity_writer:
  assumes "\<And>k m. length (hmac k m) = 20" and "hmacSha1Ctx c = Ctx_Live \<or> \<not> addMessageIntegrity s"
  shows "attribute_writer (header_written s) (write_message_integrity hmac c s)
     (if addMessageIntegrity s then 24 else 0) (\<lambda>pre _. integrity_tlvs hmac s pre)"
proof (cases "addMessageIntegrity s")
  case False
  then show ?thesis
    by unfold_locales
      (simp_all add: header_written_append write_message_integrity_def integrity_tlvs_def)
next
  case True
  define mac where "mac = integrity_of hmac s"
  have mac: "length (mac pre) = 20" for pre using assms(1) by (simp add: mac_def integrity_of_def)
  show ?thesis
  proof (unfold_locales)
    fix pre old :: bytes and post
    assume pre: "header_written s pre"
      and "length old = (if addMessageIntegrity s then 24 else 0)"
    then have old: "length old = 24" using True by simp
    define t l r where "t = take 2 pre" and "l = take 2 (drop 2 pre)" and "r = drop 4 pre"
    define l' where "l' = be2 (word_of_nat (serialize_size s - 20 - 8))"
    have t: "length t = 2" and l: "l = be2 (word_of_nat (serialize_size s - 20))"
      using pre by (simp_all add: header_written_def t_def l_def)
    have split: "pre = t @ l @ r"
      using append_take_drop_id [of 2 pre] append_take_drop_id [of 2 "drop 2 pre"]
      by (simp add: t_def l_def r_def)
    have len: "length pre = 4 + length r" and l': "length l' = 2" by (simp_all add: split t l l'_def)
    let ?e = "be2 (attribute_code MESSAGE_INTEGRITY) @ be2 20 @ mac pre"
    have 1: "wr_block (pre @ old @ post) 2 l' = Inr ((t @ l' @ r) @ old @ post)"
      using wr_block_at [of l l' t "r @ old @ post"] t l l' by (simp add: split)
    have 2: "GetHmacShA1 hmac c (bytes_of_string (password s)) ((t @ l' @ r) @ old @ post) (length pre)
        = Inr (mac pre)"
    proof -
      have "mac pre = hmac (bytes_of_string (password s)) (t @ l' @ r)"
        by (simp add: mac_def integrity_of_def t_def l'_def r_def)
      moreover have "length pre = length (t @ l' @ r)" using t l' by (simp add: len)
      ultimately show ?thesis using assms(2) True by (simp add: GetHmacShA1_live)
    qed
    have 3: "wr_block ((t @ l' @ r) @ old @ post) (length pre) ?e = Inr ((t @ l' @ r) @ ?e @ post)"
      by (rule wr_block_after) (use old t l' mac in \<open>simp_all add: len\<close>)
    have 4: "wr_block ((t @ l' @ r) @ ?e @ post) 2 l = Inr (pre @ ?e @ post)"
      using wr_block_at [of l' l t "r @ ?e @ post"] t l l' by (simp add: split)
    have "write_message_integrity hmac c s (pre @ old @ post, length pre)
        = bindR (wr_block (pre @ old @ post) 2 l') (\<lambda>b.
          bindR (GetHmacShA1 hmac c (bytes_of_string (password s)) b (length pre)) (\<lambda>computed.
          bindR (wr_block b (length pre) (be2 (attribute_code MESSAGE_INTEGRITY) @ be2 20)) (\<lambda>b.
          bindR (rd_block computed 0 20) (\<lambda>m. bindR (wr_block b (length pre + 4) m) (\<lambda>b.
          bindR (wr_block b 2 l) (\<lambda>b. Inr (b, length pre + 4 + 20)))))))"
      using True by (simp add: write_message_integrity_def codec_simps wr_block_join_up l'_def l)
    also have "\<dots> = bindR (wr_block ((t @ l' @ r) @ old @ post) (length pre) ?e) (\<lambda>b.
          bindR (wr_block b 2 l) (\<lambda>b. Inr (b, length pre + 4 + 20)))"
      using mac [of pre] by (simp only: 1 2 bindR_Inr) (simp add: wr_block_join_up)
    also have "\<dots> = Inr (pre @ ?e @ post, length pre + 4 + 20)"
      by (simp only: 3 4 bindR_Inr)
    finally show "write_message_integrity hmac c s (pre @ old @ post, length pre)
        = Inr (pre @ enc_tlvs (integrity_tlvs hmac s pre) @ post,
             length pre + (if addMessageIntegrity s then 24 else 0))"
      using True mac [of pre] by (simp add: integrity_tlvs_def flip: mac_def)
  qed (use True mac in
      \<open>auto simp: integrity_tlvs_def pad_to_4_def header_written_append simp flip: mac_def\<close>)
qed

section \<open>The layout of a serialised message\<close>

definition username_width :: "stun \<Rightarrow> nat" where
  "username_width s = (if username s \<noteq> '''' then 4 + pad_to_4 (length (username s)) else 0)"

definition plain_width :: "stun \<Rightarrow> nat" where
  "plain_width s =
     username_width s + ((if priority s \<noteq> 0 then 8 else 0) + ((if iceControlling s \<noteq> 0 then 12 else 0)
       + ((if iceControlled s \<noteq> 0 then 12 else 0) + ((if hasUseCandidate s then 4 else 0)
       + (address_width s + (if addErrorCode s then 8 else 0))))))"

lemma serialize_size_eq:
  "serializable s \<Longrightarrow>
     serialize_size s = 20 + plain_width s + (if addMessageIntegrity s then 24 else 0) + 8"
  by (simp add: serialize_size_def plain_width_def username_width_def usernamePaddedLen_eq address_width_def)

text \<open>
  The padding of the user name is not written: it is what the buffer held, here as a function of
  the bytes that follow the header.
\<close>

definition username_stale :: "stun \<Rightarrow> bytes \<Rightarrow> bytes" where
  "username_stale s old = drop (4 + length (username s)) (take (username_width s) old)"

definition plain_tlvs :: "stun \<Rightarrow> bytes \<Rightarrow> tlv list" where
  "plain_tlvs s stale =
     username_tlvs s stale @ priority_tlvs s @ controlling_tlvs s @ controlled_tlvs s
     @ candidate_tlvs s @ address_tlvs s @ error_tlvs s"

definition message_tlvs :: "(bytes \<Rightarrow> bytes \<Rightarrow> bytes) \<Rightarrow> stun \<Rightarrow> bytes \<Rightarrow> tlv list" where
  "message_tlvs hmac s stale =
     (let plain = plain_tlvs s stale;
          pre = header_bytes s (serialize_size s - 20) @ enc_tlvs plain;
          mi = integrity_tlvs hmac s pre
      in plain @ mi @ fingerprint_tlvs (pre @ enc_tlvs mi))"

definition message_bytes :: "(bytes \<Rightarrow> bytes \<Rightarrow> bytes) \<Rightarrow> stun \<Rightarrow> bytes \<Rightarrow> bytes" where
  "message_bytes hmac s stale =
     header_bytes s (serialize_size s - 20) @ enc_tlvs (message_tlvs hmac s stale)"

lemma plain_writer:
  assumes "serializable s"
  shows "attribute_writer (header_written s) (write_plain_attributes s) (plain_width s)
     (\<lambda>_ old. plain_tlvs s (username_stale s old))"
  using attribute_writer_seq [OF username_writer [OF assms]
    attribute_writer_seq [OF priority_writer
    attribute_writer_seq [OF controlling_writer
    attribute_writer_seq [OF controlled_writer
    attribute_writer_seq [OF candidate_writer
    attribute_writer_seq [OF address_writer [OF assms] error_writer]]]]]]
  unfolding plain_width_def plain_tlvs_def username_stale_def username_width_def
    write_plain_attributes_def .

lemma length_header_bytes: "serializable s \<Longrightarrow> length (header_bytes s n) = 20"
  by (simp add: header_bytes_def serializable_def)

lemma write_header_eq:
  assumes "serializable s" "20 \<le> length buffer"
  shows "write_header s buffer = Inr (header_bytes s (serialize_size s - 20) @ drop 20 buffer)"
proof -
  have "word_of_nat (serialize_size s) - 20 = (word_of_nat (serialize_size s - 20) :: u16)"
    by (simp add: serialize_size_def)
  moreover have "rd_block (transactionId s) 0 12 = Inr (transactionId s)"
    using assms(1) by (simp add: serializable_def)
  ultimately have "write_header s buffer = wr_block buffer 0 (header_bytes s (serialize_size s - 20))"
    by (simp add: write_header_def codec_simps wr_block_join_up header_bytes_def)
  then show ?thesis using assms length_header_bytes [OF assms(1)] by (simp add: wr_block_def)
qed

lemma header_written_header_bytes:
  "serializable s \<Longrightarrow> header_written s (header_bytes s (serialize_size s - 20) @ rest)"
  by (simp add: header_written_def header_bytes_def serializable_def)

definition serialized :: "stun \<Rightarrow> bytes \<Rightarrow> stun" where
  "serialized s b =
     s\<lparr>stun_data := Some b, stun_size := serialize_size s,
       messageIntegrity :=
         (if addMessageIntegrity s then Some (20 + plain_width s + 4) else None),
       hasFingerprint := True\<rparr>"

lemma drop_split: "drop i d = take n (drop i d) @ drop (i + n) d"
  by (metis append_take_drop_id drop_drop add.commute)

lemma Serialize_eq:
  assumes s: "serializable s" and hmac: "\<And>k m. length (hmac k m) = 20"
    and ctx: "hmacSha1Ctx c = Ctx_Live \<or> \<not> addMessageIntegrity s"
    and room: "serialize_size s \<le> length buffer"
  defines "b \<equiv> message_bytes hmac s (username_stale s (drop 20 buffer)) @ drop (serialize_size s) buffer"
  shows "Serialize hmac c s buffer = Inr (serialized s b, (b, serialize_size s))"
proof -
  let ?ok = "header_written s"
  define mw where "mw = (if addMessageIntegrity s then 24 else 0 :: nat)"
  define h where "h = header_bytes s (serialize_size s - 20)"
  define o1 where "o1 = take (plain_width s) (drop 20 buffer)"
  define o2 where "o2 = take mw (drop (20 + plain_width s) buffer)"
  define o3 where "o3 = take 8 (drop (20 + plain_width s + mw) buffer)"
  define post where "post = drop (serialize_size s) buffer"
  have size: "serialize_size s = 20 + plain_width s + mw + 8"
    using serialize_size_eq [OF s] by (simp add: mw_def)
  have len: "length h = 20" "length o1 = plain_width s" "length o2 = mw" "length o3 = 8"
    using room size length_header_bytes [OF s] by (simp_all add: h_def o1_def o2_def o3_def)
  have split: "drop 20 buffer = o1 @ o2 @ o3 @ post"
    using drop_split [of 20 buffer "plain_width s"] drop_split [of "20 + plain_width s" buffer mw]
      drop_split [of "20 + plain_width s + mw" buffer 8]
    by (simp add: o1_def o2_def o3_def post_def size)
  define plain where "plain = plain_tlvs s (username_stale s o1)"
  define p1 where "p1 = h @ enc_tlvs plain"
  define mi where "mi = integrity_tlvs hmac s p1"
  define p2 where "p2 = p1 @ enc_tlvs mi"
  have ok: "?ok h" using header_written_header_bytes [OF s, of "[]"] by (simp add: h_def)
  note w1 = plain_writer [OF s] and w2 = integrity_writer [OF hmac ctx, folded mw_def]
  have ok1: "?ok p1" and ok2: "?ok p2"
    using ok by (simp_all add: p1_def p2_def header_written_append)
  have l1: "length p1 = 20 + plain_width s"
    using attribute_writer.ts_length [OF w1 ok len(2)] len(1) by (simp add: p1_def plain_def)
  have l2: "length p2 = 20 + plain_width s + mw"
    using attribute_writer.ts_length [OF w2 ok1 len(3)] l1 by (simp add: p2_def mi_def)
  have 1: "write_plain_attributes s (h @ o1 @ o2 @ o3 @ post, 20)
      = Inr (p1 @ o2 @ o3 @ post, 20 + plain_width s)"
    using attribute_writer.emit_at [OF w1 ok len(2), where post = "o2 @ o3 @ post"] len(1)
    by (simp add: p1_def plain_def)
  have 2: "write_message_integrity hmac c s (p1 @ o2 @ o3 @ post, 20 + plain_width s)
      = Inr (p2 @ o3 @ post, 20 + plain_width s + mw)"
    using attribute_writer.emit_at [OF w2 ok1 len(3), where post = "o3 @ post"] l1 by (simp add: p2_def mi_def)
  have 3: "write_fingerprint (p2 @ o3 @ post, 20 + plain_width s + mw)
      = Inr (p2 @ enc_tlvs (fingerprint_tlvs p2) @ post, serialize_size s)"
    using fingerprint_attr.emit_at [OF ok2 len(4), where post = post] l2 by (simp add: size)
  have stale: "username_stale s (drop 20 buffer) = username_stale s o1"
  proof -
    have "username_width s \<le> plain_width s" by (simp add: plain_width_def)
    then show ?thesis by (simp add: username_stale_def o1_def min_absorb1)
  qed
  have b: "p2 @ enc_tlvs (fingerprint_tlvs p2) @ post = b"
    by (simp add: b_def message_bytes_def message_tlvs_def Let_def stale post_def p2_def p1_def
        mi_def plain_def h_def)
  have "?ok b"
    unfolding b [symmetric] p2_def p1_def append_assoc using ok by (rule header_written_append)
  then have "take 12 (drop 8 b) = transactionId s" by (simp add: header_written_def)
  moreover have "20 \<le> length buffer" using room size by simp
  then have "write_header s buffer = Inr (h @ o1 @ o2 @ o3 @ post)"
    using write_header_eq [OF s] split by (simp add: h_def)
  ultimately show ?thesis
    by (simp add: Serialize_def 1 2 3 b serialized_def)
qed

lemma message_parts:
  assumes s: "serializable s" and hmac: "\<And>k m. length (hmac k m) = 20"
    and old: "plain_width s \<le> length old"
  defines "ts \<equiv> plain_tlvs s (username_stale s old)"
  shows "list_all tlv_ok ts" "length (enc_tlvs ts) = plain_width s"
    "list_all tlv_ok (integrity_tlvs hmac s pre)"
    "length (enc_tlvs (integrity_tlvs hmac s pre)) = (if addMessageIntegrity s then 24 else 0)"
    "list_all tlv_ok (fingerprint_tlvs pre)" "length (enc_tlvs (fingerprint_tlvs pre)) = 8"
proof -
  let ?h = "header_bytes s (serialize_size s - 20)" and ?o = "take (plain_width s) old"
  have ok: "header_written s ?h" using header_written_header_bytes [OF s, of "[]"] by simp
  have o: "length ?o = plain_width s" using old by simp
  have "username_width s \<le> plain_width s" by (simp add: plain_width_def)
  then have "username_stale s ?o = username_stale s old"
    by (simp add: username_stale_def min_absorb1)
  with attribute_writer.ts_ok [OF plain_writer [OF s] ok o]
    attribute_writer.ts_length [OF plain_writer [OF s] ok o]
  show "list_all tlv_ok ts" "length (enc_tlvs ts) = plain_width s" by (simp_all add: ts_def)
  show "list_all tlv_ok (integrity_tlvs hmac s pre)"
    "length (enc_tlvs (integrity_tlvs hmac s pre)) = (if addMessageIntegrity s then 24 else 0)"
    using hmac by (simp_all add: integrity_tlvs_def integrity_of_def pad_to_4_def)
  show "list_all tlv_ok (fingerprint_tlvs pre)" "length (enc_tlvs (fingerprint_tlvs pre)) = 8"
    by (simp_all add: fingerprint_tlvs_def pad_to_4_def)
qed

lemma length_message_bytes:
  assumes "serializable s" "\<And>k m. length (hmac k m) = 20" "plain_width s \<le> length old"
  shows "length (message_bytes hmac s (username_stale s old)) = serialize_size s"
  using message_parts [where hmac = hmac, OF assms] length_header_bytes [OF assms(1)]
    serialize_size_eq [OF assms(1)]
  by (simp add: message_bytes_def message_tlvs_def Let_def)

lemma plain_width_dvd: "4 dvd plain_width s"
proof -
  have "4 dvd pad_to_4 n" for n by (simp add: dvd_eq_mod_eq_0)
  then have "4 dvd username_width s" by (simp add: username_width_def dvd_add)
  moreover have "4 dvd address_width s"
    by (simp add: address_width_def xorMappedAddressPaddedLen_def)
  ultimately show ?thesis
    unfolding plain_width_def by (intro dvd_add) simp_all
qed

lemma serialize_size_dvd: "serializable s \<Longrightarrow> 4 dvd serialize_size s"
  unfolding serialize_size_eq by (intro dvd_add plain_width_dvd) simp_all

section \<open>Properties of the serialiser\<close>

definition example_request :: stun where
  "example_request =
     SetUsername [0x61, 0x3A, 0x62] (SetPriority 7 (Stun REQUEST BINDING (replicate 12 9) None 0))"

lemma example_request_facts:
  "serialize_size example_request = 44" "serializable example_request"
  "\<not> addMessageIntegrity example_request"
  by (simp_all add: serialize_size_def example_request_def stun_setters Stun_def usernamePaddedLen_def
      string_of_bytes_def PadTo4Bytes16_def addXorMappedAddress_def addErrorCode_def
      addMessageIntegrity_def serializable_def pad_to_4_def)

text \<open>C16: when the buffer has room for the computed size, the serialiser writes exactly that many
  bytes: the header, the attributes in order, the message integrity and the fingerprint, each
  padded; it leaves the bytes behind untouched, and its final position is the computed size, as the
  disabled assertion of the source demands.\<close>

theorem Serialize_layout:
  assumes "serializable s" "\<forall>k m. length (hmac k m) = 20"
    and "hmacSha1Ctx c = Ctx_Live \<or> \<not> addMessageIntegrity s"
    and "serialize_size s \<le> length buffer"
    and "b = message_bytes hmac s (username_stale s (drop 20 buffer)) @ drop (serialize_size s) buffer"
  shows "Serialize hmac c s buffer = Inr (serialized s b, (b, serialize_size s))
    \<and> length b = length buffer"
proof -
  have hmac: "length (hmac k m) = 20" for k m using assms(2) by blast
  have "plain_width s \<le> length (drop 20 buffer)"
    using assms(4) serialize_size_eq [OF assms(1)] by simp
  from length_message_bytes [OF assms(1) hmac this] have "length b = length buffer"
    using assms(4,5) by simp
  moreover have "Serialize hmac c s buffer = Inr (serialized s b, (b, serialize_size s))"
    unfolding assms(5) using Serialize_eq [OF assms(1) hmac assms(3,4)] .
  ultimately show ?thesis by blast
qed

theorem Serialize_layout_witness:
  "\<exists>b. Serialize (\<lambda>k m. replicate 20 1) crypto_initial example_request (replicate 100 0)
     = Inr (serialized example_request b, (b, 44)) \<and> length b = 100"
proof -
  have "\<forall>(k :: bytes) (m :: bytes). length (replicate 20 (1 :: u8)) = 20" by simp
  from Serialize_layout [OF example_request_facts(2) this _ _ refl, of crypto_initial "replicate 100 0"]
  show ?thesis using example_request_facts by (auto simp: example_request_facts(1))
qed

definition moves :: "(cursor \<Rightarrow> cursor res) \<Rightarrow> nat \<Rightarrow> bool" where
  "moves w n \<longleftrightarrow>
     (\<forall>b pos b' pos'. w (b, pos) = Inr (b', pos') \<longrightarrow> length b' = length b \<and> pos' = pos + n)"

lemma moves_seq: "moves w n \<Longrightarrow> moves w' n' \<Longrightarrow> moves (\<lambda>c. bindR (w c) w') (n + n')"
  by (fastforce simp: moves_def bindR_eq_Inr_iff)

lemma xor_block_length: "xor_block b i ms = Inr b' \<Longrightarrow> length b' = length b"
  by (induction ms arbitrary: b i) (auto simp: wr_def bindR_eq_Inr_iff split: if_splits)

lemma wr_length: "wr b i x = Inr b' \<Longrightarrow> length b' = length b"
  by (auto simp: wr_def split: if_splits)

lemmas length_rules = wr_block_length wr_length xor_block_length

lemma writers_move:
  assumes "serializable s"
  shows "moves (write_username s) (username_width s)"
    and "moves (write_priority s) (if priority s \<noteq> 0 then 8 else 0)"
    and "moves (write_ice_controlling s) (if iceControlling s \<noteq> 0 then 12 else 0)"
    and "moves (write_ice_controlled s) (if iceControlled s \<noteq> 0 then 12 else 0)"
    and "moves (write_use_candidate s) (if hasUseCandidate s then 4 else 0)"
    and "moves (write_xor_mapped_address s) (address_width s)"
    and "moves (write_error_code s) (if addErrorCode s then 8 else 0)"
    and "moves (write_message_integrity hmac c s) (if addMessageIntegrity s then 24 else 0)"
proof -
  have u: "unat (usernamePaddedLen s) = (if username s = '''' then 0 else pad_to_4 (length (username s)))"
    using usernamePaddedLen_eq [OF assms] by simp
  then have "usernamePaddedLen s = 0 \<longleftrightarrow> username s = ''''"
    using pad_to_4_bounds(1) [of "length (username s)"]
    by (metis le_zero_eq length_0_conv unsigned_0 unat_eq_zero)
  then show "moves (write_username s) (username_width s)"
    by (auto simp: moves_def write_username_def username_width_def u bindR_eq_Inr_iff codec_simps
        dest!: length_rules split: if_splits)
qed (auto simp: moves_def write_priority_def write_ice_controlling_def write_ice_controlled_def
    write_use_candidate_def write_xor_mapped_address_def write_error_code_def address_width_def
    write_message_integrity_def write_xor_address4_def write_xor_address6_def
    addXorMappedAddress_def xorMappedAddressPaddedLen_def
    bindR_eq_Inr_iff codec_simps dest!: length_rules split: if_splits option.splits)

lemma Serialize_needs_room:
  assumes "serializable s" "Serialize hmac c s buffer = Inr r"
  shows "serialize_size s \<le> length buffer"
proof -
  from assms(2) obtain b b1 p1 b2 p2 b3 p3 where
      h: "write_header s buffer = Inr b" and 1: "write_plain_attributes s (b, 20) = Inr (b1, p1)"
      and 2: "write_message_integrity hmac c s (b1, p1) = Inr (b2, p2)"
      and 3: "write_fingerprint (b2, p2) = Inr (b3, p3)"
    by (auto simp: Serialize_def bindR_eq_Inr_iff)
  have "length b = length buffer"
    using h by (auto simp: write_header_def bindR_eq_Inr_iff codec_simps dest!: wr_block_length)
  moreover have "moves (write_plain_attributes s) (plain_width s)"
    unfolding write_plain_attributes_def plain_width_def
    by (intro moves_seq writers_move assms(1))
  with 1 have "length b1 = length b" "p1 = 20 + plain_width s" by (auto simp: moves_def)
  moreover have "length b2 = length b1" "p2 = p1 + (if addMessageIntegrity s then 24 else 0)"
    using writers_move(8) [OF assms(1), of hmac c] 2 unfolding moves_def by blast+
  moreover have "p2 + 8 \<le> length b2"
    using 3 by (auto simp: write_fingerprint_def bindR_eq_Inr_iff codec_simps wr_block_join_up
        wr_block_def split: if_splits)
  ultimately show ?thesis by (simp add: serialize_size_eq [OF assms(1)])
qed

text \<open>C28: the serialiser stays within the caller's buffer, which it is not told the length of,
  exactly when the buffer has room for the computed size.\<close>

theorem Serialize_in_bounds_iff:
  assumes "serializable s" "\<forall>k m. length (hmac k m) = 20"
    and "hmacSha1Ctx c = Ctx_Live \<or> \<not> addMessageIntegrity s"
  shows "(\<exists>r. Serialize hmac c s buffer = Inr r) \<longleftrightarrow> serialize_size s \<le> length buffer"
proof
  assume "serialize_size s \<le> length buffer"
  with Serialize_eq [where hmac = hmac, OF assms(1) _ assms(3)] assms(2)
  show "\<exists>r. Serialize hmac c s buffer = Inr r" by blast
qed (use Serialize_needs_room [OF assms(1)] in blast)

theorem Serialize_in_bounds_iff_witness:
  "(\<exists>r. Serialize (\<lambda>k m. replicate 20 1) crypto_initial example_request (replicate 44 0) = Inr r)
   \<and> \<not> (\<exists>r. Serialize (\<lambda>k m. replicate 20 1) crypto_initial example_request (replicate 43 0) = Inr r)"
proof -
  have "\<forall>(k :: bytes) (m :: bytes). length (replicate 20 (1 :: u8)) = 20" by simp
  note iff = Serialize_in_bounds_iff [OF example_request_facts(2) this, of crypto_initial,
      unfolded example_request_facts(1)]
  show ?thesis using iff [of "replicate 44 0"] iff [of "replicate 43 0"] example_request_facts(3) by simp
qed

section \<open>A user name that is too long\<close>

definition long_request :: stun where
  "long_request = (Stun REQUEST BINDING (replicate 12 9) None 0)\<lparr>username := replicate 65533 CHR ''a''\<rparr>"

text \<open>The padded length of a user name is computed in 16 bits: from 65533 characters on it can be
  zero, the attribute is then left out but its header still counted, and the message ends four
  bytes before its size.\<close>

theorem Serialize_long_username:
  "\<exists>s b. Serialize hmac c long_request (replicate 32 0) = Inr (s, (b, 28)) \<and> stun_size s = 32"
proof -
  have u: "usernamePaddedLen long_request = 0" "username long_request \<noteq> ''''"
    by (simp_all add: long_request_def usernamePaddedLen_def PadTo4Bytes16_def)
  have l: "priority long_request = 0" "iceControlling long_request = 0" "iceControlled long_request = 0"
    "\<not> hasUseCandidate long_request" "\<not> addXorMappedAddress long_request"
    "\<not> addErrorCode long_request" "\<not> addMessageIntegrity long_request"
    "length (transactionId long_request) = 12"
    by (simp_all add: long_request_def Stun_def addXorMappedAddress_def addErrorCode_def
        addMessageIntegrity_def)
  have size: "serialize_size long_request = 32"
    using u l by (simp add: serialize_size_def)
  have h: "\<exists>b. write_header long_request (replicate 32 0) = Inr b \<and> length b = 32"
    using l by (simp add: write_header_def codec_simps wr_block_join_up wr_block_def size)
  have "write_plain_attributes long_request = Inr"
    by (rule ext) (simp add: write_plain_attributes_def write_username_def write_priority_def
        write_ice_controlling_def write_ice_controlled_def write_use_candidate_def
        write_xor_mapped_address_def write_error_code_def u l split: prod.splits)
  with h show ?thesis
    by (auto simp: Serialize_def write_message_integrity_def write_fingerprint_def l size GetCRC32_eq
        codec_simps wr_block_join_up wr_block_def)
qed

end
