(* ===== verification/Stun_Roundtrip.thy ===== *)
theory Stun_Roundtrip
  imports Stun_Serialize
begin

text \<open>
  The parser and the serialiser of \<open>src/Stun.cpp\<close> against each other: parsing a serialised message
  gives back every field that a message carries, with the offset of the message integrity and the
  fingerprint verified.
\<close>

section \<open>Parsing a serialised message\<close>

lemma ref_run_append:
  "list_all tlv_ok ts \<Longrightarrow>
     ref_run pos (ts @ us) st
       = Option.bind (ref_run pos ts st) (ref_run (pos + length (enc_tlvs ts)) us)"
proof (induction ts arbitrary: pos st)
  case (Cons x ts)
  obtain t v p where x: "x = (t, v, p)" by (cases x)
  have "length (enc_tlv (t, v, p)) = 4 + pad_to_4 (length v)"
    by (rule length_enc_tlv) (use Cons.prems x in simp)
  then have len: "pos + 4 + pad_to_4 (length v) + length (enc_tlvs ts)
      = pos + length (enc_tlvs (x # ts))"
    unfolding x by (simp del: enc_tlv.simps)
  have "ref_run pos ((x # ts) @ us) st
      = Option.bind (ref_run pos (x # ts) st) (ref_run (pos + 4 + pad_to_4 (length v) + length (enc_tlvs ts)) us)"
    using Cons by (auto simp: x Let_def intro!: Option.bind_cong split: Option.bind_splits)
  then show ?case unfolding len .
qed simp

abbreviation plain_state :: "parse_state \<Rightarrow> bool" where
  "plain_state st \<equiv> \<not> seenFingerprint st \<and> \<not> seenIntegrity st"

lemma error_code_roundtrip: "ucast (codeClass e) * 100 + ucast (codeNumber e) = e" if "e < 25600"
proof -
  have e: "unat e < 25600" using that by (simp add: word_less_nat_alt)
  have c: "unat (codeClass e) = unat e div 100"
    using e by (simp add: codeClass_def unsigned_ucast_eq take_bit_eq_mod unat_div)
  have n: "unat (codeNumber e) = unat e mod 100"
  proof -
    have "codeNumber e = word_of_nat (unat e) - word_of_nat (unat e div 100) * 100"
      by (simp add: codeNumber_def flip: c)
    also have "\<dots> = word_of_nat (unat e - unat e div 100 * 100)"
      by (simp add: of_nat_diff)
    also have "unat e - unat e div 100 * 100 = unat e mod 100" by (simp add: minus_div_mult_eq_mod)
    finally have "codeNumber e = word_of_nat (unat e mod 100)" .
    moreover have "unat e mod 100 < 256" by (rule less_trans [of _ 100]) simp_all
    ultimately show ?thesis by (simp add: unat_of_nat)
  qed
  have "ucast (codeClass e) * 100 + ucast (codeNumber e)
      = (word_of_nat (unat (codeClass e) * 100 + unat (codeNumber e)) :: u16)"
    by simp
  also have "\<dots> = e" unfolding c n by simp
  finally show ?thesis .
qed

lemma plain_runs:
  assumes "plain_state st"
  shows "username (packet st) = '''' \<Longrightarrow>
      ref_run pos (username_tlvs s stale) st = Some (st\<lparr>packet := packet st\<lparr>username := username s\<rparr>\<rparr>)"
    and "priority (packet st) = 0 \<Longrightarrow>
      ref_run pos (priority_tlvs s) st = Some (st\<lparr>packet := packet st\<lparr>priority := priority s\<rparr>\<rparr>)"
    and "iceControlling (packet st) = 0 \<Longrightarrow>
      ref_run pos (controlling_tlvs s) st
        = Some (st\<lparr>packet := packet st\<lparr>iceControlling := iceControlling s\<rparr>\<rparr>)"
    and "iceControlled (packet st) = 0 \<Longrightarrow>
      ref_run pos (controlled_tlvs s) st
        = Some (st\<lparr>packet := packet st\<lparr>iceControlled := iceControlled s\<rparr>\<rparr>)"
    and "\<not> hasUseCandidate (packet st) \<Longrightarrow>
      ref_run pos (candidate_tlvs s) st
        = Some (st\<lparr>packet := packet st\<lparr>hasUseCandidate := hasUseCandidate s\<rparr>\<rparr>)"
    and "ref_run pos (address_tlvs s) st = Some st"
    and "errorCode (packet st) = 0 \<Longrightarrow> (klass s = ERROR_RESPONSE \<longrightarrow> errorCode s < 25600) \<Longrightarrow>
      ref_run pos (error_tlvs s) st = Some (st\<lparr>packet := packet st\<lparr>errorCode :=
        (if klass s = ERROR_RESPONSE then errorCode s else 0)\<rparr>\<rparr>)"
  using assms
  by (simp_all add: username_tlvs_def priority_tlvs_def controlling_tlvs_def controlled_tlvs_def
      candidate_tlvs_def address_tlvs_def error_tlvs_def ref_attribute_def Let_def stun_setters
      addErrorCode_def error_code_roundtrip string_of_bytes_of_string)

lemma plain_run:
  assumes "list_all tlv_ok (plain_tlvs s stale)" "plain_state st"
    and "packet st = Stun k m tid d n" "klass s = ERROR_RESPONSE \<longrightarrow> errorCode s < 25600"
  shows "ref_run pos (plain_tlvs s stale) st = Some (st\<lparr>packet := packet st\<lparr>
      username := username s, priority := priority s, iceControlling := iceControlling s,
      iceControlled := iceControlled s, hasUseCandidate := hasUseCandidate s,
      errorCode := (if klass s = ERROR_RESPONSE then errorCode s else 0)\<rparr>\<rparr>)"
  using assms unfolding plain_tlvs_def
  by (simp add: ref_run_append plain_runs Stun_def)

lemma upto_16_cases: "n < (16 :: nat) \<Longrightarrow> n \<in> {0, 1, 2, 3, 4, 5, 6, 7, 8, 9, 10, 11, 12, 13, 14, 15}"
  by (auto simp: numeral_eq_Suc less_Suc_eq)

lemma bit_less_128: "m < 0x80 \<Longrightarrow> 7 \<le> n \<Longrightarrow> \<not> bit m n" for m :: u16
proof -
  assume m: "m < 0x80" "7 \<le> n"
  have "unat m < 2 ^ 7" using m by (simp add: word_less_nat_alt)
  then have "take_bit 7 m = m" by (metis take_bit_nat_eq_self_iff unsigned_take_bit_eq unsigned_word_eqI)
  then show ?thesis using m by (metis bit_take_bit_iff leD)
qed

lemma parse_method_typeField: "stun_method s < 0x80 \<Longrightarrow> parse_method (typeField s) = stun_method s"
proof (rule bit_word_eqI)
  fix n assume m: "stun_method s < 0x80" and "n < LENGTH(16)"
  then have "n \<in> {0, 1, 2, 3, 4, 5, 6, 7, 8, 9, 10, 11, 12, 13, 14, 15}" by (intro upto_16_cases) simp
  then show "bit (parse_method (typeField s)) n = bit (stun_method s) n"
    using bit_less_128 [OF m] unfolding parse_method_def typeField_def
    by (elim insertE emptyE; cases "klass s") (simp_all add: bit_simps del: push_bit_Suc)
qed

lemma typeField_class: "bit (typeField s) 4 = bit (class_code (klass s)) 0"
    "bit (typeField s) 8 = bit (class_code (klass s)) 1" if "stun_method s < 0x80"
  using bit_less_128 [OF that] unfolding typeField_def
  by (cases "klass s"; simp_all add: bit_simps del: push_bit_Suc)+

lemma parse_class_bits: "parse_class b0 b1 = of_bool (bit b1 4) + 2 * of_bool (bit b0 0)"
proof (rule bit_word_eqI)
  fix n assume "n < LENGTH(16)"
  then have "n \<in> {0, 1, 2, 3, 4, 5, 6, 7, 8, 9, 10, 11, 12, 13, 14, 15}" by (intro upto_16_cases) simp
  then show "bit (parse_class b0 b1) n = bit (of_bool (bit b1 4) + 2 * of_bool (bit b0 0) :: u16) n"
    unfolding parse_class_def
    by (elim insertE emptyE) (simp_all add: bit_simps del: push_bit_Suc)
qed

lemma class_of_parse_class:
  assumes "stun_method s < 0x80"
  shows "class_of_code (parse_class (ucast (drop_bit 8 (typeField s))) (ucast (typeField s))) = klass s"
proof -
  have "parse_class (ucast (drop_bit 8 (typeField s))) (ucast (typeField s)) = class_code (klass s)"
    by (cases "klass s") (simp_all add: parse_class_bits bit_simps typeField_class [OF assms])
  then show ?thesis by simp
qed

lemma typeField_first_byte:
  assumes "stun_method s < 0x80"
  shows "(ucast (drop_bit 8 (typeField s)) :: u8) < 3"
proof -
  have "ucast (drop_bit 8 (typeField s)) = (of_bool (bit (class_code (klass s)) 1) :: u8)"
  proof (rule bit_word_eqI)
    fix n assume "n < LENGTH(8)"
    then have "n \<in> {0, 1, 2, 3, 4, 5, 6, 7}" by (auto simp: numeral_eq_Suc less_Suc_eq)
    then show "bit (ucast (drop_bit 8 (typeField s)) :: u8) n
        = bit (of_bool (bit (class_code (klass s)) 1) :: u8) n"
      using bit_less_128 [OF assms] unfolding typeField_def
      by (elim insertE emptyE; cases "klass s") (simp_all add: bit_simps del: push_bit_Suc)
  qed
  then show ?thesis by simp
qed

section \<open>The round trip\<close>

definition representable :: "stun \<Rightarrow> bool" where
  "representable s \<longleftrightarrow>
     serializable s \<and> stun_method s < 0x80 \<and> (klass s = ERROR_RESPONSE \<longrightarrow> errorCode s < 25600)
     \<and> serialize_size s < 2 ^ 16"

text \<open>What a receiver sees of a serialised object: not the password, not the address, which the
  parser ignores, and no error code outside error responses.\<close>

definition received :: "stun \<Rightarrow> bytes \<Rightarrow> stun" where
  "received s b =
     (serialized s b)\<lparr>xorMappedAddress := None, password := '''',
                       errorCode := (if klass s = ERROR_RESPONSE then errorCode s else 0)\<rparr>"

lemma Parse_message:
  fixes rest :: bytes
  assumes s: "representable s" and hmac: "\<And>k m. length (hmac k m) = 20"
    and old: "plain_width s \<le> length old"
  defines "b \<equiv> message_bytes hmac s (username_stale s old) @ rest"
  shows "Parse b (serialize_size s) = Some (Inr (Some (received s b)))"
proof -
  have ser: "serializable s" and m: "stun_method s < 0x80"
    and e: "klass s = ERROR_RESPONSE \<longrightarrow> errorCode s < 25600" and small: "serialize_size s < 2 ^ 16"
    using s by (simp_all add: representable_def)
  define n where "n = serialize_size s"
  define h where "h = header_bytes s (n - 20)"
  define plain where "plain = plain_tlvs s (username_stale s old)"
  define p1 where "p1 = h @ enc_tlvs plain"
  define mi where "mi = integrity_tlvs hmac s p1"
  define p2 where "p2 = p1 @ enc_tlvs mi"
  define ts where "ts = plain @ mi @ fingerprint_tlvs p2"
  have b: "b = h @ enc_tlvs ts @ rest" "b = p2 @ enc_tlvs (fingerprint_tlvs p2) @ rest"
    by (simp_all add: b_def message_bytes_def message_tlvs_def Let_def h_def n_def plain_def p1_def
        mi_def p2_def ts_def)
  note parts = message_parts [OF ser, where hmac = hmac, OF hmac old, folded plain_def]
  have ok: "list_all tlv_ok plain" "list_all tlv_ok mi" "list_all tlv_ok ts"
    using parts by (simp_all add: mi_def ts_def)
  have n: "n = 20 + length (enc_tlvs ts)" "20 \<le> n" "n mod 4 = 0"
    using parts serialize_size_eq [OF ser] serialize_size_dvd [OF ser]
    by (simp_all add: n_def ts_def mi_def dvd_eq_mod_eq_0)
  have lh: "length h = 20" using length_header_bytes [OF ser] by (simp add: h_def)
  have window: "take (n - 20) (drop 20 b) = enc_tlvs ts" using lh n by (simp add: b(1))
  have bytes: "b ! 0 = ucast (drop_bit 8 (typeField s))" "b ! 1 = ucast (typeField s)"
    "take 2 b = be2 (typeField s)" "take 2 (drop 2 b) = be2 (word_of_nat (n - 20))"
    "take 4 (drop 4 b) = magicCookie" "take 12 (drop 8 b) = transactionId s"
    using ser by (simp_all add: b(1) h_def header_bytes_def be2_def magicCookie_def serializable_def)
  have "unat (word_of_nat (n - 20) :: u16) = n - 20" using small by (simp add: unat_of_nat n_def)
  then have header: "header_ok b n"
    using n bytes typeField_first_byte [OF m] by (simp add: header_ok_def)
  have packet: "ref_packet b n = Stun (klass s) (stun_method s) (transactionId s) (Some b) n"
    using bytes by (simp add: ref_packet_def class_of_parse_class [OF m] parse_method_typeField [OF m])
  define st1 where "st1 = (parse_init (ref_packet b n))\<lparr>packet := ref_packet b n\<lparr>
      username := username s, priority := priority s, iceControlling := iceControlling s,
      iceControlled := iceControlled s, hasUseCandidate := hasUseCandidate s,
      errorCode := (if klass s = ERROR_RESPONSE then errorCode s else 0)\<rparr>\<rparr>"
  have 1: "ref_run 20 plain (parse_init (ref_packet b n)) = Some st1"
    using plain_run [OF ok(1) [unfolded plain_def] _ _ e, of "parse_init (ref_packet b n)"] packet
    by (simp add: st1_def parse_init_def plain_def)
  define st2 where "st2 = (if addMessageIntegrity s
      then st1\<lparr>seenIntegrity := True, packet := SetMessageIntegrity (Some (20 + plain_width s + 4)) (packet st1)\<rparr>
      else st1)"
  have 2: "ref_run (20 + plain_width s) mi st1 = Some st2"
    using hmac by (simp add: mi_def integrity_tlvs_def integrity_of_def st2_def st1_def parse_init_def
        ref_attribute_def Let_def)
  define pos where "pos = 20 + plain_width s + length (enc_tlvs mi)"
  have 3: "ref_run pos (fingerprint_tlvs p2) st2 = Some (st2\<lparr>seenFingerprint := True,
      fingerprintAttrPos := Some pos, fingerprint := Some (crc32_ref p2 XOR 0x5354554e),
      packet := SetFingerprint (packet st2)\<rparr>)" (is "_ = Some ?st3")
    by (simp add: fingerprint_tlvs_def st2_def st1_def parse_init_def ref_attribute_def Let_def)
  have run: "ref_run 20 ts (parse_init (ref_packet b n)) = Some ?st3"
    using ok parts by (simp add: ts_def ref_run_append 1 2 3 [unfolded pos_def] pos_def)
  have "length p2 = pos" using lh parts by (simp add: p2_def p1_def pos_def)
  then have "take pos b = p2" by (simp add: b(2))
  then have fp: "ref_fingerprint_ok b ?st3" by (simp add: ref_fingerprint_ok_def)
  have "ref_parse b n = Some (packet ?st3)"
    using header run fp by (simp add: ref_parse_def window tlvs_of_concat [OF ok(3)])
  moreover have "packet ?st3 = received s b"
    by (rule stun.equality)
      (simp_all add: st2_def st1_def packet stun_setters Stun_def received_def serialized_def
        n_def [symmetric])
  moreover have "n \<le> length b" using n lh by (simp add: b(1))
  ultimately show ?thesis
    using Parse_ref_parse [of n b] small by (simp add: n_def)
qed

definition example_signed :: stun where
  "example_signed =
     (SetUsername [0x61, 0x3A, 0x62] (Stun INDICATION 5 (replicate 12 9) None 0))
       \<lparr>password := ''secret''\<rparr>"

lemma example_signed_facts:
  "serialize_size example_signed = 60" "representable example_signed" "addMessageIntegrity example_signed"
proof -
  show size: "serialize_size example_signed = 60" and mi: "addMessageIntegrity example_signed"
    by (simp_all add: serialize_size_def example_signed_def stun_setters Stun_def usernamePaddedLen_def
        string_of_bytes_def PadTo4Bytes16_def addXorMappedAddress_def addErrorCode_def
        addMessageIntegrity_def)
  show "representable example_signed"
    unfolding representable_def size
    by (simp add: serializable_def example_signed_def stun_setters Stun_def string_of_bytes_def pad_to_4_def)
qed

text \<open>C3: the parser accepts what the serialiser writes, of every class, whatever the buffer held
  before and holds behind, and gives back every field that a message carries.\<close>

theorem Serialize_Parse_roundtrip:
  assumes "representable s" "\<forall>k m. length (hmac k m) = 20"
    and "hmacSha1Ctx c = Ctx_Live \<or> \<not> addMessageIntegrity s" "serialize_size s \<le> length buffer"
  shows "\<exists>b. Serialize hmac c s buffer = Inr (serialized s b, (b, serialize_size s))
    \<and> Parse b (serialize_size s) = Some (Inr (Some (received s b)))"
proof -
  have hmac: "length (hmac k m) = 20" for k m using assms(2) by blast
  have s: "serializable s" using assms(1) by (simp add: representable_def)
  have "plain_width s \<le> length (drop 20 buffer)"
    using assms(4) serialize_size_eq [OF s] by simp
  from Serialize_eq [where hmac = hmac, OF s hmac assms(3,4)] Parse_message [where hmac = hmac, OF assms(1) hmac this] show ?thesis
    by blast
qed

theorem Serialize_Parse_roundtrip_witness:
  "\<exists>b. Parse b 60 = Some (Inr (Some (received example_signed b)))"
proof -
  have "\<forall>(k :: bytes) (m :: bytes). length (replicate 20 (1 :: u8)) = 20" by simp
  from Serialize_Parse_roundtrip [OF example_signed_facts(2) this,
      of "crypto_initial\<lparr>hmacSha1Ctx := Ctx_Live\<rparr>" "replicate 60 0"]
  show ?thesis by (auto simp: example_signed_facts(1))
qed

end
