(* ===== verification/Packet_Routing.thy ===== *)
theory Packet_Routing
  imports Server_Invariant Stun_Roundtrip
begin

text \<open>
  What the server does with a received packet, as one equation: the peer that the packet is meant for
  is a function of the maps and of the message, and the operation hands the packet to that peer or
  drops it. The routing is the abstract specification of \<open>RTCServer::OnRecvClientPkt\<close>; the receive
  loop and the answers of a peer follow from it.
\<close>

section \<open>The specification\<close>

definition stun_prefix :: "bytes \<Rightarrow> nat \<Rightarrow> bool" where
  "stun_prefix buf len \<longleftrightarrow> 20 \<le> len \<and> buf ! 0 < 3 \<and> take 4 (drop 4 buf) = magicCookie"

definition binding_request :: "stun \<Rightarrow> bool" where
  "binding_request p \<longleftrightarrow> klass p = REQUEST \<and> stun_method p = BINDING"

definition target :: "bytes \<Rightarrow> nat \<Rightarrow> string \<Rightarrow> server \<Rightarrow> nat option" where
  "target buf len remote srv =
     (let bound = map_find (SarsPeersAddrMaps srv) remote
      in if \<not> stun_prefix buf len then bound
         else case ref_parse buf len of
                None \<Rightarrow> None
              | Some p \<Rightarrow>
                  if \<not> binding_request p then bound
                  else case map_find (SarsPeersUfragMaps srv) (username p) of
                         None \<Rightarrow> None
                       | Some i \<Rightarrow> (case bound of None \<Rightarrow> Some i | Some j \<Rightarrow> Some j))"

definition sender_addr :: "sockaddr \<Rightarrow> net_addr" where
  "sender_addr addr =
     \<lparr>addr_type = kAddrIpv4, ip = inet_ntoa (take 4 (drop 2 (sa_data addr))), port = take 2 (sa_data addr)\<rparr>"

definition addr_key :: "sockaddr \<Rightarrow> string" where
  "addr_key addr = remote_key (take 4 (drop 2 (sa_data addr))) (take 2 (sa_data addr))"

definition accept :: "bytes \<Rightarrow> nat \<Rightarrow> sockaddr \<Rightarrow> nat \<Rightarrow> server \<Rightarrow> server" where
  "accept buf len addr j srv =
     emit [ProcessRemoteData (the (peer_connection (peers srv ! j))) (MyPacket buf (int len)) (sender_addr addr)]
       (set_peer j ((peers srv ! j)\<lparr>remote_addr := Some (sender_addr addr)\<rparr>)
         (srv\<lparr>SarsPeersAddrMaps := map_emplace (addr_key addr) j (SarsPeersAddrMaps srv)\<rparr>))"

definition route :: "bytes \<Rightarrow> nat \<Rightarrow> sockaddr \<Rightarrow> server \<Rightarrow> server" where
  "route buf len addr srv =
     (case target buf len (addr_key addr) srv of
        None \<Rightarrow> srv\<lparr>leaked := leaked srv + 1\<rparr> | Some j \<Rightarrow> accept buf len addr j srv)"

definition packet_ok :: "bytes \<Rightarrow> nat \<Rightarrow> sockaddr \<Rightarrow> bool" where
  "packet_ok buf len addr \<longleftrightarrow> sockaddr_in_ok addr \<and> len \<le> length buf \<and> len < 2 ^ 16"

section \<open>The operation meets the specification\<close>

lemma map_emplace_present: "map_ordered m \<Longrightarrow> map_find m k = Some v \<Longrightarrow> map_emplace k w m = m"
proof (induction m)
  case (Cons x m)
  obtain k1 v1 where x: "x = (k1, v1)" by (cases x)
  from Cons.prems have m: "map_ordered m" and below: "\<forall>k'\<in>fst ` set m. k1 < k'"
    by (simp_all add: map_ordered_def x)
  show ?case
  proof (cases "k = k1")
    case False
    with Cons.prems have find: "map_find m k = Some v" by (simp add: x)
    with m have "(k, v) \<in> set m" by (simp add: map_find_Some_iff)
    with below have "k1 < k" by force
    with False Cons.IH [OF m find] show ?thesis by (simp add: x)
  qed (simp add: x)
qed simp

lemma server_ok_maps:
  assumes "server_ok srv"
  shows "map_ordered (SarsPeersAddrMaps srv)" "map_ordered (SarsPeersUfragMaps srv)"
    "map_ordered (SarsPeersStreamIDMaps srv)"
  using assms by (simp_all add: server_ok_def maps_ok_def)

lemma deliver_bound:
  assumes ok: "server_ok srv" and j: "map_find (SarsPeersAddrMaps srv) (addr_key addr) = Some j"
  shows "deliver buf len (addr_key addr) (ip (sender_addr addr)) (port (sender_addr addr)) srv
    = Inr (accept buf len addr j srv)"
proof -
  obtain pc where "j < length (peers srv)" "peer_connection (peers srv ! j) = Some pc"
    using server_ok_addr_peer [OF ok j] by (auto simp: reachable_peer_def)
  moreover have "map_emplace (addr_key addr) j (SarsPeersAddrMaps srv) = SarsPeersAddrMaps srv"
    using map_emplace_present [OF server_ok_maps(1) [OF ok] j] .
  ultimately show ?thesis
    by (simp add: deliver_def j get_peer_def Let_def UdpSocketRecv_def accept_def sender_addr_def)
qed

text \<open>Binding the address first does not change what acceptance does.\<close>

lemma accept_after_bind:
  assumes ok: "server_ok srv" and i: "map_find (SarsPeersUfragMaps srv) u = Some i"
    and new: "map_find (SarsPeersAddrMaps srv) (addr_key addr) = None"
  defines "srv' \<equiv> srv\<lparr>SarsPeersAddrMaps := map_emplace (addr_key addr) i (SarsPeersAddrMaps srv)\<rparr>"
  shows "deliver buf len (addr_key addr) (ip (sender_addr addr)) (port (sender_addr addr)) srv'
    = Inr (accept buf len addr i srv)"
proof -
  have m: "map_ordered (SarsPeersAddrMaps srv)" by (rule server_ok_maps [OF ok])
  have bound: "map_find (SarsPeersAddrMaps srv') (addr_key addr) = Some i"
    using smap.emplace_new [OF m new] by (simp add: srv'_def)
  have "map_emplace (addr_key addr) i (SarsPeersAddrMaps srv') = SarsPeersAddrMaps srv'"
    using map_emplace_present [OF _ bound] smap.inv_emplace [OF m] by (simp add: srv'_def)
  then have "accept buf len addr i srv' = accept buf len addr i srv"
    by (simp add: accept_def srv'_def)
  with deliver_bound [OF _ bound] server_ok_bind_addr [OF ok i] show ?thesis by (simp add: srv'_def)
qed

lemma dispatch_stun_cases:
  assumes "len \<le> length buf" "len < 2 ^ 16"
  shows "dispatch_stun buf len remote srv = Some (Inr
    (case ref_parse buf len of
       None \<Rightarrow> None
     | Some p \<Rightarrow>
         if binding_request p then
           (case map_find (SarsPeersUfragMaps srv) (username p) of
              None \<Rightarrow> None
            | Some i \<Rightarrow> Some (srv\<lparr>SarsPeersAddrMaps := map_emplace remote i (SarsPeersAddrMaps srv)\<rparr>))
         else Some srv))"
  by (simp add: dispatch_stun_def Parse_ref_parse [OF assms] binding_request_def split: option.split)

lemma deliver_unbound:
  "map_find (SarsPeersAddrMaps srv) remote = None \<Longrightarrow>
     deliver buf len remote ipstr p srv = Inr (srv\<lparr>leaked := leaked srv + 1\<rparr>)"
  by (simp add: deliver_def)

lemma OnRecvClientPkt_route:
  assumes ok: "server_ok srv" and pkt: "packet_ok buf len addr"
  shows "OnRecvClientPkt buf len addr srv = Some (Inr (route buf len addr srv))"
proof -
  let ?k = "addr_key addr"
  let ?d = "deliver buf len ?k (ip (sender_addr addr)) (port (sender_addr addr))"
  have bound: "?d srv = Inr (case map_find (SarsPeersAddrMaps srv) ?k of
      None \<Rightarrow> srv\<lparr>leaked := leaked srv + 1\<rparr> | Some j \<Rightarrow> accept buf len addr j srv)"
    by (cases "map_find (SarsPeersAddrMaps srv) ?k") (simp_all add: deliver_unbound deliver_bound [OF ok])
  have bind: "?d (srv\<lparr>SarsPeersAddrMaps := map_emplace ?k i (SarsPeersAddrMaps srv)\<rparr>)
      = Inr (case map_find (SarsPeersAddrMaps srv) ?k of
          None \<Rightarrow> accept buf len addr i srv | Some j \<Rightarrow> accept buf len addr j srv)"
    if "map_find (SarsPeersUfragMaps srv) u = Some i" for u i
  proof (cases "map_find (SarsPeersAddrMaps srv) ?k")
    case (Some j)
    then have "map_emplace ?k i (SarsPeersAddrMaps srv) = SarsPeersAddrMaps srv"
      by (rule map_emplace_present [OF server_ok_maps(1) [OF ok]])
    with Some show ?thesis by (simp add: deliver_bound [OF ok])
  qed (simp add: accept_after_bind [OF ok that])
  have "OnRecvClientPkt buf len addr srv =
    (if stun_prefix buf len then
       (case dispatch_stun buf len ?k srv of
          None \<Rightarrow> None
        | Some (Inl e) \<Rightarrow> Some (Inl e)
        | Some (Inr None) \<Rightarrow> Some (Inr (srv\<lparr>leaked := leaked srv + 1\<rparr>))
        | Some (Inr (Some srv)) \<Rightarrow> Some (?d srv))
     else Some (?d srv))"
    using OnRecvClientPkt_unfold [of addr len buf srv] pkt
    by (simp only: packet_ok_def stun_prefix_def addr_key_def sender_addr_def net_addr.select_convs)
  moreover have "dispatch_stun buf len ?k srv = Some (Inr
    (case ref_parse buf len of
       None \<Rightarrow> None
     | Some p \<Rightarrow>
         if binding_request p then
           (case map_find (SarsPeersUfragMaps srv) (username p) of
              None \<Rightarrow> None
            | Some i \<Rightarrow> Some (srv\<lparr>SarsPeersAddrMaps := map_emplace ?k i (SarsPeersAddrMaps srv)\<rparr>))
         else Some srv))"
    using pkt by (intro dispatch_stun_cases) (simp_all add: packet_ok_def)
  ultimately show ?thesis
    by (auto simp: route_def target_def Let_def bound bind split: option.splits)
qed

section \<open>An example\<close>

definition example_server :: server where
  "example_server = (RTCServer ''0.0.0.0'' 18000 ''10.0.0.9'')
     \<lparr>listening := True, peers := [(RtcPeer Publisher)\<lparr>peer_connection := Some 5, sender_set := True, ufrag := ''l:r''\<rparr>],
      SarsPeersUfragMaps := [(''l:r'', 0)],
      SarsPeersAddrMaps := [(''10.0.0.1:8080'', 0)]\<rparr>"

definition example_sender :: sockaddr where
  "example_sender = \<lparr>sa_family = 2, sa_data = [0x1F, 0x90, 10, 0, 0, 1]\<rparr>"

lemma example_server_ok: "server_ok example_server"
  by (simp add: example_server_def server_ok_def heap_ok_def maps_ok_def peer_ok_def RTCServer_def RtcPeer_def
      map_ordered_def reachable_peer_def)

lemma example_sender_facts:
  "addr_key example_sender = ''10.0.0.1:8080''"
  "sender_addr example_sender = \<lparr>addr_type = kAddrIpv4, ip = ''10.0.0.1'', port = [0x1F, 0x90]\<rparr>"
  by (simp_all add: example_sender_def addr_key_def remote_key_def sender_addr_def inet_ntoa_def to_string.simps
      digit_char_def ntohs_def de2_def char_of_def bit_Suc_0_iff)

lemma example_packet_ok: "packet_ok [0x80, 0] 2 example_sender"
  by (simp add: packet_ok_def sockaddr_in_ok_def example_sender_def)

lemma example_target: "target [0x80, 0] 2 ''10.0.0.1:8080'' example_server = Some 0"
  by (simp add: target_def stun_prefix_def example_server_def)

section \<open>Properties\<close>

text \<open>C4: in every well-formed state, for every packet below \<open>2 ^ 16\<close> bytes, the server neither faults
  nor hangs, and routes the packet by the specification: a packet that looks like STUN but is not well
  formed, or is a binding request for an unknown user name, is dropped; a binding request for a known
  user name goes to the peer its address is already bound to, and binds a new address to the peer of
  the user name; every other packet goes to the peer of its address, or is dropped.\<close>

theorem OnRecvClientPkt_refines:
  assumes "server_ok srv" "packet_ok buf len addr"
  shows "OnRecvClientPkt buf len addr srv = Some (Inr (route buf len addr srv))"
  by (rule OnRecvClientPkt_route [OF assms])

theorem OnRecvClientPkt_refines_witness:
  "OnRecvClientPkt [0x80, 0] 2 example_sender example_server =
     Some (Inr (accept [0x80, 0] 2 example_sender 0 example_server))
   \<and> effects (accept [0x80, 0] 2 example_sender 0 example_server) =
       [ProcessRemoteData 5 (MyPacket [0x80, 0] 2) \<lparr>addr_type = kAddrIpv4, ip = ''10.0.0.1'', port = [0x1F, 0x90]\<rparr>]"
  using OnRecvClientPkt_refines [OF example_server_ok example_packet_ok]
  by (simp add: route_def example_sender_facts example_target)
    (simp add: accept_def example_sender_facts example_server_def RTCServer_def RtcPeer_def)

text \<open>What acceptance leaves in the peer.\<close>

lemma target_peer:
  assumes ok: "server_ok srv" and t: "target buf len a srv = Some j"
  shows "j < length (peers srv)" "sender_set (peers srv ! j)" "\<exists>pc. peer_connection (peers srv ! j) = Some pc"
    "registered srv j"
proof -
  have "(\<exists>a. map_find (SarsPeersAddrMaps srv) a = Some j) \<or> (\<exists>u. map_find (SarsPeersUfragMaps srv) u = Some j)"
    using t by (auto simp: target_def Let_def split: if_splits option.splits)
  then obtain k where k: "map_find (SarsPeersUfragMaps srv) k = Some j"
    using server_ok_addr [OF ok] by blast
  show "j < length (peers srv)" "sender_set (peers srv ! j)" "\<exists>pc. peer_connection (peers srv ! j) = Some pc"
    using server_ok_registered [OF ok k] by (auto simp: reachable_peer_def)
  show "registered srv j" using k by (auto simp: registered_def)
qed

text \<open>C25: after a peer has accepted a packet, whatever the core sends through that peer leaves the server's
  socket for the address of that packet, whichever address the core asks for.\<close>

theorem reply_goes_to_last_sender:
  assumes "server_ok srv" "packet_ok buf len addr" "target buf len (addr_key addr) srv = Some j"
    and "inet_pton (ip (sender_addr addr)) = Some (take 4 (drop 2 (sa_data addr)))" "listening srv"
  shows "\<exists>srv'. OnRecvClientPkt buf len addr srv = Some (Inr srv')
    \<and> call_OnSendDataToRemote inet_pton j data n asked srv'
        = Inr (srv'\<lparr>effects := effects srv' @ [SendTo data n (take 2 (sa_data addr)) (take 4 (drop 2 (sa_data addr)))]\<rparr>)"
proof -
  have "peers (accept buf len addr j srv) ! j = (peers srv ! j)\<lparr>remote_addr := Some (sender_addr addr)\<rparr>"
    "j < length (peers (accept buf len addr j srv))" "listening (accept buf len addr j srv)"
    using target_peer(1) [OF assms(1,3)] assms(5) by (simp_all add: accept_def)
  then have "call_OnSendDataToRemote inet_pton j data n asked (accept buf len addr j srv)
      = Inr (emit [SendTo data n (port (sender_addr addr)) (take 4 (drop 2 (sa_data addr)))] (accept buf len addr j srv))"
    using target_peer(2) [OF assms(1,3)] assms(4)
    by (simp add: call_OnSendDataToRemote_def get_peer_def OnSendDataToRemote_def UdpSocketSend_def
        SendPktToClient_def Server_SendPktToClient_def)
  then show ?thesis
    using OnRecvClientPkt_route [OF assms(1,2)] assms(3) by (simp add: route_def emit_def) (simp add: sender_addr_def)
qed

theorem reply_goes_to_last_sender_witness:
  "\<exists>srv'. OnRecvClientPkt [0x80, 0] 2 example_sender example_server = Some (Inr srv')
    \<and> call_OnSendDataToRemote (\<lambda>s. if s = ''10.0.0.1'' then Some [10, 0, 0, 1] else None) 0 [1, 2] 2
        \<lparr>addr_type = kAddrIpv4, ip = ''10.9.9.9'', port = [0, 0]\<rparr> srv'
      = Inr (srv'\<lparr>effects := effects srv' @ [SendTo [1, 2] 2 [0x1F, 0x90] [10, 0, 0, 1]]\<rparr>)"
  using reply_goes_to_last_sender [OF example_server_ok example_packet_ok, of 0
      "\<lambda>s. if s = ''10.0.0.1'' then Some [10, 0, 0, 1] else None" "[1, 2]" 2
      "\<lparr>addr_type = kAddrIpv4, ip = ''10.9.9.9'', port = [0, 0]\<rparr>"]
  by (simp add: example_sender_facts example_target) (simp add: example_sender_def example_server_def)

section \<open>The receive loop\<close>

text \<open>The packets that were handed to the core.\<close>

fun is_handed :: "effect \<Rightarrow> bool" where
  "is_handed (ProcessRemoteData pc pkt addr) = True"
| "is_handed _ = False"

definition handed :: "server \<Rightarrow> nat" where
  "handed srv = length (filter is_handed (effects srv))"

lemma route_conserves: "handed (route buf len addr srv) + leaked (route buf len addr srv) = handed srv + leaked srv + 1"
  by (simp add: route_def accept_def handed_def split: option.split)

lemma route_ok: "server_ok srv \<Longrightarrow> packet_ok buf len addr \<Longrightarrow> server_ok (route buf len addr srv)"
  using OnRecvClientPkt_ok [of srv addr len buf] OnRecvClientPkt_route [of srv buf len addr]
  by (auto simp: packet_ok_def)

text \<open>C26: the receive loop ends when the socket fails, and every packet has then been handed to the core
  exactly once or its buffer is lost; the last buffer is lost as well. This is the loop by itself, over any
  finite sequence of packets; interleaving with the other coroutines is the subject of the runs.\<close>

theorem Cycle_accounts_for_packets:
  assumes "server_ok srv" "\<forall>(buf, len, addr)\<in>set pkts. packet_ok buf len addr"
  shows "\<exists>srv'. Cycle pkts ret srv = Some (Inr (ret, srv')) \<and> server_ok srv'
    \<and> handed srv' + leaked srv' = handed srv + leaked srv + length pkts + 1"
  using assms
proof (induction pkts ret srv rule: Cycle.induct)
  case (1 ret srv)
  then show ?case by (simp add: server_ok_leaked) (simp add: handed_def)
next
  case (2 buf len addr pkts ret srv)
  then have pkt: "packet_ok buf len addr" by simp
  have step: "OnRecvClientPkt buf len addr srv = Some (Inr (route buf len addr srv))"
    by (rule OnRecvClientPkt_route [OF 2(2) pkt])
  show ?case
    using "2.IH" [OF step refl route_ok [OF 2(2) pkt]] 2(3) route_conserves [of buf len addr srv]
    by (auto simp: step)
qed

theorem Cycle_accounts_for_packets_witness:
  "\<exists>srv'. Cycle [([0x80, 0], 2, example_sender), ([0x81, 0], 2, example_sender)] (-1) example_server = Some (Inr (-1, srv'))
     \<and> handed srv' + leaked srv' = 3"
  using Cycle_accounts_for_packets [OF example_server_ok, of
      "[([0x80, 0], 2, example_sender), ([0x81, 0], 2, example_sender)]" "-1"]
  by (fastforce simp: packet_ok_def sockaddr_in_ok_def example_sender_def handed_def example_server_def RTCServer_def)

section \<open>Binding requests are not authenticated\<close>

text \<open>A binding request that carries a user name and nothing else, as anybody can write it.\<close>

definition bare_request :: "string \<Rightarrow> stun" where
  "bare_request u = (Stun REQUEST BINDING (replicate 12 0) None 0)\<lparr>username := u\<rparr>"

lemma bare_request_size:
  assumes "u \<noteq> ''''" "length u \<le> 1500"
  shows "serialize_size (bare_request u) = 32 + pad_to_4 (length u)" "pad_to_4 (length u) < 1504"
    "representable (bare_request u)" "\<not> addMessageIntegrity (bare_request u)"
proof -
  show pad: "pad_to_4 (length u) < 1504" using assms(2) by (simp add: pad_to_4_def)
  have ser: "serializable (bare_request u)"
    using pad by (simp add: serializable_def bare_request_def Stun_def)
  show size: "serialize_size (bare_request u) = 32 + pad_to_4 (length u)"
    unfolding serialize_size_eq [OF ser] using assms(1)
    by (simp add: plain_width_def username_width_def bare_request_def
        Stun_def address_width_def addXorMappedAddress_def addErrorCode_def addMessageIntegrity_def)
  show mi: "\<not> addMessageIntegrity (bare_request u)"
    by (simp add: addMessageIntegrity_def bare_request_def Stun_def)
  show "representable (bare_request u)"
    using ser size pad by (simp add: representable_def) (simp add: bare_request_def Stun_def BINDING_def)
qed

definition bare_message :: "string \<Rightarrow> bytes" where
  "bare_message u =
     message_bytes (\<lambda>k m. replicate 20 0) (bare_request u) (username_stale (bare_request u) (replicate 1600 0))"

lemma bare_message_received:
  assumes "u \<noteq> ''''" "length u \<le> 1500"
  shows "length (bare_message u) \<le> 2048"
    and "Parse (bare_message u) (length (bare_message u)) =
      Some (Inr (Some (received (bare_request u) (bare_message u))))"
proof -
  note size = bare_request_size [OF assms]
  let ?s = "bare_request u" and ?hmac = "\<lambda>(k :: bytes) (m :: bytes). replicate 20 (0 :: u8)"
  have ser: "serializable ?s" using size(3) by (simp add: representable_def)
  have room: "plain_width ?s \<le> length (replicate 1600 (0 :: u8))"
    using size(1,2,4) serialize_size_eq [OF ser] by simp
  have len: "length (bare_message u) = serialize_size ?s"
    unfolding bare_message_def using room by (intro length_message_bytes [OF ser]) simp_all
  with size(1,2) show "length (bare_message u) \<le> 2048" by simp
  show "Parse (bare_message u) (length (bare_message u)) = Some (Inr (Some (received ?s (bare_message u))))"
    using Parse_message [where hmac = ?hmac, OF size(3) _ room, of "[]"] len by (simp add: bare_message_def)
qed

lemma Parse_prefix:
  assumes "len \<le> length buf" "len < 2 ^ 16" "Parse buf len = Some (Inr (Some p))"
  shows "ref_parse buf len = Some p" "stun_prefix buf len"
proof -
  show ref: "ref_parse buf len = Some p" using assms Parse_ref_parse [OF assms(1,2)] by simp
  then show "stun_prefix buf len"
    by (auto simp: ref_parse_def header_ok_def stun_prefix_def split: if_splits)
qed

lemma target_bare_message:
  assumes "u \<noteq> ''''" "length u \<le> 1500"
    and "map_find (SarsPeersUfragMaps srv) u = Some i" "map_find (SarsPeersAddrMaps srv) a = None"
  shows "target (bare_message u) (length (bare_message u)) a srv = Some i"
proof -
  note msg = bare_message_received [OF assms(1,2)]
  have "binding_request (received (bare_request u) b)" "username (received (bare_request u) b) = u" for b
    by (simp_all add: binding_request_def received_def serialized_def bare_request_def Stun_def)
  then show ?thesis using Parse_prefix [OF _ _ msg(2)] msg(1) assms(3,4) by (simp add: target_def)
qed

text \<open>C24: the server does not check the message integrity of a binding request: for every registered
  user name there is a message without one, which anybody who knows the name can send from any address
  that is not bound yet, and with which that address takes over the peer and what is sent to it.\<close>

theorem binding_needs_no_integrity:
  assumes "server_ok srv" "map_find (SarsPeersUfragMaps srv) u = Some i" "u \<noteq> ''''" "length u \<le> 1500"
    and "sockaddr_in_ok addr" "map_find (SarsPeersAddrMaps srv) (addr_key addr) = None"
  shows "\<exists>buf p srv'. Parse buf (length buf) = Some (Inr (Some p)) \<and> messageIntegrity p = None
    \<and> OnRecvClientPkt buf (length buf) addr srv = Some (Inr srv')
    \<and> map_find (SarsPeersAddrMaps srv') (addr_key addr) = Some i
    \<and> remote_addr (peers srv' ! i) = Some (sender_addr addr)"
proof -
  note msg = bare_message_received [OF assms(3,4)]
  let ?b = "bare_message u"
  have pkt: "packet_ok ?b (length ?b) addr" using msg(1) assms(5) by (simp add: packet_ok_def)
  have t: "target ?b (length ?b) (addr_key addr) srv = Some i"
    by (rule target_bare_message [OF assms(3,4,2,6)])
  have "messageIntegrity (received (bare_request u) ?b) = None"
    using bare_request_size(4) [OF assms(3,4)] by (simp add: received_def serialized_def)
  moreover have "map_find (SarsPeersAddrMaps (accept ?b (length ?b) addr i srv)) (addr_key addr) = Some i"
    using smap.emplace_new [OF server_ok_maps(1) [OF assms(1)] assms(6)] by (simp add: accept_def)
  moreover have "remote_addr (peers (accept ?b (length ?b) addr i srv) ! i) = Some (sender_addr addr)"
    using target_peer(1) [OF assms(1) t] by (simp add: accept_def)
  ultimately show ?thesis
    using OnRecvClientPkt_route [OF assms(1) pkt] msg(2) by (auto simp: route_def t)
qed

theorem binding_needs_no_integrity_witness:
  "\<exists>buf srv'. OnRecvClientPkt buf (length buf) \<lparr>sa_family = 2, sa_data = [0, 9, 66, 6, 6, 6]\<rparr> example_server = Some (Inr srv')
    \<and> remote_addr (peers srv' ! 0) = Some \<lparr>addr_type = kAddrIpv4, ip = ''66.6.6.6'', port = [0, 9]\<rparr>"
proof -
  let ?a = "\<lparr>sa_family = 2, sa_data = [0, 9, 66, 6, 6, 6]\<rparr> :: sockaddr"
  have a: "addr_key ?a = ''66.6.6.6:9''" "sender_addr ?a = \<lparr>addr_type = kAddrIpv4, ip = ''66.6.6.6'', port = [0, 9]\<rparr>"
    by (simp_all add: addr_key_def remote_key_def sender_addr_def inet_ntoa_def to_string.simps digit_char_def
        ntohs_def de2_def char_of_def bit_Suc_0_iff)
  have "map_find (SarsPeersUfragMaps example_server) ''l:r'' = Some 0"
    "map_find (SarsPeersAddrMaps example_server) (addr_key ?a) = None"
    by (simp_all add: example_server_def a)
  from binding_needs_no_integrity [OF example_server_ok this(1) _ _ _ this(2)]
  show ?thesis by (auto simp: sockaddr_in_ok_def a)
qed

end
