(* ===== verification/Server_Steps.thy ===== *)
theory Server_Steps
  imports Signalling Packet_Routing
begin

text \<open>
  The whole server as a transition system. Its coroutines (the receive loop, one per HTTP request,
  the timer loop of \<open>main\<close>, the callbacks of the WebRTC core) give up the processor only at their
  reads, writes and sleeps, so that a step is what one of them does between two such points. A
  publish or play request is two steps: until its response is written, and after it, with the
  request pending in between. The invariant of \<open>Server_Invariant\<close> holds in every reachable state.
\<close>

section \<open>Steps\<close>

datatype request = Pending_Publish nat nat | Pending_Play nat nat

record system =
  srv :: server
  pending :: "request list"

text \<open>
  Events. A callback names the peer it is made on; the WebRTC core makes callbacks only on a peer
  that has a connection. \<open>Http\<close> is a request that ends in one step: for the default page, or with
  another method than \<open>POST\<close>, with the content of the page and the result of the write.
\<close>

datatype event =
    Packet bytes nat sockaddr
  | Publish string peer_env
  | Play string peer_env
  | Finish nat
  | Connection nat PeerConnectionState
  | Ice_Connection nat IceConnectionState
  | Local_Video_Track nat u32 codec_map
  | Local_Audio_Track nat u32 codec_map
  | Remote_Video_Track nat u32 codec_map
  | Remote_Audio_Track nat u32 codec_map
  | Video_Track_Removed nat u32
  | Audio_Track_Removed nat u32
  | Channel_Data nat "my_packet option"
  | Rtp_Packet nat MediaType bytes
  | Dump_Data nat bytes int
  | Media fwrite nat media
  | IFrame_Request nat
  | Send_Data "string \<Rightarrow> bytes option" nat bytes int net_addr
  | Timer "nat \<Rightarrow> u64"
  | Http handler string string string peer_env "string option" int

definition has_pc :: "server \<Rightarrow> nat \<Rightarrow> bool" where
  "has_pc s i \<longleftrightarrow> i < length (peers s) \<and> peer_connection (peers s ! i) \<noteq> None"

fun enabled :: "event \<Rightarrow> system \<Rightarrow> bool" where
  "enabled (Packet buf len addr) s \<longleftrightarrow> sockaddr_in_ok addr \<and> len \<le> length buf \<and> len \<le> 2048"
| "enabled (Publish body env) s \<longleftrightarrow> True"
| "enabled (Play body env) s \<longleftrightarrow> True"
| "enabled (Finish k) s \<longleftrightarrow> k < length (pending s)"
| "enabled (Connection i st) s \<longleftrightarrow> has_pc (srv s) i"
| "enabled (Ice_Connection i st) s \<longleftrightarrow> has_pc (srv s) i"
| "enabled (Local_Video_Track i ssrc m) s \<longleftrightarrow> has_pc (srv s) i"
| "enabled (Local_Audio_Track i ssrc m) s \<longleftrightarrow> has_pc (srv s) i"
| "enabled (Remote_Video_Track i ssrc m) s \<longleftrightarrow> has_pc (srv s) i"
| "enabled (Remote_Audio_Track i ssrc m) s \<longleftrightarrow> has_pc (srv s) i"
| "enabled (Video_Track_Removed i ssrc) s \<longleftrightarrow> has_pc (srv s) i"
| "enabled (Audio_Track_Removed i ssrc) s \<longleftrightarrow> has_pc (srv s) i"
| "enabled (Channel_Data i data) s \<longleftrightarrow> has_pc (srv s) i"
| "enabled (Rtp_Packet i mt pkt) s \<longleftrightarrow> has_pc (srv s) i"
| "enabled (Dump_Data i data n) s \<longleftrightarrow> has_pc (srv s) i"
| "enabled (Media ok i m) s \<longleftrightarrow> has_pc (srv s) i"
| "enabled (IFrame_Request i) s \<longleftrightarrow> has_pc (srv s) i"
| "enabled (Send_Data inet_pton i data n addr) s \<longleftrightarrow> has_pc (srv s) i"
| "enabled (Timer now) s \<longleftrightarrow> True"
| "enabled (Http h path method_str body env file ret) s \<longleftrightarrow> h = DefaultHandler \<or> method_str \<noteq> ''POST''"

definition on_peer :: "nat \<Rightarrow> (peer \<Rightarrow> peer) \<Rightarrow> server \<Rightarrow> server res" where
  "on_peer i f s = bindR (get_peer s i) (\<lambda>p. Inr (set_peer i (f p) s))"

definition step_srv :: "system \<Rightarrow> server res \<Rightarrow> system res" where
  "step_srv s r = bindR r (\<lambda>v. Inr (s\<lparr>srv := v\<rparr>))"

definition step_http :: "system \<Rightarrow> (http_result \<times> server) res \<Rightarrow> system res" where
  "step_http s r = bindR r (\<lambda>(ret, v). Inr (s\<lparr>srv := v\<rparr>))"

definition step_begin ::
  "system \<Rightarrow> (nat \<Rightarrow> nat \<Rightarrow> request) \<Rightarrow> ((int + nat \<times> nat) \<times> server) res \<Rightarrow> system res" where
  "step_begin s req r =
     bindR r (\<lambda>(out, v). Inr (s\<lparr>srv := v, pending :=
       (case out of Inl code \<Rightarrow> pending s | Inr (i, c) \<Rightarrow> pending s @ [req i c])\<rparr>))"

definition finish :: "request \<Rightarrow> server \<Rightarrow> server res" where
  "finish r v =
     (case r of Pending_Publish i c \<Rightarrow> publish_finish i c v | Pending_Play i c \<Rightarrow> play_finish i c v)"

text \<open>The virtual call of the handler that the route names.\<close>

definition serve_http ::
  "(string \<Rightarrow> (string \<times> string) option) \<Rightarrow> (string \<Rightarrow> string) \<Rightarrow> handler \<Rightarrow> string \<Rightarrow> string \<Rightarrow> string
     \<Rightarrow> peer_env \<Rightarrow> string option \<Rightarrow> int \<Rightarrow> server \<Rightarrow> (http_result \<times> server) res" where
  "serve_http parse dump h path method_str body env file ret v =
     (case h of
        DefaultHandler \<Rightarrow> DefaultHandler_serve_http file path method_str ret v
      | PublishHandler \<Rightarrow> PublishHandler_serve_http parse dump method_str body env ret v
      | PlayHandler \<Rightarrow> PlayHandler_serve_http parse dump method_str body env v)"

text \<open>What an event does; the result \<open>None\<close> is a handler that does not end.\<close>

fun exec ::
  "(string \<Rightarrow> (string \<times> string) option) \<Rightarrow> (string \<Rightarrow> string) \<Rightarrow> event \<Rightarrow> system \<Rightarrow> system res option" where
  "exec parse dump (Packet buf len addr) s =
     map_option (step_srv s) (OnRecvClientPkt buf len addr (srv s))"
| "exec parse dump (Publish body env) s =
     Some (step_begin s Pending_Publish (publish_begin parse dump body env (srv s)))"
| "exec parse dump (Play body env) s =
     Some (step_begin s Pending_Play (play_begin parse dump body env (srv s)))"
| "exec parse dump (Finish k) s =
     Some (bindR (finish (pending s ! k) (srv s)) (\<lambda>v.
       Inr (s\<lparr>srv := v, pending := take k (pending s) @ drop (Suc k) (pending s)\<rparr>)))"
| "exec parse dump (Connection i st) s = Some (step_srv s (call_OnConnectionChange i st (srv s)))"
| "exec parse dump (Ice_Connection i st) s = Some (step_srv s (call_OnIceConnectionChange i st (srv s)))"
| "exec parse dump (Local_Video_Track i ssrc m) s =
     Some (step_srv s (on_peer i (OnAddLocalVideoTrack ssrc m) (srv s)))"
| "exec parse dump (Local_Audio_Track i ssrc m) s =
     Some (step_srv s (on_peer i (OnAddLocalAudioTrack ssrc m) (srv s)))"
| "exec parse dump (Remote_Video_Track i ssrc m) s =
     Some (step_srv s (on_peer i (OnAddVideoTrack ssrc m) (srv s)))"
| "exec parse dump (Remote_Audio_Track i ssrc m) s =
     Some (step_srv s (on_peer i (OnAddAudioTrack ssrc m) (srv s)))"
| "exec parse dump (Video_Track_Removed i ssrc) s =
     Some (step_srv s (on_peer i (OnRemoveVideoTrack ssrc) (srv s)))"
| "exec parse dump (Audio_Track_Removed i ssrc) s =
     Some (step_srv s (on_peer i (OnRemoveAudioTrack ssrc) (srv s)))"
| "exec parse dump (Channel_Data i data) s = Some (step_srv s (on_peer i (OnRecvChannelData data) (srv s)))"
| "exec parse dump (Rtp_Packet i mt pkt) s =
     Some (step_srv s (on_peer i (OnDeliverRtpPacket mt pkt) (srv s)))"
| "exec parse dump (Dump_Data i data n) s = Some (step_srv s (on_peer i (OnSendDumpData data n) (srv s)))"
| "exec parse dump (Media ok i m) s = Some (step_srv s (call_OnRecvMediaData ok i m (srv s)))"
| "exec parse dump (IFrame_Request i) s = Some (step_srv s (call_OnRequestIFrame i (srv s)))"
| "exec parse dump (Send_Data inet_pton i data n addr) s =
     Some (step_srv s (call_OnSendDataToRemote inet_pton i data n addr (srv s)))"
| "exec parse dump (Timer now) s = Some (step_srv s (timer_round now (srv s)))"
| "exec parse dump (Http h path method_str body env file ret) s =
     Some (step_http s (serve_http parse dump h path method_str body env file ret (srv s)))"

text \<open>\<open>main\<close> has made the server and its \<open>run\<close> has opened the socket.\<close>

definition initial :: system where
  "initial = \<lparr>srv = snd (run True 0 (RTCServer ''0.0.0.0'' 18000 ''49.232.131.173'')), pending = []\<rparr>"

inductive reachable ::
  "(string \<Rightarrow> (string \<times> string) option) \<Rightarrow> (string \<Rightarrow> string) \<Rightarrow> system \<Rightarrow> bool"
  for parse dump where
  start: "reachable parse dump initial"
| move: "reachable parse dump s \<Longrightarrow> enabled e s \<Longrightarrow> exec parse dump e s = Some (Inr s') \<Longrightarrow>
    reachable parse dump s'"

section \<open>The invariant of the system\<close>

fun request_ok :: "server \<Rightarrow> request \<Rightarrow> bool" where
  "request_ok v (Pending_Publish i c) \<longleftrightarrow> has_class v Publisher i \<and> c < length (scaches v)"
| "request_ok v (Pending_Play i c) \<longleftrightarrow>
     has_class v Player i \<and> c < length (scaches v) \<and> \<not> CanPublish (scaches v ! c)"

definition system_ok :: "system \<Rightarrow> bool" where
  "system_ok s \<longleftrightarrow> server_ok (srv s) \<and> (\<forall>r\<in>set (pending s). request_ok (srv s) r)"

lemma request_ok_grows: "request_ok v r \<Longrightarrow> grows v v' \<Longrightarrow> request_ok v' r"
  by (cases r) (auto simp: grows_def)

text \<open>A step of the server proper keeps the invariant of the system when it keeps the server's and
  undoes nothing.\<close>

lemma system_ok_step:
  "system_ok s \<Longrightarrow> server_ok v \<Longrightarrow> grows (srv s) v \<Longrightarrow> system_ok (s\<lparr>srv := v\<rparr>)"
  by (auto simp: system_ok_def intro: request_ok_grows)

section \<open>Requests keep the invariant\<close>

lemma CreateRtcPublisher_ok:
  assumes "server_ok v"
  shows "\<exists>i answer v'. CreateRtcPublisher sid offer env v = Inr (i, answer, v')
    \<and> server_ok v' \<and> grows v v' \<and> has_class v' Publisher i \<and> scaches v' = scaches v"
proof -
  obtain i v1 where n: "new_peer Publisher v = (i, v1)" by (cases "new_peer Publisher v")
  note new = server_ok_new_peer [OF assms n]
  from CreateRtcPeer_ok [OF new(1,3,4,5), of sid offer env] n new(6,8) show ?thesis
    by (auto simp: CreateRtcPublisher_def intro: grows_trans)
qed

lemma CreateRtcPlayer_ok:
  assumes "server_ok v"
  shows "\<exists>i answer v'. CreateRtcPlayer sid offer env v = Inr (i, answer, v')
    \<and> server_ok v' \<and> grows v v' \<and> has_class v' Player i \<and> scaches v' = scaches v"
proof -
  obtain i v1 where n: "new_peer Player v = (i, v1)" by (cases "new_peer Player v")
  note new = server_ok_new_peer [OF assms n]
  from CreateRtcPeer_ok [OF new(1,3,4,5), of sid offer env] n new(6,8) show ?thesis
    by (auto simp: CreateRtcPlayer_def intro: grows_trans)
qed

lemma write_answer_ok [simp]:
  "server_ok v \<Longrightarrow> server_ok (write_answer dump a v)" "grows h (write_answer dump a v) = grows h v"
  "has_class (write_answer dump a v) cls i = has_class v cls i"
  "scaches (write_answer dump a v) = scaches v"
  by (simp_all add: write_answer_def Let_def server_ok_emit has_class_def)

lemma publish_begin_eq:
  assumes "parse body = Some (offer, url)" "GetStreamIdFromStreamUrl url = Inr sid"
    and "GetOrCreateStreamCache sid v = (c, v1)" "c < length (scaches v1)"
    and "CreateRtcPublisher sid offer env v1 = Inr (i, answer, v2)"
  shows "publish_begin parse dump body env v =
    (if \<not> CanPublish (scaches v1 ! c) then Inr (Inl (-15), v1)
     else Inr (Inr (i, c), write_answer dump answer v2))"
  using assms by (simp add: publish_begin_def get_scache_def)

lemma publish_begin_cases:
  assumes ok: "server_ok v" and b: "publish_begin parse dump body env v = Inr (out, v')"
  obtains offer url sid c v1 where "parse body = Some (offer, url)" "GetStreamIdFromStreamUrl url = Inr sid"
    "GetOrCreateStreamCache sid v = (c, v1)" "\<not> CanPublish (scaches v1 ! c)" "out = Inl (-15)" "v' = v1"
  | offer url sid c v1 i answer v2 where "parse body = Some (offer, url)" "GetStreamIdFromStreamUrl url = Inr sid"
    "GetOrCreateStreamCache sid v = (c, v1)" "CanPublish (scaches v1 ! c)"
    "CreateRtcPublisher sid offer env v1 = Inr (i, answer, v2)" "out = Inr (i, c)" "v' = write_answer dump answer v2"
proof -
  obtain offer url sid where p: "parse body = Some (offer, url)" "GetStreamIdFromStreamUrl url = Inr sid"
    using b by (auto simp: publish_begin_def split: option.splits)
  obtain c v1 where g: "GetOrCreateStreamCache sid v = (c, v1)" by (cases "GetOrCreateStreamCache sid v")
  note get = GetOrCreateStreamCache_ok [OF ok g]
  obtain i answer v2 where m: "CreateRtcPublisher sid offer env v1 = Inr (i, answer, v2)"
    using CreateRtcPublisher_ok [OF get(1)] by blast
  note eq = b [unfolded publish_begin_eq [where parse = parse, OF p g get(2) m]]
  then show thesis using that(1) [OF p g] that(2) [OF p g _ m] by (auto split: if_splits)
qed

lemma publish_begin_ok:
  assumes ok: "server_ok v" and b: "publish_begin parse dump body env v = Inr (out, v')"
  shows "server_ok v' \<and> grows v v' \<and> (\<forall>i c. out = Inr (i, c) \<longrightarrow> request_ok v' (Pending_Publish i c))"
proof (cases rule: publish_begin_cases [OF ok b])
  case (1 offer url sid c v1)
  then show ?thesis using GetOrCreateStreamCache_ok [OF ok 1(3)] by simp
next
  case (2 offer url sid c v1 i answer v2)
  note get = GetOrCreateStreamCache_ok [OF ok 2(3)]
  from CreateRtcPublisher_ok [OF get(1), of sid offer env] 2(4-7) get(2) grows_trans [OF get(3)]
  show ?thesis by auto
qed

lemma play_begin_eq:
  assumes "parse body = Some (offer, url)" "GetStreamIdFromStreamUrl url = Inr sid"
    and "GetOrCreateStreamCache sid v = (c, v1)" "c < length (scaches v1)"
    and "CreateRtcPlayer sid offer env v1 = Inr (i, answer, v2)"
  shows "play_begin parse dump body env v =
    (if CanPublish (scaches v1 ! c) then Inr (Inl (-15), v1)
     else Inr (Inr (i, c), write_answer dump answer v2))"
  using assms by (simp add: play_begin_def get_scache_def)

lemma play_begin_cases:
  assumes ok: "server_ok v" and b: "play_begin parse dump body env v = Inr (out, v')"
  obtains offer url sid c v1 where "parse body = Some (offer, url)" "GetStreamIdFromStreamUrl url = Inr sid"
    "GetOrCreateStreamCache sid v = (c, v1)" "CanPublish (scaches v1 ! c)" "out = Inl (-15)" "v' = v1"
  | offer url sid c v1 i answer v2 where "parse body = Some (offer, url)" "GetStreamIdFromStreamUrl url = Inr sid"
    "GetOrCreateStreamCache sid v = (c, v1)" "\<not> CanPublish (scaches v1 ! c)"
    "CreateRtcPlayer sid offer env v1 = Inr (i, answer, v2)" "out = Inr (i, c)" "v' = write_answer dump answer v2"
proof -
  obtain offer url sid where p: "parse body = Some (offer, url)" "GetStreamIdFromStreamUrl url = Inr sid"
    using b by (auto simp: play_begin_def split: option.splits)
  obtain c v1 where g: "GetOrCreateStreamCache sid v = (c, v1)" by (cases "GetOrCreateStreamCache sid v")
  note get = GetOrCreateStreamCache_ok [OF ok g]
  obtain i answer v2 where m: "CreateRtcPlayer sid offer env v1 = Inr (i, answer, v2)"
    using CreateRtcPlayer_ok [OF get(1)] by blast
  note eq = b [unfolded play_begin_eq [where parse = parse, OF p g get(2) m]]
  then show thesis using that(1) [OF p g] that(2) [OF p g _ m] by (auto split: if_splits)
qed

lemma play_begin_ok:
  assumes ok: "server_ok v" and b: "play_begin parse dump body env v = Inr (out, v')"
  shows "server_ok v' \<and> grows v v' \<and> (\<forall>i c. out = Inr (i, c) \<longrightarrow> request_ok v' (Pending_Play i c))"
proof (cases rule: play_begin_cases [OF ok b])
  case (1 offer url sid c v1)
  then show ?thesis using GetOrCreateStreamCache_ok [OF ok 1(3)] by simp
next
  case (2 offer url sid c v1 i answer v2)
  note get = GetOrCreateStreamCache_ok [OF ok 2(3)]
  from CreateRtcPlayer_ok [OF get(1), of sid offer env] 2(4-7) get(2) grows_trans [OF get(3)]
  show ?thesis by auto
qed

lemma server_ok_set_scache [inv_intros]:
  assumes ok: "server_ok v" and c: "c < length (scaches v)" and s: "scache_ok v s"
    and pub: "publisher (scaches v ! c) \<noteq> None \<Longrightarrow> publisher s \<noteq> None"
  shows "server_ok (set_scache c s v)"
proof -
  have "peer_ok v p \<Longrightarrow> peer_ok (set_scache c s v) p" for p
    using pub c by (auto simp: peer_ok_def nth_list_update)
  moreover have "scache_ok (set_scache c s v) s' = scache_ok v s'" for s'
    by (simp add: scache_ok_def has_class_def)
  ultimately show ?thesis
    using ok s set_update_subset_insert [of "scaches v" c s]
    by (auto simp: server_ok_def heap_ok_def maps_ok_def reachable_peer_def)
qed

lemma grows_set_scache [inv_intros]:
  "c < length (scaches h) \<Longrightarrow> (\<not> CanPublish (scaches h ! c) \<Longrightarrow> \<not> CanPublish s) \<Longrightarrow>
     grows h (set_scache c s h)"
  by (auto simp: grows_def has_class_def nth_list_update)

text \<open>A peer enters a stream that has a publisher.\<close>

lemma join_stream_ok:
  assumes ok: "server_ok v" and i: "i < length (peers v)" and c: "c < length (scaches v)" "publisher (scaches v ! c) \<noteq> None"
  defines "v' \<equiv> set_peer i ((peers v ! i)\<lparr>peer_scache := Some c\<rparr>) v"
  shows "server_ok v'" "grows v v'"
proof -
  show "server_ok v'"
    unfolding v'_def
  proof (rule server_ok_set_peer [OF ok i])
    show "peer_ok v ((peers v ! i)\<lparr>peer_scache := Some c\<rparr>)"
      using server_ok_peer [OF ok i] c by (simp add: peer_ok_def)
    show "sender_set ((peers v ! i)\<lparr>peer_scache := Some c\<rparr>) \<and> peer_connection ((peers v ! i)\<lparr>peer_scache := Some c\<rparr>) \<noteq> None
        \<and> ufrag ((peers v ! i)\<lparr>peer_scache := Some c\<rparr>) = ufrag (peers v ! i)" if "registered v i"
      using that server_ok_registered [OF ok] by (auto simp: registered_def reachable_peer_def)
  qed simp
  show "grows v v'" using i by (simp add: v'_def grows_set_peer)
qed

text \<open>The destruction of a peer that nobody holds.\<close>

lemma registered_owned: "server_ok v \<Longrightarrow> registered v j \<Longrightarrow> owned v j"
  by (force simp: registered_def owned_def map_values_def map_find_Some_iff [OF server_ok_maps(2)] image_iff)

lemma RtcPeer_destroy_eq:
  "fp_h264 p = None \<Longrightarrow> RtcPeer_destroy p = Inr (case peer_connection p of None \<Rightarrow> [] | Some pc \<Rightarrow> [Delete_PC pc])"
  by (simp add: RtcPeer_destroy_def WriteH264FileStop_def)

definition destroyed :: "nat \<Rightarrow> server \<Rightarrow> server" where
  "destroyed j v =
     emit (case peer_connection (peers v ! j) of None \<Rightarrow> [] | Some pc \<Rightarrow> [Delete_PC pc])
       (set_peer j (RtcPeer (peer_class (peers v ! j))) v)"

lemma release_peer_eq:
  assumes "server_ok v" "\<And>j. old = Some j \<Longrightarrow> j < length (peers v)"
  shows "release_peer old v =
    Inr (case old of None \<Rightarrow> v | Some j \<Rightarrow> if owned v j then v else destroyed j v)"
proof (cases old)
  case (Some j)
  with assms(2) have j: "j < length (peers v)" by simp
  then have "fp_h264 (peers v ! j) = None" using server_ok_peer [OF assms(1) j] by (simp add: peer_ok_def)
  from RtcPeer_destroy_eq [OF this] show ?thesis
    using Some j by (simp add: release_peer_def get_peer_def destroyed_def)
qed (simp add: release_peer_def)

lemma destroyed_ok:
  assumes ok: "server_ok v" and j: "j < length (peers v)" "\<not> owned v j"
  shows "server_ok (destroyed j v)" "grows v (destroyed j v)"
proof -
  have "\<not> registered v j" using registered_owned [OF ok] j(2) by blast
  then have "server_ok (set_peer j (RtcPeer (peer_class (peers v ! j))) v)"
    by (intro server_ok_set_peer [OF ok j(1)]) (simp_all add: peer_ok_def RtcPeer_def)
  then show "server_ok (destroyed j v)" unfolding destroyed_def by (rule server_ok_emit)
  have "grows v (set_peer j (RtcPeer (peer_class (peers v ! j))) v)"
    by (rule grows_set_peer [OF j(1)]) (simp add: RtcPeer_def)
  then show "grows v (destroyed j v)" unfolding destroyed_def by (rule grows_trans) (simp add: grows_refl)
qed

text \<open>The state in which the new publisher enters its stream.\<close>

definition republished :: "nat \<Rightarrow> nat \<Rightarrow> server \<Rightarrow> server" where
  "republished i c v =
     (let v1 = set_scache c ((scaches v ! c)\<lparr>CanPublish := False, publisher := Some i\<rparr>) v
      in case publisher (scaches v ! c) of
           None \<Rightarrow> v1 | Some j \<Rightarrow> if owned v1 j then v1 else destroyed j v1)"

lemma publish_finish_eq:
  assumes ok: "server_ok v" and i: "has_class v Publisher i" and c: "c < length (scaches v)"
  defines "v2 \<equiv> republished i c v"
  shows "publish_finish i c v = Inr (set_peer i ((peers v2 ! i)\<lparr>peer_scache := Some c\<rparr>) v2)"
    "server_ok v2" "grows v v2" "length (peers v2) = length (peers v)" "peers v2 ! i = peers v ! i"
    "scaches v2 = (scaches v)[c := (scaches v ! c)\<lparr>CanPublish := False, publisher := Some i\<rparr>]"
    "\<And>j. registered v j \<Longrightarrow> peers v2 ! j = peers v ! j" "SarsPeersUfragMaps v2 = SarsPeersUfragMaps v"
    "SarsPeersAddrMaps v2 = SarsPeersAddrMaps v" "SarsPeersStreamIDMaps v2 = SarsPeersStreamIDMaps v"
    "listening v2 = listening v"
proof -
  let ?s = "(scaches v ! c)\<lparr>CanPublish := False, publisher := Some i\<rparr>"
  let ?v1 = "set_scache c ?s v"
  have sc: "scache_ok v (scaches v ! c)" by (rule server_ok_scache [OF ok c])
  have s: "scache_ok v ?s" using sc i by (simp add: scache_ok_def)
  have ok1: "server_ok ?v1" and g1: "grows v ?v1" using ok c s by (intro inv_intros; simp)+
  have old: "j < length (peers ?v1)" if "publisher (scaches v ! c) = Some j" for j
    using sc that by (simp add: scache_ok_def has_class_def)
  have "?s \<in> set (scaches ?v1)" using c by (simp add: set_update_memI)
  then have own: "owned ?v1 i" unfolding owned_def by - (rule disjI2, rule bexI [of _ ?s], simp_all)
  have reg: "owned ?v1 j" if "registered v j" for j
    using registered_owned [OF ok1, of j] that by (simp add: registered_def)
  have v2: "v2 = (case publisher (scaches v ! c) of None \<Rightarrow> ?v1 | Some j \<Rightarrow> if owned ?v1 j then ?v1 else destroyed j ?v1)"
    by (simp add: v2_def republished_def Let_def)
  have length: "length (peers v2) = length (peers v)"
    unfolding v2 by (simp add: destroyed_def split: option.split)
  have peers: "peers v2 ! j = peers v ! j" if "owned ?v1 j" for j
  proof -
    have "x \<noteq> j" if "\<not> owned ?v1 x" for x using that \<open>owned ?v1 j\<close> by blast
    then show ?thesis unfolding v2 by (simp add: destroyed_def split: option.split)
  qed
  show "server_ok v2" unfolding v2 using ok1 destroyed_ok(1) [OF ok1 old] by (simp split: option.split)
  show "grows v v2" unfolding v2
    using g1 grows_trans [OF g1 destroyed_ok(2) [OF ok1 old]] by (simp split: option.split)
  show "length (peers v2) = length (peers v)" "peers v2 ! i = peers v ! i"
    "registered v j \<Longrightarrow> peers v2 ! j = peers v ! j" for j
    using length peers own reg by simp_all
  show "scaches v2 = (scaches v)[c := ?s]" "SarsPeersUfragMaps v2 = SarsPeersUfragMaps v"
    "SarsPeersAddrMaps v2 = SarsPeersAddrMaps v" "SarsPeersStreamIDMaps v2 = SarsPeersStreamIDMaps v"
    "listening v2 = listening v"
    unfolding v2 by (simp_all add: destroyed_def split: option.split)
  have "i < length (peers v2)" using i length by (simp add: has_class_def)
  then show "publish_finish i c v = Inr (set_peer i ((peers v2 ! i)\<lparr>peer_scache := Some c\<rparr>) v2)"
    using c release_peer_eq [OF ok1 old]
    by (simp add: publish_finish_def SetPublisher_def SetStreamCache_def get_scache_def get_peer_def flip: v2)
qed

lemma finish_ok:
  assumes ok: "server_ok v" and r: "request_ok v r"
  shows "\<exists>v'. finish r v = Inr v' \<and> server_ok v' \<and> grows v v'"
proof (cases r)
  case (Pending_Publish i c)
  then have i: "has_class v Publisher i" and c: "c < length (scaches v)" using r by simp_all
  note p = publish_finish_eq [OF ok i c]
  let ?v2 = "republished i c v"
  have "i < length (peers ?v2)" "c < length (scaches ?v2)" "publisher (scaches ?v2 ! c) \<noteq> None"
    using i c p(4,6) by (simp_all add: has_class_def)
  from join_stream_ok [OF p(2) this] grows_trans [OF p(3)] p(1) show ?thesis
    by (simp add: Pending_Publish finish_def)
next
  case (Pending_Play i c)
  then have i: "i < length (peers v)" "has_class v Player i" and c: "c < length (scaches v)" "\<not> CanPublish (scaches v ! c)"
    using r by (simp_all add: has_class_def)
  let ?s = "(scaches v ! c)\<lparr>players := players (scaches v ! c) @ [i]\<rparr>"
  let ?v1 = "set_scache c ?s v"
  have s: "scache_ok v ?s" "publisher ?s \<noteq> None"
    using server_ok_scache [OF ok c(1)] i(2) c(2) by (auto simp: scache_ok_def)
  have ok1: "server_ok ?v1" and g1: "grows v ?v1" using ok c s by (intro inv_intros; simp)+
  have "i < length (peers ?v1)" "c < length (scaches ?v1)" "publisher (scaches ?v1 ! c) \<noteq> None"
    using i c s(2) by simp_all
  from join_stream_ok [OF ok1 this] grows_trans [OF g1] i c show ?thesis
    by (simp add: Pending_Play finish_def play_finish_def AddPlayer_def SetStreamCache_def get_scache_def get_peer_def)
qed

section \<open>Callbacks keep the invariant\<close>

lemma request_iframe_emits:
  "request_iframe_of_publisher i h = Inr h' \<Longrightarrow> \<exists>es. h' = emit es h"
  by (auto simp: request_iframe_of_publisher_def bindR_eq_Inr_iff split: option.splits)

lemma emit_Nil [simp]: "emit [] h = h"
  by (simp add: emit_def)

lemma cache_loop_emits: "cache_loop m is ssrc pt h = Inr h' \<Longrightarrow> \<exists>es. h' = emit es h"
proof (induction m "is" ssrc pt h rule: cache_loop.induct)
  case (1 m ssrc pt h)
  then show ?case by (intro exI [of _ "[]"]) simp
next
  case (2 m i "is" ssrc pt h)
  then show ?case by (fastforce simp: emit_emit Let_def split: if_splits prod.splits)
qed

lemma timer_loop_emits: "timer_loop now is v = Inr v' \<Longrightarrow> \<exists>es. v' = emit es v"
  by (induction "is" arbitrary: v) (fastforce simp: emit_emit intro: exI [of _ "[]"])+

text \<open>What the callbacks of the core leave alone in a peer.\<close>

definition same_role :: "peer \<Rightarrow> peer \<Rightarrow> bool" where
  "same_role p q \<longleftrightarrow>
     peer_class q = peer_class p \<and> peer_scache q = peer_scache p \<and> sender_set q = sender_set p
     \<and> peer_connection q = peer_connection p \<and> ufrag q = ufrag p \<and> fp_h264 q = fp_h264 p"

lemma server_ok_callback:
  assumes ok: "server_ok v" and pc: "has_pc v i" and q: "same_role (peers v ! i) q"
  shows "server_ok (set_peer i q v)" "grows v (set_peer i q v)"
proof -
  have i: "i < length (peers v)" using pc by (simp add: has_pc_def)
  show "server_ok (set_peer i q v)"
  proof (rule server_ok_set_peer [OF ok i])
    show "peer_ok v q"
      using server_ok_peer [OF ok i] pc q by (simp add: peer_ok_def same_role_def has_pc_def)
    show "sender_set q \<and> peer_connection q \<noteq> None \<and> ufrag q = ufrag (peers v ! i)" if "registered v i"
      using that server_ok_registered [OF ok] q
      by (auto simp: registered_def reachable_peer_def same_role_def)
  qed (use q in \<open>simp add: same_role_def\<close>)
  show "grows v (set_peer i q v)" using i q by (simp add: grows_set_peer same_role_def)
qed

lemma OnRecvMediaData_no_dump: "fp_h264 p = None \<Longrightarrow> OnRecvMediaData ok m p = Inr (p, [])"
  by (simp add: OnRecvMediaData_def)

definition kept :: "server \<Rightarrow> server \<Rightarrow> bool" where
  "kept v v' \<longleftrightarrow> server_ok v' \<and> grows v v'"

lemma kept_emit: "server_ok v \<Longrightarrow> kept v (emit es v)"
  by (simp add: kept_def server_ok_emit grows_refl)

lemma kept_callback: "server_ok v \<Longrightarrow> has_pc v i \<Longrightarrow> same_role (peers v ! i) q \<Longrightarrow>
    kept v (emit es (set_peer i q v))"
  by (simp add: kept_def server_ok_emit server_ok_callback)

lemma get_peer_has_pc: "has_pc v i \<Longrightarrow> get_peer v i = Inr (peers v ! i)"
  by (simp add: get_peer_def has_pc_def)

lemma callbacks_kept:
  assumes ok: "server_ok v"
  shows "has_pc v i \<Longrightarrow> call_OnConnectionChange i st v = Inr v' \<Longrightarrow> kept v v'"
    and "has_pc v i \<Longrightarrow> call_OnIceConnectionChange i ist v = Inr v' \<Longrightarrow> kept v v'"
    and "has_pc v i \<Longrightarrow> call_OnRecvMediaData b i m v = Inr v' \<Longrightarrow> kept v v'"
    and "has_pc v i \<Longrightarrow> call_OnRequestIFrame i v = Inr v' \<Longrightarrow> kept v v'"
    and "timer_round now v = Inr v' \<Longrightarrow> kept v v'"
    and "call_OnSendDataToRemote inet_pton i data n addr v = Inr v' \<Longrightarrow> kept v v'"
proof -
  have cb: "kept v (set_peer i q v)" if "has_pc v i" "same_role (peers v ! i) q" for q
    using kept_callback [OF ok that, of "[]"] by simp
  show "kept v v'" if pc: "has_pc v i" and r: "call_OnConnectionChange i st v = Inr v'"
  proof (cases "peer_class (peers v ! i) = Player \<and> st = kConnected")
    case True
    then have "\<exists>es. v' = emit es (set_peer i ((peers v ! i)\<lparr>peerconnection_state := st\<rparr>) v)"
      using r pc by (auto simp: call_OnConnectionChange_def get_peer_has_pc Player_OnConnectionChange_def
          dest: request_iframe_emits)
    then show ?thesis using kept_callback [OF ok pc] by (auto simp: same_role_def)
  next
    case False
    then show ?thesis
      using r pc by (auto simp: call_OnConnectionChange_def get_peer_has_pc Player_OnConnectionChange_def
          OnConnectionChange_def Let_def same_role_def split: if_splits intro!: cb)
  qed
  show "kept v v'" if pc: "has_pc v i" and r: "call_OnIceConnectionChange i ist v = Inr v'"
    using r pc by (auto simp: call_OnIceConnectionChange_def get_peer_has_pc OnIceConnectionChange_def
        same_role_def split: if_splits intro!: cb)
  show "kept v v'" if pc: "has_pc v i" and r: "call_OnRecvMediaData b i m v = Inr v'"
  proof (cases "peer_class (peers v ! i) = Publisher")
    case True
    then have "\<exists>es. v' = emit es v"
      using r pc by (auto simp: call_OnRecvMediaData_def get_peer_has_pc Publisher_OnRecvMediaData_def
          CacheMedia_def split: option.splits dest: cache_loop_emits)
    then show ?thesis using kept_emit [OF ok] by auto
  next
    case False
    have "fp_h264 (peers v ! i) = None"
      using server_ok_peer [OF ok] pc by (simp add: peer_ok_def has_pc_def)
    with False have "v' = emit [] (set_peer i (peers v ! i) v)"
      using r pc by (simp add: call_OnRecvMediaData_def get_peer_has_pc OnRecvMediaData_no_dump)
    then show ?thesis using kept_callback [OF ok pc, of "peers v ! i" "[]"] by (simp add: same_role_def)
  qed
  show "kept v v'" if pc: "has_pc v i" and r: "call_OnRequestIFrame i v = Inr v'"
  proof -
    have "\<exists>es. v' = emit es v"
      using r pc by (auto simp: call_OnRequestIFrame_def get_peer_has_pc Player_OnRequestIFrame_def
          split: if_splits dest: request_iframe_emits intro: exI [of _ "[]"])
    then show ?thesis using kept_emit [OF ok] by auto
  qed
  show "kept v v'" if "timer_round now v = Inr v'"
    using that kept_emit [OF ok] by (auto simp: timer_round_def dest!: timer_loop_emits)
  show "kept v v'" if "call_OnSendDataToRemote inet_pton i data n addr v = Inr v'"
    using that kept_emit [OF ok]
    by (auto simp: call_OnSendDataToRemote_def Server_SendPktToClient_def bindR_eq_Inr_iff split: if_splits)
qed

text \<open>A request that ends in one step writes its response and touches nothing but the leaked buffers.\<close>

fun is_response :: "effect \<Rightarrow> bool" where
  "is_response (Http_Error code) = True"
| "is_response (Http_Status code) = True"
| "is_response (Http_Write len mime body) = True"
| "is_response _ = False"

lemma serve_http_emits:
  assumes "serve_http parse dump h path method_str body env file ret v = Inr (out, v')"
    and "h = DefaultHandler \<or> method_str \<noteq> ''POST''"
  shows "\<exists>es n. v' = emit es (v\<lparr>leaked := n\<rparr>) \<and> list_all is_response es"
proof -
  have same: "\<exists>n. emit es v = emit es (v\<lparr>leaked := n\<rparr>)" for es by (rule exI [of _ "leaked v"]) simp
  have "(\<exists>es. v' = emit es v \<and> list_all is_response es)
      \<or> (\<exists>es. v' = emit es (v\<lparr>leaked := leaked v + 1\<rparr>) \<and> list_all is_response es)"
    using assms
    by (simp add: serve_http_def DefaultHandler_serve_http_def serveStatic_def PublishHandler_serve_http_def
        PlayHandler_serve_http_def split: handler.splits option.splits if_splits) (force intro: exI [of _ "[]"])+
  then show ?thesis using same by blast
qed

lemma http_kept: "server_ok v \<Longrightarrow> kept v (emit es (v\<lparr>leaked := n\<rparr>))"
  by (simp add: kept_def server_ok_emit server_ok_leaked grows_refl)

lemma tracks_kept:
  assumes "server_ok v" "has_pc v i" "on_peer i f v = Inr v'" "\<And>p. same_role p (f p)"
  shows "kept v v'"
  using kept_callback [OF assms(1,2), of "f (peers v ! i)" "[]"] assms
  by (simp add: on_peer_def get_peer_has_pc)

section \<open>The invariant of reachable states\<close>

lemma step_begin_ok:
  assumes ok: "system_ok s" and step: "step_begin s req r = Inr s'"
    and r: "\<And>out v'. r = Inr (out, v') \<Longrightarrow>
      server_ok v' \<and> grows (srv s) v' \<and> (\<forall>i c. out = Inr (i, c) \<longrightarrow> request_ok v' (req i c))"
  shows "system_ok s'"
proof -
  obtain out v' where out: "r = Inr (out, v')"
    and s': "s' = s\<lparr>srv := v', pending :=
       (case out of Inl code \<Rightarrow> pending s | Inr (i, c) \<Rightarrow> pending s @ [req i c])\<rparr>"
    using step by (auto simp: step_begin_def bindR_eq_Inr_iff)
  have "\<forall>q\<in>set (pending s). request_ok v' q"
    using ok r [OF out] by (auto simp: system_ok_def intro: request_ok_grows)
  then show ?thesis
    using r [OF out] by (cases out) (auto simp: system_ok_def s')
qed

lemma exec_keeps:
  assumes ok: "system_ok s" and en: "enabled e s" and ex: "exec parse dump e s = Some (Inr s')"
  shows "system_ok s'"
proof -
  have v: "server_ok (srv s)" using ok by (simp add: system_ok_def)
  have kept: "system_ok (s\<lparr>srv := v'\<rparr>)" if "kept (srv s) v'" for v'
    using that system_ok_step [OF ok] by (simp add: kept_def)
  note callback = callbacks_kept [OF v, THEN kept]
  show ?thesis
  proof (cases e)
    case (Packet buf len addr)
    then obtain v' where v': "OnRecvClientPkt buf len addr (srv s) = Some (Inr v')" "server_ok v'"
      using OnRecvClientPkt_ok [OF v, of addr len buf] en by auto
    have "system_ok (s\<lparr>srv := v'\<rparr>)"
      by (rule system_ok_step [OF ok v'(2) OnRecvClientPkt_grows [OF v'(1)]])
    then show ?thesis using Packet ex v' by (simp add: step_srv_def)
  next
    case (Publish body env)
    then have "step_begin s Pending_Publish (publish_begin parse dump body env (srv s)) = Inr s'"
      using ex by simp
    then show ?thesis by (rule step_begin_ok [OF ok]) (rule publish_begin_ok [OF v])
  next
    case (Play body env)
    then have "step_begin s Pending_Play (play_begin parse dump body env (srv s)) = Inr s'"
      using ex by simp
    then show ?thesis by (rule step_begin_ok [OF ok]) (rule play_begin_ok [OF v])
  next
    case (Finish k)
    then have "request_ok (srv s) (pending s ! k)" using ok en by (auto simp: system_ok_def)
    from finish_ok [OF v this] obtain v' where f: "finish (pending s ! k) (srv s) = Inr v'"
      "server_ok v'" "grows (srv s) v'" by blast
    have grown: "\<forall>r\<in>set (pending s). request_ok v' r"
      using ok f(3) by (auto simp: system_ok_def intro: request_ok_grows)
    have left: "set (take k (pending s) @ drop (Suc k) (pending s)) \<subseteq> set (pending s)"
      by (auto dest: in_set_takeD in_set_dropD)
    have s': "s' = s\<lparr>srv := v', pending := take k (pending s) @ drop (Suc k) (pending s)\<rparr>"
      using Finish ex f(1) by simp
    show ?thesis using f(2) grown left unfolding s' system_ok_def by fastforce
  next
    case (Connection i st)
    then show ?thesis using en ex callback(1) by (auto simp: step_srv_def)
  next
    case (Ice_Connection i st)
    then show ?thesis using en ex callback(2) by (auto simp: step_srv_def)
  next
    case (Media b i m)
    then show ?thesis using en ex callback(3) by (auto simp: step_srv_def)
  next
    case (IFrame_Request i)
    then show ?thesis using en ex callback(4) by (auto simp: step_srv_def)
  next
    case (Send_Data inet_pton i data n addr)
    then show ?thesis using en ex callback(6) by (auto simp: step_srv_def)
  next
    case (Timer now)
    then show ?thesis using en ex callback(5) by (auto simp: step_srv_def)
  next
    case (Http h path method_str body env page ret)
    then show ?thesis using en ex kept [OF http_kept [OF v]]
      by (auto simp: step_http_def bindR_eq_Inr_iff dest!: serve_http_emits)
  qed (use en ex kept [OF tracks_kept [OF v]] in
      \<open>auto simp: step_srv_def same_role_def track_defs\<close>)
qed

lemma reachable_ok: "reachable parse dump s \<Longrightarrow> system_ok s"
proof (induction rule: reachable.induct)
  case start
  show ?case by (simp add: system_ok_def initial_def run_def server_ok_started)
qed (rule exec_keeps)

end
