(* ===== verification/Server_Runs.thy ===== *)
theory Server_Runs
  imports Server_Steps
begin

text \<open>
  Runs of the whole server: what holds in every state that it can reach, and what no later step undoes.
  The general facts about runs are proved once, in the locale \<open>step_relation\<close>, and apply to the server
  through its invariant and through the relation \<open>permanent\<close>: bindings of the three maps never change,
  the socket stays open, objects stay, and a published stream stays published.
\<close>

section \<open>Runs\<close>

definition sys_step ::
  "(string \<Rightarrow> (string \<times> string) option) \<Rightarrow> (string \<Rightarrow> string) \<Rightarrow> system \<Rightarrow> system \<Rightarrow> bool" where
  "sys_step parse dump s s' \<longleftrightarrow> (\<exists>e. enabled e s \<and> exec parse dump e s = Some (Inr s'))"

locale step_relation =
  fixes step :: "'s \<Rightarrow> 's \<Rightarrow> bool" and inv :: "'s \<Rightarrow> bool" and rel :: "'s \<Rightarrow> 's \<Rightarrow> bool"
  assumes inv_step: "inv s \<Longrightarrow> step s s' \<Longrightarrow> inv s'"
    and rel_step: "inv s \<Longrightarrow> step s s' \<Longrightarrow> rel s s'"
    and rel_refl: "rel s s"
    and rel_trans: "rel s s' \<Longrightarrow> rel s' s'' \<Longrightarrow> rel s s''"
begin

lemma inv_runs: "step\<^sup>*\<^sup>* s s' \<Longrightarrow> inv s \<Longrightarrow> inv s'"
  by (induction rule: rtranclp_induct) (auto intro: inv_step)

lemma rel_runs: "step\<^sup>*\<^sup>* s s' \<Longrightarrow> inv s \<Longrightarrow> rel s s'"
proof (induction rule: rtranclp_induct)
  case base
  show ?case by (rule rel_refl)
next
  case (step s1 s2)
  show ?case
    using rel_trans [OF step.IH [OF step.prems] rel_step [OF inv_runs [OF step.hyps(1) step.prems] step.hyps(2)]] .
qed

end

section \<open>What is permanent\<close>

definition map_extends :: "('k::linorder, 'v) std_map \<Rightarrow> ('k, 'v) std_map \<Rightarrow> bool" where
  "map_extends m m' \<longleftrightarrow> (\<forall>k v. map_find m k = Some v \<longrightarrow> map_find m' k = Some v)"

definition maps_extend :: "server \<Rightarrow> server \<Rightarrow> bool" where
  "maps_extend v v' \<longleftrightarrow>
     map_extends (SarsPeersStreamIDMaps v) (SarsPeersStreamIDMaps v')
     \<and> map_extends (SarsPeersUfragMaps v) (SarsPeersUfragMaps v')
     \<and> map_extends (SarsPeersAddrMaps v) (SarsPeersAddrMaps v') \<and> listening v' = listening v"

definition permanent :: "system \<Rightarrow> system \<Rightarrow> bool" where
  "permanent s s' \<longleftrightarrow> maps_extend (srv s) (srv s') \<and> grows (srv s) (srv s')"

definition maps_of ::
  "server \<Rightarrow> (string, nat) std_map \<times> (string, nat) std_map \<times> (string, nat) std_map \<times> bool" where
  "maps_of v = (SarsPeersStreamIDMaps v, SarsPeersUfragMaps v, SarsPeersAddrMaps v, listening v)"

lemma map_extends_refl [simp]: "map_extends m m"
  by (simp add: map_extends_def)

lemma map_extends_emplace [simp]: "map_ordered m \<Longrightarrow> map_extends m (map_emplace k v m)"
  by (simp add: map_extends_def smap.emplace_keeps)

lemma maps_extend_same: "maps_of v' = maps_of v \<Longrightarrow> maps_extend v v'"
  by (simp add: maps_of_def maps_extend_def)

lemma maps_extend_trans: "maps_extend v v' \<Longrightarrow> maps_extend v' v'' \<Longrightarrow> maps_extend v v''"
  by (simp add: maps_extend_def map_extends_def)

lemma maps_of_simps [simp]:
  "maps_of (emit es v) = maps_of v" "maps_of (set_peer i p v) = maps_of v"
  "maps_of (set_scache c s v) = maps_of v" "maps_of (v\<lparr>leaked := n\<rparr>) = maps_of v"
  by (simp_all add: maps_of_def)

section \<open>Every operation extends the maps\<close>

lemma route_extends: "server_ok v \<Longrightarrow> maps_extend v (route buf len addr v)"
  using server_ok_maps [of v] by (simp add: route_def accept_def maps_extend_def split: option.split)

lemma new_peer_maps: "new_peer cls v = (i, v') \<Longrightarrow> maps_of v' = maps_of v"
  by (auto simp: new_peer_def maps_of_def)

lemma CreateRtcPeer_extends:
  assumes "server_ok v" "i < length (peers v)" "peers v ! i = RtcPeer cls"
    and "CreateRtcPeer i sid offer True env v = Inr (ret, answer, v')"
  shows "maps_extend v v'"
  using assms(4) server_ok_maps [OF assms(1)] unfolding CreateRtcPeer_eq [OF assms(2,3)]
  by (auto simp: Let_def bindR_eq_Inr_iff offered_def maps_extend_def split: option.splits)

lemma new_session_extends:
  assumes ok: "server_ok v" and n: "new_peer cls v = (i, v1)"
    and "CreateRtcPeer i sid offer True env v1 = Inr (ret, answer, v')"
  shows "maps_extend v v'"
proof -
  note new = server_ok_new_peer [OF ok n]
  show ?thesis
    using maps_extend_trans [OF maps_extend_same [OF new_peer_maps [OF n]]
        CreateRtcPeer_extends [OF new(1,3,4) assms(3)]] .
qed

lemma CreateRtcPublisher_extends:
  "server_ok v \<Longrightarrow> CreateRtcPublisher sid offer env v = Inr (i, answer, v') \<Longrightarrow> maps_extend v v'"
  by (auto simp: CreateRtcPublisher_def bindR_eq_Inr_iff split: prod.splits dest: new_session_extends)

lemma CreateRtcPlayer_extends:
  "server_ok v \<Longrightarrow> CreateRtcPlayer sid offer env v = Inr (i, answer, v') \<Longrightarrow> maps_extend v v'"
  by (auto simp: CreateRtcPlayer_def bindR_eq_Inr_iff split: prod.splits dest: new_session_extends)

lemma GetOrCreateStreamCache_extends:
  "server_ok v \<Longrightarrow> GetOrCreateStreamCache k v = (c, v') \<Longrightarrow> maps_extend v v'"
  using server_ok_maps [of v]
  by (auto simp: GetOrCreateStreamCache_def new_scache_def maps_extend_def split: option.splits)

lemma write_answer_maps [simp]: "maps_of (write_answer dump a v) = maps_of v"
  by (simp add: write_answer_def Let_def)

lemma publish_begin_extends:
  assumes ok: "server_ok v" and b: "publish_begin parse dump body env v = Inr (out, v')"
  shows "maps_extend v v'"
proof (cases rule: publish_begin_cases [OF ok b])
  case (1 offer url sid c v1)
  then show ?thesis using GetOrCreateStreamCache_extends [OF ok 1(3)] by simp
next
  case (2 offer url sid c v1 i answer v2)
  note get = GetOrCreateStreamCache_ok [OF ok 2(3)]
  have "maps_extend v2 v'" using 2(7) by (simp add: maps_extend_same)
  then show ?thesis
    using maps_extend_trans [OF GetOrCreateStreamCache_extends [OF ok 2(3)]]
      maps_extend_trans [OF CreateRtcPublisher_extends [OF get(1) 2(5)]] by blast
qed

lemma play_begin_extends:
  assumes ok: "server_ok v" and b: "play_begin parse dump body env v = Inr (out, v')"
  shows "maps_extend v v'"
proof (cases rule: play_begin_cases [OF ok b])
  case (1 offer url sid c v1)
  then show ?thesis using GetOrCreateStreamCache_extends [OF ok 1(3)] by simp
next
  case (2 offer url sid c v1 i answer v2)
  note get = GetOrCreateStreamCache_ok [OF ok 2(3)]
  have "maps_extend v2 v'" using 2(7) by (simp add: maps_extend_same)
  then show ?thesis
    using maps_extend_trans [OF GetOrCreateStreamCache_extends [OF ok 2(3)]]
      maps_extend_trans [OF CreateRtcPlayer_extends [OF get(1) 2(5)]] by blast
qed

lemma finish_maps: "finish r v = Inr v' \<Longrightarrow> maps_of v' = maps_of v"
  by (auto simp: finish_def publish_finish_def play_finish_def SetPublisher_def AddPlayer_def SetStreamCache_def
      release_peer_def bindR_eq_Inr_iff split: request.splits option.splits if_splits)

lemma iframe_maps: "request_iframe_of_publisher i v = Inr v' \<Longrightarrow> maps_of v' = maps_of v"
  by (auto dest!: request_iframe_emits)

lemma media_maps: "CacheMedia c m v = Inr v' \<Longrightarrow> maps_of v' = maps_of v"
  by (auto simp: CacheMedia_def bindR_eq_Inr_iff dest!: cache_loop_emits)

lemma callbacks_maps:
  "call_OnConnectionChange i st v = Inr v' \<Longrightarrow> maps_of v' = maps_of v"
  "call_OnIceConnectionChange i ist v = Inr v' \<Longrightarrow> maps_of v' = maps_of v"
  "call_OnRecvMediaData b i m v = Inr v' \<Longrightarrow> maps_of v' = maps_of v"
  "call_OnRequestIFrame i v = Inr v' \<Longrightarrow> maps_of v' = maps_of v"
  "timer_round now v = Inr v' \<Longrightarrow> maps_of v' = maps_of v"
  "on_peer i f v = Inr v' \<Longrightarrow> maps_of v' = maps_of v"
  "call_OnSendDataToRemote inet_pton i data n addr v = Inr v' \<Longrightarrow> maps_of v' = maps_of v"
  by (auto simp: call_OnConnectionChange_def Player_OnConnectionChange_def call_OnIceConnectionChange_def
      call_OnRecvMediaData_def Publisher_OnRecvMediaData_def call_OnRequestIFrame_def Player_OnRequestIFrame_def
      timer_round_def on_peer_def call_OnSendDataToRemote_def Server_SendPktToClient_def bindR_eq_Inr_iff Let_def
      split: if_splits option.splits dest!: iframe_maps media_maps timer_loop_emits)

section \<open>Steps are permanent\<close>

lemma step_srv_InrD: "step_srv s r = Inr s' \<Longrightarrow> \<exists>v'. r = Inr v' \<and> srv s' = v'"
  by (auto simp: step_srv_def bindR_eq_Inr_iff)

lemma step_begin_InrD: "step_begin s req r = Inr s' \<Longrightarrow> \<exists>out v'. r = Inr (out, v') \<and> srv s' = v'"
  by (auto simp: step_begin_def bindR_eq_Inr_iff)

lemma exec_maps_extend:
  assumes ok: "system_ok s" and en: "enabled e s" and ex: "exec parse dump e s = Some (Inr s')"
  shows "maps_extend (srv s) (srv s')"
proof -
  have v: "server_ok (srv s)" using ok by (simp add: system_ok_def)
  show ?thesis
  proof (cases e)
    case (Packet buf len addr)
    then have "packet_ok buf len addr" using en by (simp add: packet_ok_def)
    from OnRecvClientPkt_route [OF v this] route_extends [OF v, of buf len addr] show ?thesis
      using Packet ex by (auto dest!: step_srv_InrD)
  next
    case (Publish body env)
    then show ?thesis using ex publish_begin_extends [OF v] by (auto dest!: step_begin_InrD)
  next
    case (Play body env)
    then show ?thesis using ex play_begin_extends [OF v] by (auto dest!: step_begin_InrD)
  next
    case (Finish k)
    then show ?thesis using ex by (auto simp: bindR_eq_Inr_iff dest!: finish_maps intro!: maps_extend_same)
  next
    case (Http h path method_str body env page ret)
    then obtain es n where "srv s' = emit es ((srv s)\<lparr>leaked := n\<rparr>)"
      using en ex by (auto simp: step_http_def bindR_eq_Inr_iff dest!: serve_http_emits)
    then show ?thesis by (simp add: maps_extend_same)
  qed (use ex in \<open>auto dest!: step_srv_InrD dest: callbacks_maps intro!: maps_extend_same\<close>)
qed

lemma exec_grows:
  assumes ok: "system_ok s" and en: "enabled e s" and ex: "exec parse dump e s = Some (Inr s')"
  shows "grows (srv s) (srv s')"
proof -
  have v: "server_ok (srv s)" using ok by (simp add: system_ok_def)
  note kept = callbacks_kept [OF v, unfolded kept_def, THEN conjunct2]
  note tracks = tracks_kept [OF v, unfolded kept_def, THEN conjunct2]
  show ?thesis
  proof (cases e)
    case (Packet buf len addr)
    then show ?thesis using ex by (auto dest!: step_srv_InrD intro: OnRecvClientPkt_grows)
  next
    case (Publish body env)
    then show ?thesis using ex publish_begin_ok [OF v] by (auto dest!: step_begin_InrD)
  next
    case (Play body env)
    then show ?thesis using ex play_begin_ok [OF v] by (auto dest!: step_begin_InrD)
  next
    case (Finish k)
    then have "request_ok (srv s) (pending s ! k)" using ok en by (auto simp: system_ok_def)
    from finish_ok [OF v this] show ?thesis using Finish ex by auto
  next
    case (Http h path method_str body env page ret)
    then obtain es n where "srv s' = emit es ((srv s)\<lparr>leaked := n\<rparr>)"
      using en ex by (auto simp: step_http_def bindR_eq_Inr_iff dest!: serve_http_emits)
    then show ?thesis by (simp add: grows_refl)
  qed (use en ex in \<open>auto dest!: step_srv_InrD intro: kept tracks
      simp: same_role_def track_defs\<close>)
qed

interpretation runs: step_relation "sys_step parse dump" system_ok permanent for parse dump
proof
  show "permanent s s" for s by (simp add: permanent_def maps_extend_same grows_refl)
  show "permanent s s' \<Longrightarrow> permanent s' s'' \<Longrightarrow> permanent s s''" for s s' s''
    unfolding permanent_def by (blast intro: maps_extend_trans grows_trans)
qed (auto simp: sys_step_def permanent_def intro: exec_keeps exec_maps_extend exec_grows)

text \<open>The states of the runs from the start are the reachable ones.\<close>

lemma reachable_iff_runs: "reachable parse dump s \<longleftrightarrow> (sys_step parse dump)\<^sup>*\<^sup>* initial s"
proof
  show "(sys_step parse dump)\<^sup>*\<^sup>* initial s" if "reachable parse dump s"
    using that by (induction rule: reachable.induct) (auto simp: sys_step_def intro: rtranclp.rtrancl_into_rtrancl)
  show "reachable parse dump s" if "(sys_step parse dump)\<^sup>*\<^sup>* initial s"
    using that by (induction rule: rtranclp_induct) (auto simp: sys_step_def intro: reachable.intros)
qed

lemma reachable_listening:
  assumes "reachable parse dump s"
  shows "listening (srv s)"
proof -
  have "permanent initial s"
    by (rule runs.rel_runs [of parse dump]) (use assms reachable_ok [OF reachable.start] in \<open>simp_all flip: reachable_iff_runs\<close>)
  then show ?thesis by (simp add: permanent_def maps_extend_def initial_def run_def)
qed

section \<open>Faults\<close>

text \<open>A media unit that the core hands over has as many bytes as it says.\<close>

definition media_valid :: "media \<Rightarrow> bool" where
  "media_valid m \<longleftrightarrow>
     (0 < media_len m \<longrightarrow> (case media_data m of None \<Rightarrow> False | Some d \<Rightarrow> nat (media_len m) \<le> length d))"

text \<open>A request whose body or stream address the handler cannot read ends in an exception or in an
  \<open>exit\<close>, and so does a request for the page when there is none; a player needs its stream and the connection of the publisher to ask for a key frame; a peer
  needs its sender and the address of an accepted packet to send.\<close>

definition request_fault :: "(string \<Rightarrow> (string \<times> string) option) \<Rightarrow> string \<Rightarrow> fault option" where
  "request_fault parse body =
     (case parse body of
        None \<Rightarrow> Some (Thrown ''json'')
      | Some (offer, url) \<Rightarrow>
          (case GetStreamIdFromStreamUrl url of Inl e \<Rightarrow> Some e | Inr sid \<Rightarrow> None))"

definition keyframe_ready :: "server \<Rightarrow> nat \<Rightarrow> bool" where
  "keyframe_ready v i \<longleftrightarrow>
     (case peer_scache (peers v ! i) of
        None \<Rightarrow> False
      | Some c \<Rightarrow> (case publisher (scaches v ! c) of
                    None \<Rightarrow> False | Some j \<Rightarrow> peer_connection (peers v ! j) \<noteq> None))"

definition send_ready :: "(string \<Rightarrow> bytes option) \<Rightarrow> peer \<Rightarrow> bool" where
  "send_ready inet_pton p \<longleftrightarrow>
     sender_set p \<and> (case remote_addr p of None \<Rightarrow> False | Some a \<Rightarrow> inet_pton (ip a) \<noteq> None)"

fun event_fault ::
  "(string \<Rightarrow> (string \<times> string) option) \<Rightarrow> event \<Rightarrow> server \<Rightarrow> fault option" where
  "event_fault parse (Publish body env) v = request_fault parse body"
| "event_fault parse (Play body env) v = request_fault parse body"
| "event_fault parse (Media ok i m) v =
     (if peer_class (peers v ! i) = Publisher \<and> peer_scache (peers v ! i) = None then Some Null_Deref else None)"
| "event_fault parse (Connection i st) v =
     (if peer_class (peers v ! i) = Player \<and> st = kConnected \<and> \<not> keyframe_ready v i then Some Null_Deref
      else None)"
| "event_fault parse (IFrame_Request i) v =
     (if peer_class (peers v ! i) = Player \<and> \<not> keyframe_ready v i then Some Null_Deref else None)"
| "event_fault parse (Send_Data inet_pton i data n addr) v =
     (if send_ready inet_pton (peers v ! i) then None else Some Uninitialised)"
| "event_fault parse (Http h path method_str body env file ret) v =
     (if h = DefaultHandler \<and> path = ''/'' \<and> file = None then Some (Exited 1) else None)"
| "event_fault parse _ v = None"

fun event_valid :: "event \<Rightarrow> bool" where
  "event_valid (Media ok i m) \<longleftrightarrow> media_valid m"
| "event_valid _ \<longleftrightarrow> True"

lemma cache_loop_total:
  assumes "media_valid m"
    and "\<forall>i\<in>set is. i < length (peers h) \<and> (peerconnection_state (peers h ! i) \<noteq> kNew \<longrightarrow> peer_connection (peers h ! i) \<noteq> None)"
  shows "\<exists>h'. cache_loop m is ssrc pt h = Inr h'"
  using assms(2)
proof (induction "is" arbitrary: ssrc pt h)
  case (Cons i "is")
  have frame: "\<exists>r. MediaFrame (media_type m) (media_data m) (media_len m) ts s p a l = Inr r" for ts s p a l
    using assms(1) by (auto simp: media_valid_def MediaFrame_def split: option.splits)
  show ?case
  proof (cases "peerconnection_state (peers h ! i) = kConnected")
    case True
    then obtain pc where pc: "peer_connection (peers h ! i) = Some pc" using Cons.prems by auto
    obtain s p where sp: "(if media_type m = kMediaVideo then (local_video_ssrc (peers h ! i), local_video_payloadtype (peers h ! i))
        else if media_type m = kMediaAudio then (local_audio_ssrc (peers h ! i), local_audio_payloadtype (peers h ! i))
        else (ssrc, pt)) = (s, p)" by (metis surj_pair)
    obtain r where r: "MediaFrame (media_type m) (media_data m) (media_len m) (timestamp m) s p (rotate_angle m)
        (audio_frame_len m) = Inr r"
      using frame by blast
    have "\<exists>h'. cache_loop m is s p (emit [FeedMediaData_Call pc r] h) = Inr h'"
      by (rule Cons.IH) (use Cons.prems in simp)
    then show ?thesis using Cons.prems True pc r by (simp add: get_peer_def sp FeedMediaData_def)
  qed (use Cons in \<open>simp add: get_peer_def\<close>)
qed simp

lemma request_iframe_outcome:
  assumes ok: "server_ok v" and i: "i < length (peers v)"
  shows "if keyframe_ready v i then \<exists>v'. request_iframe_of_publisher i v = Inr v'
    else request_iframe_of_publisher i v = Inl Null_Deref"
proof (cases "peer_scache (peers v ! i)")
  case None
  then show ?thesis using i by (simp add: keyframe_ready_def request_iframe_of_publisher_def get_peer_def)
next
  case (Some c)
  then have c: "c < length (scaches v)" using server_ok_peer [OF ok i] by (simp add: peer_ok_def)
  have "j < length (peers v)" if "publisher (scaches v ! c) = Some j" for j
    using server_ok_scache [OF ok c] that by (simp add: scache_ok_def has_class_def)
  then show ?thesis using i c Some
    by (auto simp: keyframe_ready_def request_iframe_of_publisher_def get_peer_def get_scache_def RequestIFrame_def
        split: option.splits)
qed

lemma timer_loop_total: "\<forall>i\<in>set is. i < length (peers v) \<Longrightarrow> \<exists>v'. timer_loop now is v = Inr v'"
  by (induction "is" arbitrary: v) (auto simp: get_peer_def)

lemma timer_round_total:
  assumes "server_ok v"
  shows "\<exists>v'. timer_round now v = Inr v'"
proof -
  have "i < length (peers v)" if i: "i \<in> set (map_values (SarsPeersUfragMaps v))" for i
  proof -
    obtain k where "(k, i) \<in> set (SarsPeersUfragMaps v)" using i by (auto simp: map_values_def)
    then have "map_find (SarsPeersUfragMaps v) k = Some i"
      using server_ok_maps(2) [OF assms] by (simp add: map_find_Some_iff)
    then show ?thesis using server_ok_registered [OF assms] by (simp add: reachable_peer_def)
  qed
  then show ?thesis by (auto simp: timer_round_def intro: timer_loop_total)
qed

lemma requests_outcome:
  assumes ok: "server_ok v"
  shows "case request_fault parse body of
      Some f \<Rightarrow> publish_begin parse dump body env v = Inl f \<and> play_begin parse dump body env v = Inl f
    | None \<Rightarrow> (\<exists>r. publish_begin parse dump body env v = Inr r) \<and> (\<exists>r. play_begin parse dump body env v = Inr r)"
proof (cases "request_fault parse body")
  case (Some f)
  then show ?thesis
    by (auto simp: request_fault_def publish_begin_def play_begin_def split: option.splits prod.splits sum.splits)
next
  case None
  then obtain offer url sid where p: "parse body = Some (offer, url)" "GetStreamIdFromStreamUrl url = Inr sid"
    by (auto simp: request_fault_def split: option.splits prod.splits sum.splits)
  obtain c v1 where g: "GetOrCreateStreamCache sid v = (c, v1)" by (cases "GetOrCreateStreamCache sid v")
  note get = GetOrCreateStreamCache_ok [OF ok g]
  obtain i a v2 j b v3 where m: "CreateRtcPublisher sid offer env v1 = Inr (i, a, v2)"
      "CreateRtcPlayer sid offer env v1 = Inr (j, b, v3)"
    using CreateRtcPublisher_ok [OF get(1)] CreateRtcPlayer_ok [OF get(1)] by metis
  show ?thesis
    using publish_begin_eq [where parse = parse, OF p g get(2) m(1)] play_begin_eq [where parse = parse, OF p g get(2) m(2)]
    by (simp add: None)
qed

lemma keyframe_ready_set_peer:
  "i < length (peers v) \<Longrightarrow> same_role (peers v ! i) q \<Longrightarrow> keyframe_ready (set_peer i q v) i = keyframe_ready v i"
  by (auto simp: keyframe_ready_def same_role_def nth_list_update split: option.splits)

lemma callbacks_outcome:
  assumes ok: "server_ok v" and pc: "has_pc v i"
  shows "case event_fault parse (Connection i st) v of
      Some f \<Rightarrow> call_OnConnectionChange i st v = Inl f | None \<Rightarrow> \<exists>v'. call_OnConnectionChange i st v = Inr v'"
    and "case event_fault parse (IFrame_Request i) v of
      Some f \<Rightarrow> call_OnRequestIFrame i v = Inl f | None \<Rightarrow> \<exists>v'. call_OnRequestIFrame i v = Inr v'"
    and "media_valid m \<Longrightarrow> case event_fault parse (Media b i m) v of
      Some f \<Rightarrow> call_OnRecvMediaData b i m v = Inl f | None \<Rightarrow> \<exists>v'. call_OnRecvMediaData b i m v = Inr v'"
    and "listening v \<Longrightarrow> case event_fault parse (Send_Data inet_pton i data n addr) v of
      Some f \<Rightarrow> call_OnSendDataToRemote inet_pton i data n addr v = Inl f
    | None \<Rightarrow> \<exists>v'. call_OnSendDataToRemote inet_pton i data n addr v = Inr v'"
proof -
  let ?p = "peers v ! i"
  let ?q = "?p\<lparr>peerconnection_state := st\<rparr>"
  have i: "i < length (peers v)" using pc by (simp add: has_pc_def)
  have q: "same_role ?p ?q" by (simp add: same_role_def)
  have iframe: "if keyframe_ready v i then \<exists>v'. request_iframe_of_publisher i (set_peer i ?q v) = Inr v'
      else request_iframe_of_publisher i (set_peer i ?q v) = Inl Null_Deref"
    using request_iframe_outcome [OF server_ok_callback(1) [OF ok pc q], of i] i keyframe_ready_set_peer [OF i q]
    by simp
  show "case event_fault parse (Connection i st) v of
      Some f \<Rightarrow> call_OnConnectionChange i st v = Inl f | None \<Rightarrow> \<exists>v'. call_OnConnectionChange i st v = Inr v'"
    using iframe i by (simp add: call_OnConnectionChange_def Player_OnConnectionChange_def get_peer_def Let_def
        split: if_splits) (auto split: if_splits)
  show "case event_fault parse (IFrame_Request i) v of
      Some f \<Rightarrow> call_OnRequestIFrame i v = Inl f | None \<Rightarrow> \<exists>v'. call_OnRequestIFrame i v = Inr v'"
    using request_iframe_outcome [OF ok i] i
    by (simp add: call_OnRequestIFrame_def Player_OnRequestIFrame_def get_peer_def split: if_splits)
  show "case event_fault parse (Send_Data inet_pton i data n addr) v of
      Some f \<Rightarrow> call_OnSendDataToRemote inet_pton i data n addr v = Inl f
    | None \<Rightarrow> \<exists>v'. call_OnSendDataToRemote inet_pton i data n addr v = Inr v'"
    if "listening v"
    using i that by (auto simp: call_OnSendDataToRemote_def Server_SendPktToClient_def OnSendDataToRemote_def UdpSocketSend_def SendPktToClient_def
        send_ready_def get_peer_def split: option.splits)
  show "case event_fault parse (Media b i m) v of
      Some f \<Rightarrow> call_OnRecvMediaData b i m v = Inl f | None \<Rightarrow> \<exists>v'. call_OnRecvMediaData b i m v = Inr v'"
    if m: "media_valid m"
  proof (cases "peer_class ?p = Publisher")
    case False
    have "fp_h264 ?p = None" using server_ok_peer [OF ok i] by (simp add: peer_ok_def)
    with False i show ?thesis
      by (simp add: call_OnRecvMediaData_def get_peer_def OnRecvMediaData_no_dump)
  next
    case True
    show ?thesis
    proof (cases "peer_scache ?p")
      case (Some c)
      then have c: "c < length (scaches v)" using server_ok_peer [OF ok i] by (simp add: peer_ok_def)
      have "j < length (peers v) \<and> (peerconnection_state (peers v ! j) \<noteq> kNew \<longrightarrow> peer_connection (peers v ! j) \<noteq> None)"
        if "j \<in> set (players (scaches v ! c))" for j
        using server_ok_scache [OF ok c] server_ok_peer [OF ok, of j] that
        by (simp add: scache_ok_def has_class_def peer_ok_def)
      then obtain v' where "cache_loop m (players (scaches v ! c)) 0 0 v = Inr v'"
        using cache_loop_total [OF m] by blast
      with True Some c i show ?thesis
        by (simp add: call_OnRecvMediaData_def Publisher_OnRecvMediaData_def get_peer_def get_scache_def
            CacheMedia_def)
    qed (use True i in \<open>simp add: call_OnRecvMediaData_def Publisher_OnRecvMediaData_def get_peer_def\<close>)
  qed
qed

lemma step_results [simp]:
  "step_srv s (Inl f) = Inl f" "step_srv s (Inr v) = Inr (s\<lparr>srv := v\<rparr>)" "step_begin s req (Inl f) = Inl f"
  by (simp_all add: step_srv_def step_begin_def)

lemma step_begin_total: "\<exists>s'. step_begin s req (Inr r) = Inr s'"
  by (cases r) (simp add: step_begin_def)

lemma serve_http_outcome:
  assumes "h = DefaultHandler \<or> method_str \<noteq> ''POST''"
  shows "case event_fault parse (Http h path method_str body env file ret) v of
      Some f \<Rightarrow> serve_http parse dump h path method_str body env file ret v = Inl f
    | None \<Rightarrow> \<exists>r. serve_http parse dump h path method_str body env file ret v = Inr r"
  using assms
  by (cases h) (simp_all add: serve_http_def DefaultHandler_serve_http_def serveStatic_def
      PublishHandler_serve_http_def PlayHandler_serve_http_def split: option.split)

lemma exec_outcome:
  assumes ok: "system_ok s" and open_socket: "listening (srv s)" and en: "enabled e s" and valid: "event_valid e"
  shows "case event_fault parse e (srv s) of
      Some f \<Rightarrow> exec parse dump e s = Some (Inl f) | None \<Rightarrow> \<exists>s'. exec parse dump e s = Some (Inr s')"
proof -
  have v: "server_ok (srv s)" using ok by (simp add: system_ok_def)
  show ?thesis
  proof (cases e)
    case (Packet buf len addr)
    then have "packet_ok buf len addr" using en by (simp add: packet_ok_def)
    from OnRecvClientPkt_route [OF v this] show ?thesis using Packet by simp
  next
    case (Publish body env)
    then show ?thesis using requests_outcome [OF v, where parse = parse and body = body and dump = dump and env = env] step_begin_total
      by (auto split: option.splits)
  next
    case (Play body env)
    then show ?thesis using requests_outcome [OF v, where parse = parse and body = body and dump = dump and env = env] step_begin_total
      by (auto split: option.splits)
  next
    case (Finish k)
    then have "request_ok (srv s) (pending s ! k)" using ok en by (auto simp: system_ok_def)
    from finish_ok [OF v this] show ?thesis using Finish by auto
  next
    case (Connection i st)
    then show ?thesis using callbacks_outcome(1) [OF v, where i = i and st = st and parse = parse] en
      by (auto split: option.splits if_splits)
  next
    case (Media b i m)
    then show ?thesis using callbacks_outcome(3) [OF v, where i = i and m = m and b = b and parse = parse] en valid
      by (auto split: option.splits if_splits)
  next
    case (IFrame_Request i)
    then show ?thesis using callbacks_outcome(2) [OF v, where i = i and parse = parse] en
      by (auto split: option.splits if_splits)
  next
    case (Send_Data inet_pton i data n addr)
    then show ?thesis
      using callbacks_outcome(4) [OF v, where i = i and parse = parse and inet_pton = inet_pton and data = data
          and n = n and addr = addr] en open_socket
      by (auto split: option.splits if_splits)
  next
    case (Timer now)
    then show ?thesis using timer_round_total [OF v, of now] by auto
  next
    case (Http h path method_str body env page ret)
    then show ?thesis
      using serve_http_outcome [of h method_str parse dump path body env page ret "srv s"] en
      by (auto simp: step_http_def simp del: event_fault.simps split: option.splits)
  qed (use en in \<open>simp_all add: on_peer_def get_peer_has_pc call_OnIceConnectionChange_def\<close>)
qed

section \<open>Properties\<close>

text \<open>C5: every state that the server can reach, whatever the interleaving of packets, requests, callbacks
  and timers, satisfies the invariant: the maps are ordered, every registered user name and every bound
  address leads to a peer with a connection, streams know only publishers and players of the right
  class, a stream can be published exactly while it has no publisher, and pending requests are sound.\<close>

theorem reachable_states_ok: "reachable parse dump s \<Longrightarrow> system_ok s"
  by (rule reachable_ok)

text \<open>C12: in a reachable state no event makes the server hang, and the only faults are these: a request
  whose body or stream address cannot be read, media from a publisher whose stream is not set yet, a
  key frame request by a player without a stream or whose publisher has no connection, and data that
  the core sends through a peer that is not registered or has no address yet, and a request for the page
  when it cannot be opened, which ends the server. Every other
  event, all packets included, is handled to its end. (The function \<open>dump\<close> that prints the answer as JSON
  is total: the library's would throw on an answer of the core that is not UTF-8.)\<close>

theorem only_known_faults:
  assumes "reachable parse dump s" "enabled e s" "event_valid e"
  shows "case event_fault parse e (srv s) of
      Some f \<Rightarrow> exec parse dump e s = Some (Inl f) | None \<Rightarrow> \<exists>s'. exec parse dump e s = Some (Inr s')"
  by (rule exec_outcome [OF reachable_ok [OF assms(1)] reachable_listening [OF assms(1)] assms(2,3)])

theorem only_known_faults_witness:
  "\<exists>s'. exec (\<lambda>b. None) id (Packet [0x80, 0] 2 \<lparr>sa_family = 2, sa_data = [0x1F, 0x90, 10, 0, 0, 1]\<rparr>) initial
     = Some (Inr s')"
  using only_known_faults [OF reachable.start,
      of "Packet [0x80, 0] 2 \<lparr>sa_family = 2, sa_data = [0x1F, 0x90, 10, 0, 0, 1]\<rparr>" "\<lambda>b. None" id]
  by (simp add: sockaddr_in_ok_def del: exec.simps)

section \<open>Traces\<close>

text \<open>The execution of a list of events; \<open>None\<close> also when one of them is not enabled.\<close>

fun run_events ::
  "(string \<Rightarrow> (string \<times> string) option) \<Rightarrow> (string \<Rightarrow> string) \<Rightarrow> event list \<Rightarrow> system \<Rightarrow> system res option" where
  "run_events parse dump [] s = Some (Inr s)"
| "run_events parse dump (e # es) s =
     (if \<not> enabled e s then None
      else case exec parse dump e s of
             None \<Rightarrow> None
           | Some (Inl f) \<Rightarrow> Some (Inl f)
           | Some (Inr s') \<Rightarrow> run_events parse dump es s')"

lemma run_events_step:
  "enabled e s \<Longrightarrow> exec parse dump e s = Some (Inr s') \<Longrightarrow>
     run_events parse dump (e # es) s = run_events parse dump es s'"
  by simp

lemma run_events_append:
  "run_events parse dump es s = Some (Inr s') \<Longrightarrow>
     run_events parse dump (es @ es') s = run_events parse dump es' s'"
  by (induction es arbitrary: s) (auto split: if_splits option.splits sum.splits)

lemma run_events_steps: "run_events parse dump es s = Some (Inr s') \<Longrightarrow> (sys_step parse dump)\<^sup>*\<^sup>* s s'"
proof (induction es arbitrary: s)
  case (Cons e es)
  then obtain s1 where "sys_step parse dump s s1" "run_events parse dump es s1 = Some (Inr s')"
    by (auto simp: sys_step_def split: if_splits option.splits sum.splits)
  then show ?case using Cons.IH by (meson converse_rtranclp_into_rtranclp)
qed simp

lemma run_events_system_ok:
  "run_events parse dump es s = Some (Inr s') \<Longrightarrow> system_ok s \<Longrightarrow> system_ok s'"
  by (rule runs.inv_runs [OF run_events_steps])

lemma run_events_reachable:
  "run_events parse dump es s = Some (Inr s') \<Longrightarrow> reachable parse dump s \<Longrightarrow> reachable parse dump s'"
  by (induction es arbitrary: s) (auto split: if_splits option.splits sum.splits intro: reachable.move)

end
