(* ===== verification/Sessions.thy ===== *)
theory Sessions
  imports Server_Runs
begin

text \<open>
  Sessions from request to media: what \<open>RTCServer::CreateRtcPeer\<close> leaves behind, when a publish or a play
  request is accepted, what the server does between the two parts of a request, and how the parts
  work together from a publish request to the media that a player receives.
\<close>

section \<open>Creating a peer\<close>

text \<open>The name that the peer is registered under, if the connection and both fragments exist.\<close>

definition session_key :: "string \<Rightarrow> peer_env \<Rightarrow> string option" where
  "session_key offer env =
     (case (env_pc env, getUfragFromSdp offer, getUfragFromSdp (env_answer env)) of
        (Some pc, Inr (Some u), Inr (Some lu)) \<Rightarrow> Some (lu @ '':'' @ u)
      | _ \<Rightarrow> None)"

text \<open>Whether a stream name can be published now.\<close>

definition publishable :: "server \<Rightarrow> string \<Rightarrow> bool" where
  "publishable v sid \<longleftrightarrow>
     (case map_find (SarsPeersStreamIDMaps v) sid of None \<Rightarrow> True | Some c \<Rightarrow> CanPublish (scaches v ! c))"

section \<open>An example\<close>

text \<open>A body names the stream address; the offer and the answer are as short as they can be.\<close>

definition demo_offer :: string where
  "demo_offer = ''ice-ufrag:r'' @ crlf"

definition demo_parse :: "string \<Rightarrow> (string \<times> string) option" where
  "demo_parse body = Some (demo_offer, body)"

definition demo_env :: "nat option \<Rightarrow> peer_env" where
  "demo_env pc =
     \<lparr>env_pc = pc, env_rand_video = 11, env_rand_audio = 12, env_answer = ''ice-ufrag:l'' @ crlf\<rparr>"

definition demo_media :: media where
  "demo_media = \<lparr>media_type = kMediaVideo, media_data = Some [1], media_len = 1, timestamp = 0, media_ssrc = 0,
     media_payload_type = 0, rotate_angle = 0, audio_frame_len = 0\<rparr>"

lemma demo_parse_eq: "demo_parse ''s/cam'' = Some (demo_offer, ''s/cam'')"
  by (simp add: demo_parse_def)

lemma demo_url: "GetStreamIdFromStreamUrl ''s/cam'' = Inr ''cam''"
  by (simp add: GetStreamIdFromStreamUrl_def str_find_def npos_def size_sub_def str_find_last_of_def str_substr_def
      size_to_int32_def int32_to_size_def Let_def)

lemma demo_ufrag: "getUfragFromSdp (''ice-ufrag:'' @ [x] @ crlf) = Inr (Some [x])" if "x \<noteq> CHR 0x0D"
  using that by (simp add: getUfragFromSdp_def str_find_def npos_def size_sub_def str_substr_def crlf_def Let_def)

lemma demo_session: "session_key demo_offer (demo_env (Some 5)) = Some ''l:r''"
  using demo_ufrag [of "CHR ''r''"] demo_ufrag [of "CHR ''l''"]
  by (simp add: session_key_def demo_env_def demo_offer_def)

lemma demo_initial:
  "publishable (srv initial) ''cam''" "map_find (SarsPeersStreamIDMaps (srv initial)) ''cam'' = None"
  "pending initial = []" "peers (srv initial) = []" "map_find (SarsPeersUfragMaps (srv initial)) k = None"
  by (simp_all add: publishable_def initial_def run_def RTCServer_def)

section \<open>The state after the creation of a peer\<close>

lemma CreateRtcPeer_effect:
  assumes i: "i < length (peers v)" "peers v ! i = RtcPeer cls"
  shows "\<exists>ret answer v'. CreateRtcPeer i sid offer True env v = Inr (ret, answer, v')
    \<and> peers v' = (peers v)[i := peers v' ! i] \<and> scaches v' = scaches v
    \<and> peer_connection (peers v' ! i) = env_pc env \<and> peer_scache (peers v' ! i) = None
    \<and> peer_class (peers v' ! i) = cls \<and> peerconnection_state (peers v' ! i) = kNew
    \<and> (case session_key offer env of
         None \<Rightarrow> ret = -1 \<and> maps_of v' = maps_of v
       | Some k \<Rightarrow> ret = 0 \<and> ufrag (peers v' ! i) = k \<and> sender_set (peers v' ! i)
           \<and> maps_of v' = maps_of (v\<lparr>SarsPeersUfragMaps := map_emplace k i (SarsPeersUfragMaps v)\<rparr>))"
proof (cases "env_pc env")
  case None
  have "(peers v)[i := RtcPeer cls] = peers v" using i(2) list_update_id [of "peers v" i] by simp
  with None i show ?thesis
    by (simp add: CreateRtcPeer_eq [OF i] session_key_def) (simp add: RtcPeer_def)
next
  case (Some pc)
  obtain r1 r2 where r: "getUfragFromSdp offer = Inr r1" "getUfragFromSdp (env_answer env) = Inr r2"
    using getUfragFromSdp_defined by metis
  show ?thesis
  proof (cases "r1 = None \<or> r2 = None")
    case True
    then have "session_key offer env = None"
      using r by (auto simp: session_key_def split: option.split)
    moreover have "CreateRtcPeer i sid offer True env v = Inr (-1, env_answer env, offered i pc sid offer env cls v)"
      using True Some r by (auto simp: CreateRtcPeer_eq [OF i] Let_def split: option.split)
    ultimately show ?thesis using i Some by (simp add: offered_def) (simp add: RtcPeer_def)
  next
    case False
    then obtain u lu where u: "r1 = Some u" "r2 = Some lu" by auto
    let ?v1 = "offered i pc sid offer env cls v"
    let ?p = "(peers ?v1 ! i)\<lparr>sender_set := True, ufrag := lu @ '':'' @ u\<rparr>"
    have "session_key offer env = Some (lu @ '':'' @ u)" using Some r u by (simp add: session_key_def)
    moreover have "CreateRtcPeer i sid offer True env v = Inr (0, env_answer env,
        (set_peer i ?p ?v1)\<lparr>SarsPeersUfragMaps := map_emplace (lu @ '':'' @ u) i (SarsPeersUfragMaps v)\<rparr>)"
      using Some r u by (simp add: CreateRtcPeer_eq [OF i] Let_def) (simp add: offered_def)
    ultimately show ?thesis using i Some
      by (simp add: offered_def maps_of_def) (simp add: RtcPeer_def)
  qed
qed

text \<open>C17: \<open>CreateRtcPeer\<close> gives the peer its connection and touches no other peer; it returns 0 and registers
  the peer under both user fragments, unless that name is taken, exactly when the core made a
  connection and both session descriptions name a fragment; otherwise it returns -1 and registers
  nothing.\<close>

theorem CreateRtcPeer_registers:
  assumes "i < length (peers v)" "peers v ! i = RtcPeer cls"
  shows "\<exists>ret answer v'. CreateRtcPeer i sid offer True env v = Inr (ret, answer, v')
    \<and> peers v' = (peers v)[i := peers v' ! i] \<and> peer_connection (peers v' ! i) = env_pc env
    \<and> (case session_key offer env of
         None \<Rightarrow> ret = -1 \<and> SarsPeersUfragMaps v' = SarsPeersUfragMaps v
       | Some k \<Rightarrow> ret = 0 \<and> ufrag (peers v' ! i) = k
           \<and> SarsPeersUfragMaps v' = map_emplace k i (SarsPeersUfragMaps v))"
  using CreateRtcPeer_effect [OF assms, of sid offer env] by (fastforce simp: maps_of_def split: option.splits)

theorem CreateRtcPeer_registers_witness:
  "\<exists>answer v'. CreateRtcPeer 0 ''cam'' demo_offer True (demo_env (Some 5))
       ((srv initial)\<lparr>peers := [RtcPeer Publisher]\<rparr>) = Inr (0, answer, v')
     \<and> SarsPeersUfragMaps v' = [(''l:r'', 0)]"
  using CreateRtcPeer_registers [of 0 "(srv initial)\<lparr>peers := [RtcPeer Publisher]\<rparr>" Publisher "''cam''"
      demo_offer "demo_env (Some 5)"]
  by (auto simp: demo_session) (simp add: initial_def run_def RTCServer_def)

section \<open>Accepted requests\<close>

lemma GetOrCreateStreamCache_outcome:
  assumes ok: "server_ok v" and get: "GetOrCreateStreamCache sid v = (c, v1)"
  shows "CanPublish (scaches v1 ! c) = publishable v sid" "map_find (SarsPeersStreamIDMaps v1) sid = Some c"
    "peers v1 = peers v" "SarsPeersUfragMaps v1 = SarsPeersUfragMaps v" "SarsPeersAddrMaps v1 = SarsPeersAddrMaps v"
    "publishable v1 = publishable v"
proof -
  note m = server_ok_maps(3) [OF ok]
  have "CanPublish (scaches v1 ! c) = publishable v sid \<and> map_find (SarsPeersStreamIDMaps v1) sid = Some c
    \<and> peers v1 = peers v \<and> SarsPeersUfragMaps v1 = SarsPeersUfragMaps v \<and> SarsPeersAddrMaps v1 = SarsPeersAddrMaps v"
    using get smap.emplace_new [OF m]
    by (auto simp: GetOrCreateStreamCache_def new_scache_def publishable_def StreamCache_def nth_append
        split: option.splits)
  then show "CanPublish (scaches v1 ! c) = publishable v sid" "map_find (SarsPeersStreamIDMaps v1) sid = Some c"
    "peers v1 = peers v" "SarsPeersUfragMaps v1 = SarsPeersUfragMaps v" "SarsPeersAddrMaps v1 = SarsPeersAddrMaps v"
    by blast+
  have old: "map_find (SarsPeersStreamIDMaps v) k = Some d \<Longrightarrow> d < length (scaches v)" for k d
    using ok by (simp add: server_ok_def maps_ok_def)
  show "publishable v1 = publishable v"
  proof (cases "map_find (SarsPeersStreamIDMaps v) sid")
    case (Some d)
    then show ?thesis using get by (simp add: GetOrCreateStreamCache_def)
  next
    case None
    then have v1: "v1 = v\<lparr>scaches := scaches v @ [StreamCache],
        SarsPeersStreamIDMaps := map_emplace sid (length (scaches v)) (SarsPeersStreamIDMaps v)\<rparr>"
      using get by (auto simp: GetOrCreateStreamCache_def new_scache_def)
    have "publishable v1 k = publishable v k" for k
      using None old [of k] smap.find_emplace [OF m, of sid "length (scaches v)" k]
      by (auto simp: publishable_def v1 StreamCache_def nth_append split: option.split)
    then show ?thesis by (simp add: fun_eq_iff)
  qed
qed

text \<open>What a new session adds to the state: its name, if it has one, a last peer, and nothing to the
  streams.\<close>

definition with_session :: "string option \<Rightarrow> nat \<Rightarrow> (string, nat) std_map \<Rightarrow> (string, nat) std_map" where
  "with_session key i m = (case key of None \<Rightarrow> m | Some k \<Rightarrow> map_emplace k i m)"

definition adds_peer :: "server \<Rightarrow> peer_class \<Rightarrow> peer_env \<Rightarrow> server \<Rightarrow> bool" where
  "adds_peer v cls env v' \<longleftrightarrow>
     (\<exists>p. peers v' = peers v @ [p] \<and> peer_class p = cls \<and> peer_connection p = env_pc env
        \<and> peer_scache p = None \<and> peerconnection_state p = kNew)"

lemma new_session_effect:
  assumes ok: "server_ok v" and n: "new_peer cls v = (i, v1)"
  shows "\<exists>ret answer v'. CreateRtcPeer i sid offer True env v1 = Inr (ret, answer, v') \<and> i = length (peers v)
    \<and> adds_peer v cls env v' \<and> scaches v' = scaches v \<and> SarsPeersStreamIDMaps v' = SarsPeersStreamIDMaps v
    \<and> SarsPeersUfragMaps v' = with_session (session_key offer env) i (SarsPeersUfragMaps v)"
proof -
  have i: "i = length (peers v)" and v1: "peers v1 = peers v @ [RtcPeer cls]" "scaches v1 = scaches v"
    "SarsPeersStreamIDMaps v1 = SarsPeersStreamIDMaps v" "SarsPeersUfragMaps v1 = SarsPeersUfragMaps v"
    using n by (auto simp: new_peer_def)
  have new: "i < length (peers v1)" "peers v1 ! i = RtcPeer cls" by (simp_all add: i v1)
  obtain ret answer v' where r: "CreateRtcPeer i sid offer True env v1 = Inr (ret, answer, v')"
    "peers v' = (peers v1)[i := peers v' ! i]" "scaches v' = scaches v1"
    "peer_connection (peers v' ! i) = env_pc env" "peer_scache (peers v' ! i) = None"
    "peer_class (peers v' ! i) = cls" "peerconnection_state (peers v' ! i) = kNew"
    and m: "SarsPeersStreamIDMaps v' = SarsPeersStreamIDMaps v1"
      "SarsPeersUfragMaps v' = with_session (session_key offer env) i (SarsPeersUfragMaps v1)"
    using CreateRtcPeer_effect [OF new, of sid offer env]
    by (fastforce simp: maps_of_def with_session_def split: option.splits)
  have "peers v' = peers v @ [peers v' ! i]" using r(2) by (simp add: v1 i)
  with r have "adds_peer v cls env v'" unfolding adds_peer_def by blast
  with r(1,3) m show ?thesis by (simp add: i v1)
qed

lemma adds_peer_last:
  assumes "adds_peer v cls env v'"
  shows "length (peers v') = Suc (length (peers v))" "peer_class (peers v' ! length (peers v)) = cls"
    "peer_connection (peers v' ! length (peers v)) = env_pc env" "peer_scache (peers v' ! length (peers v)) = None"
    "i < length (peers v) \<Longrightarrow> peers v' ! i = peers v ! i"
  using assms by (auto simp: adds_peer_def nth_append)

lemma write_answer_peers [simp]: "peers (write_answer dump a v) = peers v"
  by (simp add: write_answer_def Let_def)

lemma adds_peer_cong: "peers v = peers w \<Longrightarrow> peers v' = peers w' \<Longrightarrow> adds_peer v cls env v' = adds_peer w cls env w'"
  by (simp add: adds_peer_def)

lemma publishable_cong:
  "scaches v' = scaches v \<Longrightarrow> SarsPeersStreamIDMaps v' = SarsPeersStreamIDMaps v \<Longrightarrow> publishable v' = publishable v"
  by (auto simp: fun_eq_iff publishable_def split: option.split)

lemma publish_accepted:
  assumes ok: "server_ok v" and p: "parse body = Some (offer, url)" "GetStreamIdFromStreamUrl url = Inr sid"
    and pub: "publishable v sid"
  shows "\<exists>c v'. publish_begin parse dump body env v = Inr (Inr (length (peers v), c), v')
    \<and> adds_peer v Publisher env v' \<and> map_find (SarsPeersStreamIDMaps v') sid = Some c
    \<and> publishable v' = publishable v
    \<and> SarsPeersUfragMaps v' = with_session (session_key offer env) (length (peers v)) (SarsPeersUfragMaps v)
    \<and> (map_find (SarsPeersStreamIDMaps v) sid = None \<longrightarrow> scaches v' ! c = StreamCache)"
proof -
  obtain c v1 where g: "GetOrCreateStreamCache sid v = (c, v1)" by (cases "GetOrCreateStreamCache sid v")
  note get = GetOrCreateStreamCache_ok [OF ok g]
  note out = GetOrCreateStreamCache_outcome [OF ok g]
  obtain i v0 where n: "new_peer Publisher v1 = (i, v0)" by (cases "new_peer Publisher v1")
  obtain ret answer v2 where s: "CreateRtcPeer i sid offer True env v0 = Inr (ret, answer, v2)"
      "i = length (peers v1)" "adds_peer v1 Publisher env v2" "scaches v2 = scaches v1"
      "SarsPeersStreamIDMaps v2 = SarsPeersStreamIDMaps v1"
      "SarsPeersUfragMaps v2 = with_session (session_key offer env) i (SarsPeersUfragMaps v1)"
    using new_session_effect [OF get(1) n] by blast
  have m: "CreateRtcPublisher sid offer env v1 = Inr (length (peers v), answer, v2)"
    using n s(1,2) out(3) by (simp add: CreateRtcPublisher_def)
  let ?v = "write_answer dump answer v2"
  have "publish_begin parse dump body env v = Inr (Inr (length (peers v), c), ?v)"
    using publish_begin_eq [where parse = parse, OF p g get(2) m] pub out(1) by simp
  moreover have "adds_peer v Publisher env ?v" using s(3) adds_peer_cong [of v v1 ?v v2] out(3) by simp
  moreover have "SarsPeersStreamIDMaps ?v = SarsPeersStreamIDMaps v2" "SarsPeersUfragMaps ?v = SarsPeersUfragMaps v2"
    by (simp_all add: write_answer_def Let_def)
  moreover have "scaches v1 ! c = StreamCache" if "map_find (SarsPeersStreamIDMaps v) sid = None"
    using g that by (auto simp: GetOrCreateStreamCache_def new_scache_def)
  ultimately show ?thesis using s(2,4-6) out(2-4,6) publishable_cong [of ?v v1] by auto
qed

lemma play_accepted:
  assumes ok: "server_ok v" and p: "parse body = Some (offer, url)" "GetStreamIdFromStreamUrl url = Inr sid"
    and pub: "\<not> publishable v sid"
  shows "\<exists>c v'. play_begin parse dump body env v = Inr (Inr (length (peers v), c), v')
    \<and> adds_peer v Player env v' \<and> map_find (SarsPeersStreamIDMaps v') sid = Some c
    \<and> map_find (SarsPeersStreamIDMaps v) sid = Some c \<and> scaches v' = scaches v"
proof -
  obtain c v1 where g: "GetOrCreateStreamCache sid v = (c, v1)" by (cases "GetOrCreateStreamCache sid v")
  note get = GetOrCreateStreamCache_ok [OF ok g]
  note out = GetOrCreateStreamCache_outcome [OF ok g]
  obtain i v0 where n: "new_peer Player v1 = (i, v0)" by (cases "new_peer Player v1")
  obtain ret answer v2 where s: "CreateRtcPeer i sid offer True env v0 = Inr (ret, answer, v2)"
      "i = length (peers v1)" "adds_peer v1 Player env v2" "scaches v2 = scaches v1"
      "SarsPeersStreamIDMaps v2 = SarsPeersStreamIDMaps v1"
    using new_session_effect [OF get(1) n] by blast
  have m: "CreateRtcPlayer sid offer env v1 = Inr (length (peers v), answer, v2)"
    using n s(1,2) out(3) by (simp add: CreateRtcPlayer_def)
  let ?v = "write_answer dump answer v2"
  have "play_begin parse dump body env v = Inr (Inr (length (peers v), c), ?v)"
    using play_begin_eq [where parse = parse, OF p g get(2) m] pub out(1) by simp
  moreover have "adds_peer v Player env ?v" using s(3) adds_peer_cong [of v v1 ?v v2] out(3) by simp
  moreover have "SarsPeersStreamIDMaps ?v = SarsPeersStreamIDMaps v2" by (simp add: write_answer_def Let_def)
  moreover have "v1 = v" "map_find (SarsPeersStreamIDMaps v) sid = Some c"
    using g pub by (auto simp: GetOrCreateStreamCache_def publishable_def split: option.splits)
  ultimately show ?thesis using s(4,5) out(2) by auto
qed

section \<open>Requests as steps\<close>

lemma finish_play_eq:
  "i < length (peers v) \<Longrightarrow> c < length (scaches v) \<Longrightarrow> finish (Pending_Play i c) v =
     Inr (set_peer i ((peers v ! i)\<lparr>peer_scache := Some c\<rparr>)
       (set_scache c ((scaches v ! c)\<lparr>players := players (scaches v ! c) @ [i]\<rparr>) v))"
  by (simp add: finish_def play_finish_def AddPlayer_def SetStreamCache_def get_scache_def get_peer_def)

lemma stream_index: "server_ok v \<Longrightarrow> map_find (SarsPeersStreamIDMaps v) sid = Some c \<Longrightarrow> c < length (scaches v)"
  by (simp add: server_ok_def maps_ok_def)

text \<open>A publish request from its beginning to its end, with nothing in between.\<close>

lemma exec_Publish:
  assumes ok: "system_ok s" and p: "parse body = Some (offer, url)" "GetStreamIdFromStreamUrl url = Inr sid"
    and pub: "publishable (srv s) sid"
  obtains c v where "exec parse dump (Publish body env) s =
      Some (Inr (s\<lparr>srv := v, pending := pending s @ [Pending_Publish (length (peers (srv s))) c]\<rparr>))"
    "server_ok v" "adds_peer (srv s) Publisher env v" "map_find (SarsPeersStreamIDMaps v) sid = Some c"
    "publishable v = publishable (srv s)"
    "map_find (SarsPeersStreamIDMaps (srv s)) sid = None \<longrightarrow> scaches v ! c = StreamCache"
    "SarsPeersUfragMaps v = with_session (session_key offer env) (length (peers (srv s))) (SarsPeersUfragMaps (srv s))"
proof -
  have v: "server_ok (srv s)" using ok by (simp add: system_ok_def)
  obtain c v' where b: "publish_begin parse dump body env (srv s) = Inr (Inr (length (peers (srv s)), c), v')"
    "adds_peer (srv s) Publisher env v'" "map_find (SarsPeersStreamIDMaps v') sid = Some c"
    "publishable v' = publishable (srv s)"
    "map_find (SarsPeersStreamIDMaps (srv s)) sid = None \<longrightarrow> scaches v' ! c = StreamCache"
    "SarsPeersUfragMaps v' = with_session (session_key offer env) (length (peers (srv s))) (SarsPeersUfragMaps (srv s))"
    using publish_accepted [OF v, where parse = parse, OF p pub] by blast
  show thesis
    using that [of c v'] b publish_begin_ok [OF v b(1)] by (simp add: step_begin_def)
qed

lemma exec_Play:
  assumes ok: "system_ok s" and p: "parse body = Some (offer, url)" "GetStreamIdFromStreamUrl url = Inr sid"
    and pub: "\<not> publishable (srv s) sid"
  obtains c v where "exec parse dump (Play body env) s =
      Some (Inr (s\<lparr>srv := v, pending := pending s @ [Pending_Play (length (peers (srv s))) c]\<rparr>))"
    "server_ok v" "adds_peer (srv s) Player env v" "map_find (SarsPeersStreamIDMaps (srv s)) sid = Some c"
    "map_find (SarsPeersStreamIDMaps v) sid = Some c" "scaches v = scaches (srv s)"
proof -
  have v: "server_ok (srv s)" using ok by (simp add: system_ok_def)
  obtain c v' where b: "play_begin parse dump body env (srv s) = Inr (Inr (length (peers (srv s)), c), v')"
    "adds_peer (srv s) Player env v'" "map_find (SarsPeersStreamIDMaps v') sid = Some c"
    "map_find (SarsPeersStreamIDMaps (srv s)) sid = Some c" "scaches v' = scaches (srv s)"
    using play_accepted [OF v, where parse = parse, OF p pub] by blast
  show thesis
    using that [of c v'] b play_begin_ok [OF v b(1)] by (simp add: step_begin_def)
qed

text \<open>The end of the request that began last.\<close>

lemma exec_Finish_last:
  assumes "pending s = rs @ [r]" "finish r (srv s) = Inr v"
  shows "exec parse dump (Finish (length rs)) s = Some (Inr (s\<lparr>srv := v, pending := rs\<rparr>))"
    "enabled (Finish (length rs)) s"
  using assms by (simp_all add: nth_append)

definition published :: "server \<Rightarrow> nat \<Rightarrow> nat \<Rightarrow> bool" where
  "published v c i \<longleftrightarrow>
     i < length (peers v) \<and> c < length (scaches v) \<and> \<not> CanPublish (scaches v ! c)
     \<and> publisher (scaches v ! c) = Some i \<and> peer_scache (peers v ! i) = Some c"

lemma finish_publish_published:
  assumes "server_ok v" "has_class v Publisher i" "c < length (scaches v)"
  obtains v' where "finish (Pending_Publish i c) v = Inr v'" "published v' c i" "maps_of v' = maps_of v"
    "length (peers v') = length (peers v)" "peers v' ! i = (peers v ! i)\<lparr>peer_scache := Some c\<rparr>"
    "\<And>j. j \<noteq> i \<Longrightarrow> registered v j \<Longrightarrow> peers v' ! j = peers v ! j" "players (scaches v' ! c) = players (scaches v ! c)"
proof -
  note p = publish_finish_eq [OF assms]
  show thesis
    by (rule that [of "set_peer i ((peers (republished i c v) ! i)\<lparr>peer_scache := Some c\<rparr>) (republished i c v)"])
      (use p assms(2,3) in \<open>simp_all add: finish_def published_def maps_of_def has_class_def\<close>)
qed

lemma not_publishable:
  "published v c i \<Longrightarrow> map_find (SarsPeersStreamIDMaps v) sid = Some c \<Longrightarrow> \<not> publishable v sid"
  by (simp add: published_def publishable_def)

text \<open>Whole requests.\<close>

lemma whole_publish:
  assumes ok: "system_ok s" and p: "parse body = Some (offer, url)" "GetStreamIdFromStreamUrl url = Inr sid"
    and pub: "publishable (srv s) sid"
  defines "i \<equiv> length (peers (srv s))"
  obtains c v where
    "run_events parse dump [Publish body env, Finish (length (pending s))] s = Some (Inr (s\<lparr>srv := v\<rparr>))"
    "map_find (SarsPeersStreamIDMaps v) sid = Some c" "published v c i" "length (peers v) = Suc i"
    "peer_connection (peers v ! i) = env_pc env" "peer_class (peers v ! i) = Publisher"
    "map_find (SarsPeersStreamIDMaps (srv s)) sid = None \<longrightarrow> players (scaches v ! c) = []"
proof -
  from exec_Publish [where parse = parse and dump = dump and body = body and env = env, OF ok p pub]
  obtain c v1 where b: "exec parse dump (Publish body env) s =
      Some (Inr (s\<lparr>srv := v1, pending := pending s @ [Pending_Publish (length (peers (srv s))) c]\<rparr>))"
    "server_ok v1" "adds_peer (srv s) Publisher env v1" "map_find (SarsPeersStreamIDMaps v1) sid = Some c"
    "map_find (SarsPeersStreamIDMaps (srv s)) sid = None \<longrightarrow> scaches v1 ! c = StreamCache"
    by metis
  note p1 = adds_peer_last [OF b(3), folded i_def]
  obtain v where f: "finish (Pending_Publish i c) v1 = Inr v" "published v c i" "maps_of v = maps_of v1"
    "length (peers v) = length (peers v1)" "peers v ! i = (peers v1 ! i)\<lparr>peer_scache := Some c\<rparr>"
    "players (scaches v ! c) = players (scaches v1 ! c)"
    by (rule finish_publish_published [of v1 i c]) (use b(2) p1(1,2) stream_index [OF b(2,4)] in \<open>simp_all add: has_class_def\<close>)
  show thesis
    by (rule that [of v c]) (use b f p1 i_def in \<open>simp_all add: nth_append maps_of_def StreamCache_def\<close>)
qed

lemma whole_play:
  assumes ok: "system_ok s" and p: "parse body = Some (offer, url)" "GetStreamIdFromStreamUrl url = Inr sid"
    and c: "map_find (SarsPeersStreamIDMaps (srv s)) sid = Some c" and pub: "published (srv s) c i"
  defines "j \<equiv> length (peers (srv s))"
  obtains v where
    "run_events parse dump [Play body env, Finish (length (pending s))] s = Some (Inr (s\<lparr>srv := v\<rparr>))"
    "length (peers v) = Suc j" "peer_connection (peers v ! j) = env_pc env" "peer_class (peers v ! j) = Player"
    "peer_scache (peers v ! j) = Some c" "\<And>k. k < j \<Longrightarrow> peers v ! k = peers (srv s) ! k"
    "scaches v = (scaches (srv s))[c := (scaches (srv s) ! c)\<lparr>players := players (scaches (srv s) ! c) @ [j]\<rparr>]"
proof -
  have "\<not> publishable (srv s) sid" by (rule not_publishable [OF pub c])
  from exec_Play [where parse = parse and dump = dump and body = body and env = env, OF ok p this]
  obtain d v1 where b: "exec parse dump (Play body env) s =
      Some (Inr (s\<lparr>srv := v1, pending := pending s @ [Pending_Play (length (peers (srv s))) d]\<rparr>))"
    "adds_peer (srv s) Player env v1" "map_find (SarsPeersStreamIDMaps (srv s)) sid = Some d"
    "scaches v1 = scaches (srv s)"
    by metis
  have d: "d = c" using b(3) c by simp
  note p1 = adds_peer_last [OF b(2), folded j_def]
  have len: "j < length (peers v1)" "c < length (scaches v1)"
    using p1(1) b(4) pub by (simp_all add: published_def)
  let ?v = "set_peer j ((peers v1 ! j)\<lparr>peer_scache := Some c\<rparr>)
      (set_scache c ((scaches v1 ! c)\<lparr>players := players (scaches v1 ! c) @ [j]\<rparr>) v1)"
  show thesis
    by (rule that [of ?v]) (use b(1,4) d finish_play_eq [OF len] p1 len j_def in \<open>simp_all add: nth_append\<close>)
qed

section \<open>Between the two parts of a request\<close>

text \<open>C23: the response to a publish request is written before the publisher is given its stream: media
  that the core delivers in between is a null pointer dereference, in every state in which the request
  is accepted and gets a connection.\<close>

theorem media_before_publish_ends:
  assumes "reachable parse dump s" "parse body = Some (offer, url)" "GetStreamIdFromStreamUrl url = Inr sid"
    and "publishable (srv s) sid" "env_pc env = Some pc"
  shows "\<exists>s'. exec parse dump (Publish body env) s = Some (Inr s')
    \<and> enabled (Media ok (length (peers (srv s))) m) s'
    \<and> exec parse dump (Media ok (length (peers (srv s))) m) s' = Some (Inl Null_Deref)"
proof -
  obtain c v where b: "exec parse dump (Publish body env) s =
      Some (Inr (s\<lparr>srv := v, pending := pending s @ [Pending_Publish (length (peers (srv s))) c]\<rparr>))"
    "adds_peer (srv s) Publisher env v"
    using exec_Publish [where parse = parse and body = body, OF reachable_ok [OF assms(1)] assms(2-4)] by metis
  show ?thesis
    using b(1) adds_peer_last [OF b(2)] assms(5)
    by (simp add: has_pc_def call_OnRecvMediaData_def Publisher_OnRecvMediaData_def get_peer_def)
qed

theorem media_before_publish_ends_witness:
  "\<exists>s'. exec demo_parse id (Publish ''s/cam'' (demo_env (Some 5))) initial = Some (Inr s')
     \<and> enabled (Media Written 0 demo_media) s' \<and> exec demo_parse id (Media Written 0 demo_media) s' = Some (Inl Null_Deref)"
  using media_before_publish_ends [where parse = demo_parse and dump = id and body = "''s/cam''",
      OF reachable.start demo_parse_eq demo_url demo_initial(1), of "demo_env (Some 5)" 5 Written demo_media]
  by (simp add: demo_initial demo_env_def del: exec.simps enabled.simps)

text \<open>C21: the check that a stream is free and the entry of the publisher are separated by the write of the
  response: two publish requests for one free stream that begin before either ends are both accepted.
  When the first one had got a connection and a user name of its own, its publisher survives, and both
  publishers then feed the stream, of which only the second is the publisher.\<close>

theorem publish_race:
  assumes "reachable parse dump s" "parse body = Some (offer, url)" "GetStreamIdFromStreamUrl url = Inr sid"
    and "parse body' = Some (offer', url')" "GetStreamIdFromStreamUrl url' = Inr sid"
    and "publishable (srv s) sid" "n = length (pending s)" "i = length (peers (srv s))"
    and "session_key offer env = Some k" "map_find (SarsPeersUfragMaps (srv s)) k = None"
  shows "\<exists>s' c. run_events parse dump [Publish body env, Publish body' env', Finish n, Finish n] s = Some (Inr s')
    \<and> map_find (SarsPeersStreamIDMaps (srv s')) sid = Some c \<and> published (srv s') c (Suc i)
    \<and> registered (srv s') i \<and> peer_scache (peers (srv s') ! i) = Some c"
proof -
  note ok = reachable_ok [OF assms(1)]
  obtain c v1 where b1: "exec parse dump (Publish body env) s =
      Some (Inr (s\<lparr>srv := v1, pending := pending s @ [Pending_Publish i c]\<rparr>))"
    "server_ok v1" "adds_peer (srv s) Publisher env v1" "map_find (SarsPeersStreamIDMaps v1) sid = Some c"
    "publishable v1 = publishable (srv s)"
    "SarsPeersUfragMaps v1 = with_session (session_key offer env) i (SarsPeersUfragMaps (srv s))"
    using exec_Publish [where parse = parse and body = body, OF ok assms(2,3,6)] assms(8) by metis
  let ?s1 = "s\<lparr>srv := v1, pending := pending s @ [Pending_Publish i c]\<rparr>"
  have ok1: "system_ok ?s1" using exec_keeps [OF ok _ b1(1)] by simp
  have len1: "length (peers v1) = Suc i" using adds_peer_last(1) [OF b1(3)] assms(8) by simp
  have "publishable (srv ?s1) sid" using assms(6) b1(5) by simp
  from exec_Publish [where parse = parse and dump = dump and body = body' and env = env', OF ok1 assms(4,5) this]
  obtain c' v2 where b2: "exec parse dump (Publish body' env') ?s1 =
      Some (Inr (?s1\<lparr>srv := v2, pending := pending ?s1 @ [Pending_Publish (length (peers (srv ?s1))) c']\<rparr>))"
    "server_ok v2" "adds_peer (srv ?s1) Publisher env' v2" "map_find (SarsPeersStreamIDMaps v2) sid = Some c'"
    by metis
  have "maps_extend v1 v2" using exec_maps_extend [OF ok1 _ b2(1)] by simp
  then have reg: "registered v1 i \<Longrightarrow> registered v2 i" and "map_find (SarsPeersStreamIDMaps v2) sid = Some c"
    using b1(4) unfolding maps_extend_def map_extends_def registered_def by blast+
  then have c': "c' = c" using b2(4) by simp
  have "server_ok (srv s)" using ok by (simp add: system_ok_def)
  from smap.emplace_new [OF server_ok_maps(2) [OF this] assms(10), of i] have "registered v1 i"
    using b1(6) assms(9) by (auto simp: registered_def with_session_def)
  with reg have reg: "registered v2 i" by blast
  have len2: "length (peers v2) = Suc (Suc i)" using adds_peer_last(1) [OF b2(3)] len1 by simp
  have c: "c < length (scaches v2)" using stream_index [OF b2(2,4)] c' by simp
  have "system_ok (?s1\<lparr>srv := v2, pending := pending ?s1 @ [Pending_Publish (length (peers (srv ?s1))) c']\<rparr>)"
    using exec_keeps [OF ok1 _ b2(1)] by simp
  then have cls: "has_class v2 Publisher i" "has_class v2 Publisher (Suc i)"
    using len1 by (simp_all add: system_ok_def)
  obtain v3 where f1: "finish (Pending_Publish i c) v2 = Inr v3" "published v3 c i" "maps_of v3 = maps_of v2"
    "length (peers v3) = length (peers v2)"
    by (rule finish_publish_published [OF b2(2) cls(1) c]) blast
  have ok3: "server_ok v3" "has_class v3 Publisher (Suc i)" "c < length (scaches v3)"
    using finish_ok [OF b2(2), of "Pending_Publish i c"] f1(1) cls c by (auto simp: grows_def)
  obtain v4 where f2: "finish (Pending_Publish (Suc i) c) v3 = Inr v4" "published v4 c (Suc i)" "maps_of v4 = maps_of v3"
    "\<And>j. j \<noteq> Suc i \<Longrightarrow> registered v3 j \<Longrightarrow> peers v4 ! j = peers v3 ! j"
    by (rule finish_publish_published [OF ok3]) blast
  have reg: "registered v3 i" "registered v4 i"
    using reg f1(3) f2(3) by (simp_all add: registered_def maps_of_def)
  have "run_events parse dump [Publish body env, Publish body' env', Finish n, Finish n] s
      = Some (Inr (s\<lparr>srv := v4\<rparr>))"
    using b1(1) b2(1) f1(1) f2(1) assms(7) c' len1 by (simp add: nth_append)
  moreover have "map_find (SarsPeersStreamIDMaps v4) sid = Some c" using b2(4) c' f1(3) f2(3) by (simp add: maps_of_def)
  moreover have "peer_scache (peers v4 ! i) = Some c" using f2(4) [of i] f1(2) reg(1) by (simp add: published_def)
  ultimately show ?thesis using f2(2) reg(2) by auto
qed

theorem publish_race_witness:
  "\<exists>s' c. run_events demo_parse id [Publish ''s/cam'' (demo_env (Some 5)), Publish ''s/cam'' (demo_env (Some 6)),
       Finish 0, Finish 0] initial = Some (Inr s')
     \<and> map_find (SarsPeersStreamIDMaps (srv s')) ''cam'' = Some c \<and> published (srv s') c 1
     \<and> registered (srv s') 0 \<and> peer_scache (peers (srv s') ! 0) = Some c"
  using publish_race [where parse = demo_parse and dump = id and body = "''s/cam''" and body' = "''s/cam''",
      OF reachable.start demo_parse_eq demo_url demo_parse_eq demo_url demo_initial(1) refl refl demo_session demo_initial(5),
      of "demo_env (Some 6)"]
  by (simp add: demo_initial del: run_events.simps)

text \<open>C22: the result of \<open>CreateRtcPeer\<close> is not looked at: a publish request for which the core makes no
  connection is answered and occupies the stream all the same, and the first player that then connects
  to the stream makes the server call the missing connection.\<close>

theorem failed_publish_poisons_stream:
  assumes "reachable parse dump s" "parse body = Some (offer, url)" "GetStreamIdFromStreamUrl url = Inr sid"
    and "publishable (srv s) sid" "env_pc env = None" "env_pc env' = Some pc"
    and "n = length (pending s)" "j = Suc (length (peers (srv s)))"
  shows "\<exists>s'. run_events parse dump [Publish body env, Finish n, Play body env', Finish n] s = Some (Inr s')
    \<and> enabled (Connection j kConnected) s' \<and> exec parse dump (Connection j kConnected) s' = Some (Inl Null_Deref)"
proof -
  note ok = reachable_ok [OF assms(1)]
  let ?i = "length (peers (srv s))"
  obtain c v where r1: "run_events parse dump [Publish body env, Finish n] s = Some (Inr (s\<lparr>srv := v\<rparr>))"
    and v: "map_find (SarsPeersStreamIDMaps v) sid = Some c" "published v c ?i" "length (peers v) = j"
      "peer_connection (peers v ! ?i) = None"
    by (rule whole_publish [where parse = parse and dump = dump and body = body and env = env, OF ok assms(2-4)])
      (use assms(5,7,8) in auto)
  have "system_ok (s\<lparr>srv := v\<rparr>)" by (rule run_events_system_ok [OF r1 ok])
  from whole_play [where parse = parse and dump = dump and body = body and env = env', OF this assms(2,3), of c ?i]
  obtain w where r2: "run_events parse dump [Play body env', Finish n] (s\<lparr>srv := v\<rparr>) = Some (Inr (s\<lparr>srv := w\<rparr>))"
    and w: "length (peers w) = Suc j" "peer_connection (peers w ! j) = Some pc" "peer_class (peers w ! j) = Player"
      "peer_scache (peers w ! j) = Some c" "peers w ! ?i = peers v ! ?i"
      "scaches w = (scaches v)[c := (scaches v ! c)\<lparr>players := players (scaches v ! c) @ [j]\<rparr>]"
    using v assms(6-8) by auto
  have run: "run_events parse dump ([Publish body env, Finish n] @ [Play body env', Finish n]) s = Some (Inr (s\<lparr>srv := w\<rparr>))"
    using run_events_append [OF r1] r2 by simp
  have "\<not> keyframe_ready w j" "has_pc w j"
    using v w by (simp_all add: keyframe_ready_def has_pc_def published_def)
  then show ?thesis
    using run w(3) exec_outcome [OF run_events_system_ok [OF run ok] reachable_listening [OF run_events_reachable [OF run assms(1)]],
        of "Connection j kConnected" parse dump]
    by simp
qed

theorem failed_publish_poisons_stream_witness:
  "\<exists>s'. run_events demo_parse id [Publish ''s/cam'' (demo_env None), Finish 0, Play ''s/cam'' (demo_env (Some 6)), Finish 0]
       initial = Some (Inr s')
     \<and> exec demo_parse id (Connection 1 kConnected) s' = Some (Inl Null_Deref)"
  using failed_publish_poisons_stream [where parse = demo_parse and dump = id and body = "''s/cam''",
      OF reachable.start demo_parse_eq demo_url demo_initial(1) _ _ refl refl, of "demo_env None" "demo_env (Some 6)" 6]
  by (auto simp: demo_initial demo_env_def simp del: run_events.simps exec.simps)

section \<open>From the publisher to the player\<close>

text \<open>The two requests and the connection of the player, up to the state in which media arrives.\<close>

lemma whole_session:
  assumes "reachable parse dump s" "parse body = Some (offer, url)" "GetStreamIdFromStreamUrl url = Inr sid"
    and "map_find (SarsPeersStreamIDMaps (srv s)) sid = None" "env_pc env = Some pc" "env_pc env' = Some pc'"
    and "n = length (pending s)" "i = length (peers (srv s))"
  obtains w es where "run_events parse dump [Publish body env, Finish n, Play body env', Finish n,
        Connection (Suc i) kConnected] s = Some (Inr (s\<lparr>srv := w\<rparr>))"
    "effects w = es @ [RequestIFrame_Call pc (remote_video_ssrc (peers w ! i))]"
    "peer_connection (peers w ! Suc i) = Some pc'" "has_pc w i"
    "\<And>ok m. media_ok m \<Longrightarrow> exec parse dump (Media ok i m) (s\<lparr>srv := w\<rparr>)
       = Some (Inr (s\<lparr>srv := emit [feed_call m w (Suc i)] w\<rparr>))"
proof -
  note ok = reachable_ok [OF assms(1)]
  let ?j = "Suc i"
  have pub: "publishable (srv s) sid" using assms(4) by (simp add: publishable_def)
  obtain c v where r1: "run_events parse dump [Publish body env, Finish n] s = Some (Inr (s\<lparr>srv := v\<rparr>))"
    and v: "map_find (SarsPeersStreamIDMaps v) sid = Some c" "published v c i" "length (peers v) = ?j"
      "peer_connection (peers v ! i) = Some pc" "peer_class (peers v ! i) = Publisher" "players (scaches v ! c) = []"
    by (rule whole_publish [where parse = parse and dump = dump and body = body and env = env, OF ok assms(2,3) pub])
      (use assms(4,5,7,8) in auto)
  have "system_ok (s\<lparr>srv := v\<rparr>)" by (rule run_events_system_ok [OF r1 ok])
  from whole_play [where parse = parse and dump = dump and body = body and env = env', OF this assms(2,3), of c i]
  obtain u where r2: "run_events parse dump [Play body env', Finish n] (s\<lparr>srv := v\<rparr>) = Some (Inr (s\<lparr>srv := u\<rparr>))"
    and u: "length (peers u) = Suc ?j" "peer_connection (peers u ! ?j) = Some pc'" "peer_class (peers u ! ?j) = Player"
      "peer_scache (peers u ! ?j) = Some c" "peers u ! i = peers v ! i"
      "scaches u = (scaches v)[c := (scaches v ! c)\<lparr>players := [?j]\<rparr>]"
    using v assms(6,7) by auto
  define q where "q = (peers u ! ?j)\<lparr>peerconnection_state := kConnected\<rparr>"
  define w where "w = emit [RequestIFrame_Call pc (remote_video_ssrc (peers u ! i))] (set_peer ?j q u)"
  have c: "c < length (scaches u)" "publisher (scaches u ! c) = Some i" "players (scaches u ! c) = [?j]"
    using v(2) u(6) by (simp_all add: published_def)
  have r3: "call_OnConnectionChange ?j kConnected u = Inr w"
    using v u c by (simp add: call_OnConnectionChange_def Player_OnConnectionChange_def get_peer_def Let_def
        request_iframe_of_publisher_def get_scache_def RequestIFrame_def w_def q_def)
  have w: "peers w ! i = peers v ! i" "length (peers w) = Suc ?j" "peers w ! ?j = q" "scaches w = scaches u"
    using u by (simp_all add: w_def)
  have q: "connected w ?j" "peer_connection q = Some pc'" using u w by (simp_all add: connected_def q_def)
  have r4: "call_OnRecvMediaData ok i m w = Inr (emit [feed_call m w ?j] w)" if "media_ok m" for ok m
    using that v w c q cache_loop_forwards [of m "[?j]" w 0 0]
    by (simp add: call_OnRecvMediaData_def Publisher_OnRecvMediaData_def get_peer_def published_def CacheMedia_def
        get_scache_def)
  have "run_events parse dump (([Publish body env, Finish n] @ [Play body env', Finish n])
        @ [Connection ?j kConnected]) s = Some (Inr (s\<lparr>srv := w\<rparr>))"
    using run_events_append [OF r1, of "[Play body env', Finish n] @ [Connection ?j kConnected]"]
      run_events_append [OF r2, of "[Connection ?j kConnected]"] r3 u
    by (simp add: has_pc_def)
  moreover have "effects w = effects u @ [RequestIFrame_Call pc (remote_video_ssrc (peers w ! i))]"
    using u w by (simp add: w_def)
  ultimately show thesis using that w q r4 v(4) by (simp add: has_pc_def)
qed

text \<open>C10: on a new stream, a publish request, a play request and the connection of the player, each handled
  to its end, make the server ask the publisher's connection for a key frame and then hand every media
  unit of the publisher to the player's connection, under the player's own source and payload type.\<close>

theorem media_reaches_player:
  assumes "reachable parse dump s" "parse body = Some (offer, url)" "GetStreamIdFromStreamUrl url = Inr sid"
    and "map_find (SarsPeersStreamIDMaps (srv s)) sid = None" "env_pc env = Some pc" "env_pc env' = Some pc'"
    and "media_ok m" "n = length (pending s)" "i = length (peers (srv s))"
  shows "\<exists>s' es. run_events parse dump [Publish body env, Finish n, Play body env', Finish n,
        Connection (Suc i) kConnected, Media ok i m] s = Some (Inr s')
    \<and> effects (srv s') = es @ [RequestIFrame_Call pc (remote_video_ssrc (peers (srv s') ! i)),
        FeedMediaData_Call pc' (frame_for m (peers (srv s') ! Suc i))]"
proof -
  let ?pre = "[Publish body env, Finish n, Play body env', Finish n, Connection (Suc i) kConnected]"
  obtain w es where w: "run_events parse dump ?pre s = Some (Inr (s\<lparr>srv := w\<rparr>))"
    "effects w = es @ [RequestIFrame_Call pc (remote_video_ssrc (peers w ! i))]"
    "peer_connection (peers w ! Suc i) = Some pc'" "has_pc w i"
    "exec parse dump (Media ok i m) (s\<lparr>srv := w\<rparr>) = Some (Inr (s\<lparr>srv := emit [feed_call m w (Suc i)] w\<rparr>))"
    using whole_session [where parse = parse and dump = dump, OF assms(1-6,8,9)] assms(7) by metis
  let ?s' = "s\<lparr>srv := emit [feed_call m w (Suc i)] w\<rparr>"
  have "run_events parse dump [Media ok i m] (s\<lparr>srv := w\<rparr>) = Some (Inr ?s')" using w(4,5) by simp
  then have "run_events parse dump (?pre @ [Media ok i m]) s = Some (Inr ?s')"
    using run_events_append [OF w(1)] by metis
  then show ?thesis using w(2,3) by (intro exI [of _ ?s'] exI [of _ es]) (simp add: feed_call_def del: run_events.simps)
qed

theorem media_reaches_player_witness:
  "\<exists>s' es a b. run_events demo_parse id [Publish ''s/cam'' (demo_env (Some 5)), Finish 0,
       Play ''s/cam'' (demo_env (Some 6)), Finish 0, Connection 1 kConnected,
       Media Written 0 demo_media] initial = Some (Inr s')
     \<and> effects (srv s') = es @ [RequestIFrame_Call 5 a, FeedMediaData_Call 6 b] \<and> media_data b = Some [1]"
  using media_reaches_player [where parse = demo_parse and dump = id and body = "''s/cam''" and ok = Written,
      OF reachable.start demo_parse_eq demo_url demo_initial(2) _ _ _ refl refl,
      of "demo_env (Some 5)" 5 "demo_env (Some 6)" 6 "demo_media"]
  by (fastforce simp: demo_initial demo_env_def demo_media_def media_ok_def frame_for_def simp del: run_events.simps)

section \<open>What cannot be undone\<close>

text \<open>C18: whatever happens later, a stream name, a user name or an address keeps the stream or peer that
  it was first bound to; there is no removal and no rebinding.\<close>

theorem bindings_are_permanent:
  assumes "reachable parse dump s" "(sys_step parse dump)\<^sup>*\<^sup>* s s'"
  shows "maps_extend (srv s) (srv s')"
  using runs.rel_runs [OF assms(2) reachable_ok [OF assms(1)]] by (simp add: permanent_def)

lemma demo_published:
  obtains s c where "reachable demo_parse id s" "map_find (SarsPeersStreamIDMaps (srv s)) ''cam'' = Some c"
    "published (srv s) c 0"
proof -
  obtain c v where "run_events demo_parse id [Publish ''s/cam'' (demo_env (Some 5)), Finish (length (pending initial))]
      initial = Some (Inr (initial\<lparr>srv := v\<rparr>))"
    "map_find (SarsPeersStreamIDMaps v) ''cam'' = Some c" "published v c (length (peers (srv initial)))"
    by (rule whole_publish [where parse = demo_parse and dump = id and body = "''s/cam''" and env = "demo_env (Some 5)",
          OF reachable_ok [OF reachable.start [of demo_parse id]] demo_parse_eq demo_url demo_initial(1)])
  then show thesis
    using that [of "initial\<lparr>srv := v\<rparr>" c] run_events_reachable [OF _ reachable.start]
    by (simp add: demo_initial del: run_events.simps)
qed

lemma demo_later:
  obtains s s' c where "reachable demo_parse id s" "map_find (SarsPeersStreamIDMaps (srv s)) ''cam'' = Some c"
    "published (srv s) c 0" "(sys_step demo_parse id)\<^sup>*\<^sup>* s s'" "exec demo_parse id (Timer (\<lambda>_. 9)) s = Some (Inr s')"
proof -
  obtain s c where s: "reachable demo_parse id s" "map_find (SarsPeersStreamIDMaps (srv s)) ''cam'' = Some c"
    "published (srv s) c 0" by (rule demo_published)
  obtain s' where s': "exec demo_parse id (Timer (\<lambda>_. 9)) s = Some (Inr s')"
    using exec_outcome [OF reachable_ok [OF s(1)] reachable_listening [OF s(1)], of "Timer (\<lambda>_. 9)" demo_parse id] by auto
  then have "sys_step demo_parse id s s'" unfolding sys_step_def by (intro exI [of _ "Timer (\<lambda>_. 9)"]) simp
  then show thesis using that [OF s] s' by blast
qed

theorem reachable_states_ok_witness:
  "\<exists>s c. reachable demo_parse id s \<and> map_find (SarsPeersStreamIDMaps (srv s)) ''cam'' = Some c
     \<and> published (srv s) c 0 \<and> system_ok s"
proof -
  obtain s c where s: "reachable demo_parse id s" "map_find (SarsPeersStreamIDMaps (srv s)) ''cam'' = Some c"
    "published (srv s) c 0" by (rule demo_published)
  then show ?thesis using reachable_states_ok [OF s(1)] by blast
qed

theorem bindings_are_permanent_witness:
  "\<exists>s s' c. reachable demo_parse id s \<and> exec demo_parse id (Timer (\<lambda>_. 9)) s = Some (Inr s')
     \<and> map_find (SarsPeersStreamIDMaps (srv s)) ''cam'' = Some c \<and> map_find (SarsPeersStreamIDMaps (srv s')) ''cam'' = Some c"
proof -
  obtain s s' c where s: "reachable demo_parse id s" "map_find (SarsPeersStreamIDMaps (srv s)) ''cam'' = Some c"
    and s': "(sys_step demo_parse id)\<^sup>*\<^sup>* s s'" "exec demo_parse id (Timer (\<lambda>_. 9)) s = Some (Inr s')"
    by (rule demo_later)
  then show ?thesis using bindings_are_permanent [OF s(1) s'(1)] unfolding maps_extend_def map_extends_def by blast
qed

text \<open>C20: a stream that has been published is never free again: after whatever else has happened, a
  publish request for it is refused with -15 and changes nothing.\<close>

theorem published_stream_stays_locked:
  assumes "reachable parse dump s" "map_find (SarsPeersStreamIDMaps (srv s)) sid = Some c"
    and "\<not> CanPublish (scaches (srv s) ! c)" "(sys_step parse dump)\<^sup>*\<^sup>* s s'"
    and "parse body = Some (offer, url)" "GetStreamIdFromStreamUrl url = Inr sid"
  shows "publish_begin parse dump body env (srv s') = Inr (Inl (-15), srv s')"
proof -
  have "server_ok (srv s)" using reachable_ok [OF assms(1)] by (simp add: system_ok_def)
  then have "c < length (scaches (srv s))" by (rule stream_index [OF _ assms(2)])
  moreover have "permanent s s'" by (rule runs.rel_runs [OF assms(4) reachable_ok [OF assms(1)]])
  ultimately have "map_find (SarsPeersStreamIDMaps (srv s')) sid = Some c" "c < length (scaches (srv s'))"
    "\<not> CanPublish (scaches (srv s') ! c)"
    using assms(2,3) by (auto simp: permanent_def maps_extend_def map_extends_def grows_def)
  then show ?thesis using assms(5,6) by (simp add: publish_begin_def GetOrCreateStreamCache_def get_scache_def)
qed

theorem published_stream_stays_locked_witness:
  "\<exists>s s'. reachable demo_parse id s \<and> exec demo_parse id (Timer (\<lambda>_. 9)) s = Some (Inr s')
     \<and> publish_begin demo_parse id ''s/cam'' (demo_env (Some 6)) (srv s') = Inr (Inl (-15), srv s')"
proof -
  obtain s s' c where s: "reachable demo_parse id s" "map_find (SarsPeersStreamIDMaps (srv s)) ''cam'' = Some c"
      "published (srv s) c 0"
    and s': "(sys_step demo_parse id)\<^sup>*\<^sup>* s s'" "exec demo_parse id (Timer (\<lambda>_. 9)) s = Some (Inr s')"
    by (rule demo_later)
  have "\<not> CanPublish (scaches (srv s) ! c)" using s(3) by (simp add: published_def)
  from published_stream_stays_locked [where parse = demo_parse and body = "''s/cam''", OF s(1,2) this s'(1) demo_parse_eq demo_url]
  show ?thesis using s(1) s'(2) by blast
qed

section \<open>The timer\<close>

lemma timer_loop_eq:
  assumes "\<forall>i\<in>set is. i < length (peers v) \<and> peer_connection (peers v ! i) \<noteq> None"
  shows "timer_loop now is v =
    Inr (emit (map (\<lambda>i. OnTime_Call (the (peer_connection (peers v ! i))) (now i)) is) v)"
  using assms
proof (induction "is" arbitrary: v)
  case (Cons i "is")
  then obtain pc where pc: "peer_connection (peers v ! i) = Some pc" by auto
  have "timer_loop now is (emit [OnTime_Call pc (now i)] v) =
      Inr (emit (map (\<lambda>i. OnTime_Call (the (peer_connection (peers v ! i))) (now i)) is) (emit [OnTime_Call pc (now i)] v))"
    using Cons by simp
  then show ?case using Cons.prems pc by (simp add: get_peer_def OnTimer_def emit_emit)
qed simp

text \<open>C27: a round of the timer in \<open>main\<close> calls the connection of every registered peer exactly once, in the
  order of the user names, and changes nothing else.\<close>

theorem timer_serves_every_peer:
  assumes "server_ok v"
  shows "timer_round now v = Inr (v\<lparr>effects := effects v @
      map (\<lambda>(k, i). OnTime_Call (the (peer_connection (peers v ! i))) (now i)) (SarsPeersUfragMaps v)\<rparr>)"
proof -
  have "i < length (peers v) \<and> peer_connection (peers v ! i) \<noteq> None" if "(k, i) \<in> set (SarsPeersUfragMaps v)" for k i
  proof -
    have "map_find (SarsPeersUfragMaps v) k = Some i"
      using server_ok_maps(2) [OF assms] that by (simp add: map_find_Some_iff)
    then show ?thesis using server_ok_registered [OF assms] by (auto simp: reachable_peer_def)
  qed
  then have "timer_round now v = Inr (emit (map (\<lambda>i. OnTime_Call (the (peer_connection (peers v ! i))) (now i))
      (map_values (SarsPeersUfragMaps v))) v)"
    unfolding timer_round_def by (intro timer_loop_eq) (auto simp: map_values_def)
  then show ?thesis by (simp add: map_values_def emit_def case_prod_unfold comp_def)
qed

theorem timer_serves_every_peer_witness:
  "timer_round (\<lambda>i. 7) example_server = Inr (example_server\<lparr>effects := [OnTime_Call 5 7]\<rparr>)"
  using timer_serves_every_peer [OF example_server_ok, of "\<lambda>i. 7"] by (simp add: example_server_def RTCServer_def)

end
