(* ===== verification/Sfu_Spec.thy ===== *)
theory Sfu_Spec
  imports Main "HOL-Library.Sublist" "HOL-Library.Option_ord"
begin

text \<open>
  What a selective forwarding server promises, without maps, connections' callbacks or heaps: sessions
  that were made for a named room, rooms with at most one host and an audience, and media that flows
  from the hosts of a room to its audience. A step shows the connections that it feeds, and with whose media. The locale
  \<open>simulation\<close> has what it takes for a detailed system to implement such a machine;
  \<open>Sfu_Refinement\<close> interprets it on the server.
\<close>

section \<open>The machine\<close>

datatype role = Host | Guest

record session =
  role :: role
  room_name :: string
  link :: "nat option"

datatype room = Room (host: "nat option") (audience: "nat list")

text \<open>A session that has been answered and not yet entered its room.\<close>

datatype ticket = Ticket (holder: nat)

record sfu =
  sessions :: "session list"
  rooms :: "string \<Rightarrow> room option"
  tickets :: "ticket list"

definition sfu_start :: sfu where
  "sfu_start = \<lparr>sessions = [], rooms = (\<lambda>_. None), tickets = []\<rparr>"

definition room_of :: "sfu \<Rightarrow> nat \<Rightarrow> room option" where
  "room_of a i = rooms a (room_name (sessions a ! i))"

text \<open>A new host may displace a former one, whose session then loses its connection.\<close>

definition unlink :: "nat \<Rightarrow> sfu \<Rightarrow> sfu" where
  "unlink i a = a\<lparr>sessions := (sessions a)[i := (sessions a ! i)\<lparr>link := None\<rparr>]\<rparr>"

definition drop_nth :: "nat \<Rightarrow> 'a list \<Rightarrow> 'a list" where
  "drop_nth k xs = take k xs @ drop (Suc k) xs"

text \<open>A label names the session whose media has arrived, if any, and the connections that are fed.\<close>

type_synonym sfu_label = "nat option \<times> nat list"

inductive sfu_step :: "sfu \<Rightarrow> sfu_label \<Rightarrow> sfu \<Rightarrow> bool" where
  quiet: "sfu_step a (x, []) a"
| open_room: "rooms a n = None \<Longrightarrow> sfu_step a (None, []) (a\<lparr>rooms := (rooms a)(n \<mapsto> Room None [])\<rparr>)"
| ask_host: "(case rooms a n of None \<Rightarrow> r = Room None [] | Some r' \<Rightarrow> r = r') \<Longrightarrow> host r = None \<Longrightarrow>
    sfu_step a (None, []) (a\<lparr>rooms := (rooms a)(n \<mapsto> r),
      sessions := sessions a @ [\<lparr>role = Host, room_name = n, link = l\<rparr>], tickets := tickets a @ [Ticket (length (sessions a))]\<rparr>)"
| ask_guest: "rooms a n = Some r \<Longrightarrow> host r \<noteq> None \<Longrightarrow>
    sfu_step a (None, []) (a\<lparr>sessions := sessions a @ [\<lparr>role = Guest, room_name = n, link = l\<rparr>],
      tickets := tickets a @ [Ticket (length (sessions a))]\<rparr>)"
| enter_host: "k < length (tickets a) \<Longrightarrow> i = holder (tickets a ! k) \<Longrightarrow> role (sessions a ! i) = Host \<Longrightarrow>
    room_of a i = Some r \<Longrightarrow> b = a \<or> (\<exists>j. host r = Some j \<and> b = unlink j a) \<Longrightarrow>
    sfu_step a (None, []) (b\<lparr>rooms := (rooms a)(room_name (sessions a ! i) \<mapsto> Room (Some i) (audience r)),
      tickets := drop_nth k (tickets a)\<rparr>)"
| enter_guest: "k < length (tickets a) \<Longrightarrow> i = holder (tickets a ! k) \<Longrightarrow> role (sessions a ! i) = Guest \<Longrightarrow>
    room_of a i = Some r \<Longrightarrow>
    sfu_step a (None, []) (a\<lparr>rooms := (rooms a)(room_name (sessions a ! i) \<mapsto> Room (host r) (audience r @ [i])),
      tickets := drop_nth k (tickets a)\<rparr>)"
| relay: "i < length (sessions a) \<Longrightarrow> role (sessions a ! i) = Host \<Longrightarrow> room_of a i = Some r \<Longrightarrow>
    subseq js (audience r) \<Longrightarrow> list_all2 (\<lambda>j pc. link (sessions a ! j) = Some pc) js pcs \<Longrightarrow>
    sfu_step a (Some i, pcs) a"

inductive_cases sfu_feeds: "sfu_step a (x, pc # pcs) b"

section \<open>Who is where\<close>

definition seated :: "sfu \<Rightarrow> role \<Rightarrow> string \<Rightarrow> nat \<Rightarrow> bool" where
  "seated a r n i \<longleftrightarrow>
     i < length (sessions a) \<and> role (sessions a ! i) = r \<and> room_name (sessions a ! i) = n"

definition sfu_ok :: "sfu \<Rightarrow> bool" where
  "sfu_ok a \<longleftrightarrow>
     (\<forall>n r. rooms a n = Some r \<longrightarrow>
        (\<forall>i. host r = Some i \<longrightarrow> seated a Host n i) \<and> (\<forall>j\<in>set (audience r). seated a Guest n j))
     \<and> (\<forall>t\<in>set (tickets a). holder t < length (sessions a))"

lemma drop_nth_subset: "set (drop_nth k xs) \<subseteq> set xs"
  by (auto simp: drop_nth_def dest: in_set_takeD in_set_dropD)

lemma subseq_subset: "subseq xs ys \<Longrightarrow> set xs \<subseteq> set ys"
  by (auto simp: subseq_conv_nths dest: in_set_nthsD)

lemma unlink_simps [simp]:
  "rooms (unlink j a) = rooms a" "tickets (unlink j a) = tickets a"
  "length (sessions (unlink j a)) = length (sessions a)"
  by (simp_all add: unlink_def)

lemma seated_simps [simp]:
  "seated (a\<lparr>rooms := m\<rparr>) r n i = seated a r n i" "seated (a\<lparr>tickets := ts\<rparr>) r n i = seated a r n i"
  "seated (unlink j a) r n i = seated a r n i"
  by (simp_all add: seated_def) (cases "i = j"; auto simp: unlink_def)

lemma seated_append: "seated a r n i \<Longrightarrow> seated (a\<lparr>sessions := sessions a @ ss\<rparr>) r n i"
  by (simp add: seated_def nth_append)

lemma sfu_ok_start: "sfu_ok sfu_start"
  by (simp add: sfu_ok_def sfu_start_def)

lemma sfu_ok_room:
  assumes "sfu_ok a" "rooms a n = Some r"
  shows "host r = Some i \<Longrightarrow> seated a Host n i" "j \<in> set (audience r) \<Longrightarrow> seated a Guest n j"
  using assms by (auto simp: sfu_ok_def)

lemma sfu_ok_set_room:
  assumes "sfu_ok a" "\<And>i. host r = Some i \<Longrightarrow> seated a Host n i" "\<And>j. j \<in> set (audience r) \<Longrightarrow> seated a Guest n j"
  shows "sfu_ok (a\<lparr>rooms := (rooms a)(n \<mapsto> r)\<rparr>)"
  using assms by (auto simp: sfu_ok_def)

lemma sfu_ok_add:
  assumes "sfu_ok a"
  shows "sfu_ok (a\<lparr>sessions := sessions a @ [s], tickets := tickets a @ [Ticket (length (sessions a))]\<rparr>)"
  using assms by (auto simp: sfu_ok_def seated_def nth_append intro: less_SucI)

lemma sfu_ok_tickets: "sfu_ok a \<Longrightarrow> set ts \<subseteq> set (tickets a) \<Longrightarrow> sfu_ok (a\<lparr>tickets := ts\<rparr>)"
  by (auto simp: sfu_ok_def)

lemma sfu_ok_unlink: "sfu_ok a \<Longrightarrow> sfu_ok (unlink j a)"
  by (simp add: sfu_ok_def)

lemma sfu_ok_step: "sfu_step a l b \<Longrightarrow> sfu_ok a \<Longrightarrow> sfu_ok b"
proof (induction rule: sfu_step.induct)
  case (open_room a n)
  then show ?case by (intro sfu_ok_set_room) simp_all
next
  case (ask_host a n r l)
  let ?s = "\<lparr>role = Host, room_name = n, link = l\<rparr>"
  have "sfu_ok (a\<lparr>rooms := (rooms a)(n \<mapsto> r)\<rparr>)"
    using ask_host sfu_ok_room(2) [OF ask_host.prems, of n] by (intro sfu_ok_set_room) (auto split: option.splits)
  from sfu_ok_add [OF this, of ?s] show ?case by simp
next
  case (ask_guest a n r l)
  then show ?case by (intro sfu_ok_add)
next
  case (enter_host k a i r b)
  have b: "sfu_ok b" "rooms b = rooms a" "tickets b = tickets a"
    "seated b = seated a"
    using enter_host(5,6) by (auto simp: fun_eq_iff intro: sfu_ok_unlink)
  have "holder (tickets a ! k) < length (sessions a)" using enter_host by (simp add: sfu_ok_def)
  then have "seated a Host (room_name (sessions a ! i)) i" using enter_host by (simp add: seated_def)
  then have "sfu_ok (b\<lparr>rooms := (rooms b)(room_name (sessions a ! i) \<mapsto> Room (Some i) (audience r))\<rparr>)"
    using sfu_ok_room(2) [OF enter_host.prems enter_host(4) [unfolded room_of_def]]
    by (intro sfu_ok_set_room [OF b(1)]) (simp_all add: b(4))
  from sfu_ok_tickets [OF this, of "drop_nth k (tickets b)"] show ?case
    by (simp add: b drop_nth_subset)
next
  case (enter_guest k a i r)
  have "holder (tickets a ! k) < length (sessions a)" using enter_guest by (simp add: sfu_ok_def)
  then have "seated a Guest (room_name (sessions a ! i)) i" using enter_guest by (simp add: seated_def)
  then have "sfu_ok (a\<lparr>rooms := (rooms a)(room_name (sessions a ! i) \<mapsto> Room (host r) (audience r @ [i]))\<rparr>)"
    using sfu_ok_room [OF enter_guest.prems enter_guest(4) [unfolded room_of_def]]
    by (intro sfu_ok_set_room [OF enter_guest.prems]) auto
  from sfu_ok_tickets [OF this, of "drop_nth k (tickets a)"] show ?case by (simp add: drop_nth_subset)
qed simp_all

text \<open>Whoever is fed is in the audience of the room of the host whose media it is.\<close>

lemma sfu_isolation:
  assumes "sfu_ok a" "sfu_step a (x, pcs) b" and pc: "pc \<in> set pcs"
  shows "\<exists>i j n. x = Some i \<and> seated a Host n i \<and> seated a Guest n j \<and> link (sessions a ! j) = Some pc"
proof -
  obtain p ps where "pcs = p # ps" using pc by (cases pcs) auto
  with assms(2) obtain i r js where relay: "x = Some i" "i < length (sessions a)" "role (sessions a ! i) = Host"
    "room_of a i = Some r" "subseq js (audience r)" "list_all2 (\<lambda>j pc. link (sessions a ! j) = Some pc) js pcs"
    by (auto elim!: sfu_feeds)
  obtain k where k: "k < length pcs" "pcs ! k = pc" using pc by (auto simp: in_set_conv_nth)
  then have j: "k < length js" "link (sessions a ! (js ! k)) = Some pc"
    using relay(6) by (auto simp: list_all2_conv_all_nth)
  then have "js ! k \<in> set (audience r)" using relay(5) subseq_subset by (meson nth_mem subsetD)
  moreover have "rooms a (room_name (sessions a ! i)) = Some r" using relay(4) by (simp add: room_of_def)
  ultimately have "seated a Guest (room_name (sessions a ! i)) (js ! k)"
    using sfu_ok_room(2) [OF assms(1)] by blast
  moreover have "seated a Host (room_name (sessions a ! i)) i" using relay(2,3) by (simp add: seated_def)
  ultimately show ?thesis using j(2) relay(1) by blast
qed

section \<open>Nobody sits twice\<close>

definition sits :: "sfu \<Rightarrow> nat \<Rightarrow> bool" where
  "sits a i \<longleftrightarrow> (\<exists>n r. rooms a n = Some r \<and> (host r = Some i \<or> i \<in> set (audience r)))"

definition single_seats :: "sfu \<Rightarrow> bool" where
  "single_seats a \<longleftrightarrow>
     sfu_ok a \<and> distinct (map holder (tickets a)) \<and> (\<forall>t\<in>set (tickets a). \<not> sits a (holder t))
     \<and> (\<forall>n r. rooms a n = Some r \<longrightarrow> distinct (audience r))"

lemma sits_bound: "sfu_ok a \<Longrightarrow> sits a i \<Longrightarrow> i < length (sessions a)"
  unfolding sits_def using sfu_ok_room by (metis seated_def)

lemma drop_nth_distinct:
  assumes "distinct (map f xs)" "k < length xs"
  shows "distinct (map f (drop_nth k xs))" "f (xs ! k) \<notin> f ` set (drop_nth k xs)"
proof -
  have "xs = take k xs @ xs ! k # drop (Suc k) xs" using assms(2) by (rule id_take_nth_drop)
  then have "distinct (map f (take k xs @ xs ! k # drop (Suc k) xs))" using assms(1) by simp
  then show "distinct (map f (drop_nth k xs))" "f (xs ! k) \<notin> f ` set (drop_nth k xs)"
    by (auto simp: drop_nth_def)
qed

text \<open>A new ticket, and the use of one.\<close>

lemma single_seats_ask:
  assumes "single_seats a" "sfu_ok b" "\<And>i. sits b i \<Longrightarrow> sits a i" "tickets b = tickets a @ [Ticket (length (sessions a))]"
    and "\<And>n r. rooms b n = Some r \<Longrightarrow> distinct (audience r)"
  shows "single_seats b"
proof -
  have "\<not> sits a (length (sessions a))" using assms(1) sits_bound by (force simp: single_seats_def)
  moreover have "length (sessions a) \<notin> holder ` set (tickets a)" using assms(1) by (auto simp: single_seats_def sfu_ok_def)
  ultimately show ?thesis using assms by (auto simp: single_seats_def)
qed

lemma single_seats_enter:
  assumes "single_seats a" "sfu_ok b" "k < length (tickets a)" "tickets b = drop_nth k (tickets a)"
    and "\<And>i. sits b i \<Longrightarrow> sits a i \<or> i = holder (tickets a ! k)"
    and "\<And>n r. rooms b n = Some r \<Longrightarrow> distinct (audience r)"
  shows "single_seats b"
proof -
  note d = drop_nth_distinct [of holder "tickets a" k]
  have "distinct (map holder (tickets a))" using assms(1) by (simp add: single_seats_def)
  note d = d [OF this assms(3)]
  have "\<not> sits b (holder t)" if t: "t \<in> set (drop_nth k (tickets a))" for t
  proof -
    have "holder t \<noteq> holder (tickets a ! k)" using d(2) t by (metis imageI)
    moreover have "t \<in> set (tickets a)" using t drop_nth_subset by (rule rev_subsetD)
    then have "\<not> sits a (holder t)" using assms(1) by (simp add: single_seats_def)
    ultimately show ?thesis using assms(5) by blast
  qed
  then show ?thesis using assms(2,4,6) d(1) by (simp add: single_seats_def)
qed

lemma single_seats_step: "sfu_step a l b \<Longrightarrow> single_seats a \<Longrightarrow> single_seats b"
proof (induction rule: sfu_step.induct)
  case (open_room a n)
  have "sfu_ok (a\<lparr>rooms := (rooms a)(n \<mapsto> Room None [])\<rparr>)"
    using sfu_ok_step [OF sfu_step.open_room [OF open_room(1)]] open_room(2) by (simp add: single_seats_def)
  then show ?case using open_room by (auto simp: single_seats_def sits_def split: if_splits)
next
  case (ask_host a n r l)
  note ok = sfu_ok_step [OF sfu_step.ask_host [where l = l, OF ask_host(1,2)]]
  show ?case
    by (rule single_seats_ask [OF ask_host(3) ok])
      (use ask_host in \<open>auto simp: single_seats_def sits_def split: if_splits option.splits\<close>)
next
  case (ask_guest a n r l)
  note ok = sfu_ok_step [OF sfu_step.ask_guest [where l = l, OF ask_guest(1,2)]]
  show ?case
    by (rule single_seats_ask [OF ask_guest(3) ok]) (use ask_guest in \<open>auto simp: single_seats_def sits_def\<close>)
next
  case (enter_host k a i r b)
  note ok = sfu_ok_step [OF sfu_step.enter_host [OF enter_host(1-5)]]
  have "tickets b = tickets a" using enter_host(5) by auto
  then show ?case
    by (intro single_seats_enter [OF enter_host(6) ok enter_host(1)])
      (use enter_host in \<open>auto simp: single_seats_def sits_def room_of_def split: if_splits\<close>)
next
  case (enter_guest k a i r)
  note ok = sfu_ok_step [OF sfu_step.enter_guest [OF enter_guest(1-4)]]
  have "\<not> sits a i" using enter_guest by (simp add: single_seats_def)
  then have "i \<notin> set (audience r)" using enter_guest(4) by (auto simp: sits_def room_of_def)
  then show ?case
    by (intro single_seats_enter [OF enter_guest(5) ok enter_guest(1)])
      (use enter_guest in \<open>auto simp: single_seats_def sits_def room_of_def split: if_splits\<close>)
qed simp_all

text \<open>While no two sessions share a connection, none is fed twice in a step.\<close>

definition links_unique :: "sfu \<Rightarrow> bool" where
  "links_unique a \<longleftrightarrow>
     (\<forall>i j pc. i < length (sessions a) \<longrightarrow> j < length (sessions a) \<longrightarrow> link (sessions a ! i) = Some pc
        \<longrightarrow> link (sessions a ! j) = Some pc \<longrightarrow> i = j)"

lemma sfu_feeds_once:
  assumes "single_seats a" "links_unique a" "sfu_step a (x, pcs) b"
  shows "distinct pcs"
proof (cases pcs)
  case (Cons p ps)
  with assms(3) obtain i r js where relay: "room_of a i = Some r" "subseq js (audience r)"
    "list_all2 (\<lambda>j pc. link (sessions a ! j) = Some pc) js pcs"
    by (auto elim!: sfu_feeds)
  have d: "distinct js"
    using assms(1) relay(1,2) by (auto simp: single_seats_def room_of_def subseq_conv_nths distinct_nthsI)
  have "j < length (sessions a)" if "j \<in> set js" for j
    using assms(1) relay(1) subseq_subset [OF relay(2)] that by (intro sits_bound) (auto simp: single_seats_def room_of_def sits_def)
  then have "k = l" if "k < length pcs" "l < length pcs" "pcs ! k = pcs ! l" for k l
  proof -
    have "k < length js" "l < length js" "link (sessions a ! (js ! k)) = Some (pcs ! k)" "link (sessions a ! (js ! l)) = Some (pcs ! k)"
      using relay(3) that by (auto simp: list_all2_conv_all_nth)
    moreover from this(1,2) have "js ! k < length (sessions a)" "js ! l < length (sessions a)"
      using \<open>\<And>j. j \<in> set js \<Longrightarrow> j < length (sessions a)\<close> by simp_all
    ultimately have "js ! k = js ! l" using assms(2) unfolding links_unique_def by blast
    with d \<open>k < length js\<close> \<open>l < length js\<close> show ?thesis by (simp add: nth_eq_iff_index_eq)
  qed
  then show ?thesis by (auto simp: distinct_conv_nth)
qed simp

section \<open>Rooms only fill\<close>

text \<open>A room is below another when it has the same audience or a shorter one that the other begins with, and
  does not lose its host; options and functions inherit the order.\<close>

instantiation room :: preorder
begin

definition less_eq_room :: "room \<Rightarrow> room \<Rightarrow> bool" where
  "less_eq_room r r' \<longleftrightarrow> prefix (audience r) (audience r') \<and> (host r \<noteq> None \<longrightarrow> host r' \<noteq> None)"

definition less_room :: "room \<Rightarrow> room \<Rightarrow> bool" where
  "less_room r r' \<longleftrightarrow> r \<le> r' \<and> \<not> r' \<le> (r :: room)"

instance
  by standard (auto simp: less_eq_room_def less_room_def intro: prefix_order.trans)

end

lemma rooms_fill_set: "(case m n of None \<Rightarrow> True | Some r \<Rightarrow> r \<le> r') \<Longrightarrow> m \<le> m(n \<mapsto> r')"
  for r' :: room
  by (auto simp: le_fun_def split: option.splits)

lemma rooms_fill: "sfu_step a l b \<Longrightarrow> rooms a \<le> rooms b"
proof (induction rule: sfu_step.induct)
  case (ask_host a n r l)
  have "rooms a \<le> (rooms a)(n \<mapsto> r)" by (rule rooms_fill_set) (use ask_host(1) in \<open>simp split: option.splits\<close>)
  then show ?case by (simp del: fun_upd_apply)
next
  case (enter_host k a i r b)
  then show ?case by (auto simp: room_of_def less_eq_room_def intro!: rooms_fill_set simp del: fun_upd_apply)
next
  case (enter_guest k a i r)
  then show ?case by (auto simp: room_of_def less_eq_room_def intro!: rooms_fill_set simp del: fun_upd_apply)
qed (auto intro!: rooms_fill_set simp del: fun_upd_apply)

section \<open>Implementations\<close>

text \<open>The runs of a labelled system, with their labels.\<close>

inductive trace :: "('s \<Rightarrow> 'o \<Rightarrow> 's \<Rightarrow> bool) \<Rightarrow> 's \<Rightarrow> 'o list \<Rightarrow> 's \<Rightarrow> bool" for step where
  stop: "trace step s [] s"
| more: "trace step s os s' \<Longrightarrow> step s' x s'' \<Longrightarrow> trace step s (os @ [x]) s''"

locale simulation =
  fixes cstep :: "'c \<Rightarrow> 'o \<Rightarrow> 'c \<Rightarrow> bool" and astep :: "'a \<Rightarrow> 'o \<Rightarrow> 'a \<Rightarrow> bool"
    and view :: "'c \<Rightarrow> 'a" and inv :: "'c \<Rightarrow> bool"
  assumes inv_step: "inv c \<Longrightarrow> cstep c x c' \<Longrightarrow> inv c'"
    and sim_step: "inv c \<Longrightarrow> cstep c x c' \<Longrightarrow> astep (view c) x (view c')"
begin

lemma trace_inv: "trace cstep c os c' \<Longrightarrow> inv c \<Longrightarrow> inv c'"
  by (induction rule: trace.induct) (auto intro: inv_step)

lemma trace_sim: "trace cstep c os c' \<Longrightarrow> inv c \<Longrightarrow> trace astep (view c) os (view c')"
proof (induction rule: trace.induct)
  case (more s os s' x s'')
  then show ?case using trace_inv sim_step by (blast intro: trace.more)
qed (rule trace.stop)

end

lemma trace_preserves:
  "trace step s os s' \<Longrightarrow> (\<And>s x s'. step s x s' \<Longrightarrow> P s \<Longrightarrow> P s') \<Longrightarrow> P s \<Longrightarrow> P s'"
  by (induction rule: trace.induct) auto

lemma trace_rooms_fill: "trace sfu_step a os b \<Longrightarrow> rooms a \<le> rooms b"
  by (induction rule: trace.induct) (auto intro: order_trans rooms_fill)

end
