(* ===== verification/Sfu_View.thy ===== *)
theory Sfu_View
  imports Sessions Sfu_Spec
begin

text \<open>
  The state of the server as a state of the forwarding machine of \<open>Sfu_Spec\<close>. A session is a peer, with
  the stream name that the core was given when the peer was made; a room is a named stream; a ticket is
  a pending request. The linking invariant \<open>server_named\<close> says that whatever a stream holds was made for
  its name. The fed connections of a step are the calls of \<open>FeedMediaData\<close> that it adds to the trace of
  effects. The callbacks and packets leave the view alone, and a new peer adds a session to it.
\<close>

section \<open>The view of the server\<close>

fun created_for :: "effect \<Rightarrow> string list" where
  "created_for (CreatePeerConnection_Call i sid ps) = [sid]"
| "created_for _ = []"

fun fed_by :: "effect \<Rightarrow> nat list" where
  "fed_by (FeedMediaData_Call pc m) = [pc]"
| "fed_by _ = []"

definition created :: "effect list \<Rightarrow> string list" where
  "created es = concat (map created_for es)"

definition fed :: "effect list \<Rightarrow> nat list" where
  "fed es = concat (map fed_by es)"

text \<open>The name that a peer was made for.\<close>

definition stream_of :: "server \<Rightarrow> nat \<Rightarrow> string" where
  "stream_of v i = created (effects v) ! i"

definition session_of :: "server \<Rightarrow> nat \<Rightarrow> session" where
  "session_of v i =
     \<lparr>role = (if peer_class (peers v ! i) = Publisher then Host else Guest), room_name = stream_of v i,
      link = peer_connection (peers v ! i)\<rparr>"

definition room_at :: "scache list \<Rightarrow> nat \<Rightarrow> room" where
  "room_at cs c = Room (publisher (cs ! c)) (players (cs ! c))"

definition ticket_of :: "request \<Rightarrow> ticket" where
  "ticket_of r = (case r of Pending_Publish i c \<Rightarrow> Ticket i | Pending_Play i c \<Rightarrow> Ticket i)"

definition rooms_of :: "server \<Rightarrow> string \<Rightarrow> room option" where
  "rooms_of v n = map_option (room_at (scaches v)) (map_find (SarsPeersStreamIDMaps v) n)"

definition sfu_view :: "system \<Rightarrow> sfu" where
  "sfu_view s =
     \<lparr>sessions = map (session_of (srv s)) [0..<length (peers (srv s))], rooms = rooms_of (srv s),
      tickets = map ticket_of (pending s)\<rparr>"

text \<open>What a step shows.\<close>

fun source :: "event \<Rightarrow> nat option" where
  "source (Media ok i m) = Some i"
| "source _ = None"

definition new_effects :: "system \<Rightarrow> system \<Rightarrow> effect list" where
  "new_effects s s' = drop (length (effects (srv s))) (effects (srv s'))"

definition sys_obs ::
  "(string \<Rightarrow> (string \<times> string) option) \<Rightarrow> (string \<Rightarrow> string) \<Rightarrow> system \<Rightarrow> sfu_label \<Rightarrow> system \<Rightarrow> bool" where
  "sys_obs parse dump s l s' \<longleftrightarrow>
     (\<exists>e. enabled e s \<and> exec parse dump e s = Some (Inr s') \<and> l = (source e, fed (new_effects s s')))"

section \<open>The linking invariant\<close>

definition made_for :: "server \<Rightarrow> nat \<Rightarrow> nat \<Rightarrow> bool" where
  "made_for v i c \<longleftrightarrow> i < length (peers v) \<and> map_find (SarsPeersStreamIDMaps v) (stream_of v i) = Some c"

fun request_named :: "server \<Rightarrow> request \<Rightarrow> bool" where
  "request_named v (Pending_Publish i c) \<longleftrightarrow> made_for v i c"
| "request_named v (Pending_Play i c) \<longleftrightarrow> made_for v i c"

definition server_named :: "server \<Rightarrow> bool" where
  "server_named v \<longleftrightarrow>
     length (created (effects v)) = length (peers v)
     \<and> (\<forall>n n' c. map_find (SarsPeersStreamIDMaps v) n = Some c
          \<longrightarrow> map_find (SarsPeersStreamIDMaps v) n' = Some c \<longrightarrow> n = n')
     \<and> (\<forall>i < length (peers v). \<forall>c. peer_scache (peers v ! i) = Some c \<longrightarrow> made_for v i c)
     \<and> (\<forall>c < length (scaches v). \<forall>i. publisher (scaches v ! c) = Some i \<or> i \<in> set (players (scaches v ! c))
          \<longrightarrow> made_for v i c)"

definition linked :: "system \<Rightarrow> bool" where
  "linked s \<longleftrightarrow> system_ok s \<and> server_named (srv s) \<and> (\<forall>r\<in>set (pending s). request_named (srv s) r)"

section \<open>Effects that make or feed nobody\<close>

lemma created_append [simp]: "created (es @ es') = created es @ created es'" "created [] = []"
  "created (e # es) = created_for e @ created es"
  by (simp_all add: created_def)

lemma fed_append [simp]: "fed (es @ es') = fed es @ fed es'" "fed [] = []" "fed (e # es) = fed_by e @ fed es"
  by (simp_all add: fed_def)

definition calm :: "effect list \<Rightarrow> bool" where
  "calm es \<longleftrightarrow> created es = [] \<and> fed es = []"

lemma calm_simps [simp]:
  "calm []" "calm (es @ es') \<longleftrightarrow> calm es \<and> calm es'"
  "calm (e # es) \<longleftrightarrow> created_for e = [] \<and> fed_by e = [] \<and> calm es"
  by (auto simp: calm_def)

text \<open>A step that keeps streams, bindings of streams, and the roles of the peers.\<close>

definition alike :: "effect list \<Rightarrow> server \<Rightarrow> server \<Rightarrow> bool" where
  "alike es v v' \<longleftrightarrow>
     list_all2 same_role (peers v) (peers v') \<and> scaches v' = scaches v
     \<and> SarsPeersStreamIDMaps v' = SarsPeersStreamIDMaps v \<and> effects v' = effects v @ es \<and> created es = []"

lemma same_role_refl [simp]: "same_role p p"
  by (simp add: same_role_def)

lemma list_all2_update:
  assumes "i < length ps \<Longrightarrow> P (ps ! i) q" "\<And>p. P p p"
  shows "list_all2 P ps (ps[i := q])"
proof (rule list_all2_all_nthI)
  show "P (ps ! k) (ps[i := q] ! k)" if "k < length ps" for k
    using assms that by (cases "i = k") simp_all
qed simp

lemma alike_emit_set_peer:
  "(i < length (peers v) \<Longrightarrow> same_role (peers v ! i) q) \<Longrightarrow> created es = [] \<Longrightarrow> alike es v (emit es (set_peer i q v))"
  by (simp add: alike_def list_all2_update)

lemma alike_emit: "created es = [] \<Longrightarrow> alike es v (emit es v)"
  by (simp add: alike_def list_all2_refl)

lemma alike_session:
  assumes "alike es v v'" "server_named v" "i < length (peers v)"
  shows "session_of v' i = session_of v i" "peer_scache (peers v' ! i) = peer_scache (peers v ! i)"
    "stream_of v' i = stream_of v i"
proof -
  have "same_role (peers v ! i) (peers v' ! i)" using assms by (simp add: alike_def list_all2_conv_all_nth)
  moreover show s: "stream_of v' i = stream_of v i"
    using assms by (simp add: alike_def stream_of_def)
  ultimately show "session_of v' i = session_of v i" "peer_scache (peers v' ! i) = peer_scache (peers v ! i)"
    by (simp_all add: same_role_def session_of_def)
qed

lemma alike_length: "alike es v v' \<Longrightarrow> length (peers v') = length (peers v)"
  by (auto simp: alike_def list_all2_conv_all_nth)

lemma alike_made_for: "alike es v v' \<Longrightarrow> server_named v \<Longrightarrow> made_for v' i c = made_for v i c"
  by (auto simp: made_for_def alike_length alike_session(3)) (auto simp: alike_def)

lemma alike_named:
  assumes a: "alike es v v'" and n: "server_named v"
  shows "server_named v'"
proof -
  have "scaches v' = scaches v" "SarsPeersStreamIDMaps v' = SarsPeersStreamIDMaps v"
    "length (created (effects v')) = length (created (effects v))"
    using a by (simp_all add: alike_def)
  then show ?thesis
    using n alike_session(2) [OF a n] by (simp add: server_named_def alike_length [OF a] alike_made_for [OF a n])
qed

lemma alike_rooms: "alike es v v' \<Longrightarrow> rooms_of v' = rooms_of v"
  by (simp add: alike_def rooms_of_def fun_eq_iff)

lemma alike_step:
  assumes "alike es (srv s) v'" "linked s" "system_ok (s\<lparr>srv := v'\<rparr>)"
  shows "linked (s\<lparr>srv := v'\<rparr>)" "sfu_view (s\<lparr>srv := v'\<rparr>) = sfu_view s" "new_effects s (s\<lparr>srv := v'\<rparr>) = es"
proof -
  have n: "server_named (srv s)" using assms(2) by (simp add: linked_def)
  have "request_named v' r = request_named (srv s) r" for r
    by (cases r) (simp_all add: alike_made_for [OF assms(1) n])
  then show "linked (s\<lparr>srv := v'\<rparr>)" using assms alike_named [OF assms(1) n] by (simp add: linked_def)
  show "sfu_view (s\<lparr>srv := v'\<rparr>) = sfu_view s"
    using alike_session(1) [OF assms(1) n]
    by (simp add: sfu_view_def alike_length [OF assms(1)] alike_rooms [OF assms(1)])
  show "new_effects s (s\<lparr>srv := v'\<rparr>) = es" using assms(1) by (simp add: new_effects_def alike_def)
qed

section \<open>Callbacks and packets\<close>

lemma request_iframe_calm:
  "request_iframe_of_publisher i h = Inr h' \<Longrightarrow> \<exists>es. h' = emit es h \<and> calm es"
  by (auto simp: request_iframe_of_publisher_def RequestIFrame_def bindR_eq_Inr_iff split: option.splits)

lemma timer_loop_calm: "timer_loop now is v = Inr v' \<Longrightarrow> \<exists>es. v' = emit es v \<and> calm es"
proof (induction "is" arbitrary: v)
  case Nil
  then show ?case by (intro exI [of _ "[]"]) simp
next
  case (Cons i "is")
  then obtain p where "timer_loop now is (emit (OnTimer (now i) p) v) = Inr v'"
    by (auto simp: bindR_eq_Inr_iff)
  from Cons.IH [OF this] obtain es where "v' = emit (OnTimer (now i) p @ es) v" "calm es"
    by (auto simp: emit_emit)
  then show ?case by (auto simp: OnTimer_def split: option.splits)
qed

definition quietly :: "server \<Rightarrow> server \<Rightarrow> bool" where
  "quietly v v' \<longleftrightarrow> (\<exists>es. alike es v v' \<and> calm es)"

lemma quietly_emit_set_peer: "same_role (peers v ! i) q \<Longrightarrow> calm es \<Longrightarrow> quietly v (emit es (set_peer i q v))"
  by (auto simp: quietly_def calm_def intro: alike_emit_set_peer)

lemma quietly_set_peer: "same_role (peers v ! i) q \<Longrightarrow> quietly v (set_peer i q v)"
  using quietly_emit_set_peer [of v i q "[]"] by simp

lemma quietly_emit: "calm es \<Longrightarrow> quietly v (emit es v)"
  by (auto simp: quietly_def calm_def intro: alike_emit)

lemma callbacks_quiet:
  assumes ok: "server_ok v"
  shows "has_pc v i \<Longrightarrow> call_OnConnectionChange i st v = Inr v' \<Longrightarrow> quietly v v'"
    and "has_pc v i \<Longrightarrow> call_OnIceConnectionChange i ist v = Inr v' \<Longrightarrow> quietly v v'"
    and "has_pc v i \<Longrightarrow> call_OnRequestIFrame i v = Inr v' \<Longrightarrow> quietly v v'"
    and "timer_round now v = Inr v' \<Longrightarrow> quietly v v'"
    and "call_OnSendDataToRemote inet_pton i data n addr v = Inr v' \<Longrightarrow> quietly v v'"
    and "has_pc v i \<Longrightarrow> peer_class (peers v ! i) \<noteq> Publisher \<Longrightarrow> call_OnRecvMediaData b i m v = Inr v' \<Longrightarrow> quietly v v'"
proof -
  show "quietly v v'" if pc: "has_pc v i" and r: "call_OnConnectionChange i st v = Inr v'"
  proof (cases "peer_class (peers v ! i) = Player \<and> st = kConnected")
    case True
    then have "\<exists>es. v' = emit es (set_peer i ((peers v ! i)\<lparr>peerconnection_state := st\<rparr>) v) \<and> calm es"
      using r pc by (auto simp: call_OnConnectionChange_def get_peer_has_pc Player_OnConnectionChange_def
          dest: request_iframe_calm)
    then show ?thesis by (auto simp: same_role_def intro: quietly_emit_set_peer)
  next
    case False
    then show ?thesis
      using r pc by (auto simp: call_OnConnectionChange_def get_peer_has_pc Player_OnConnectionChange_def
          OnConnectionChange_def Let_def same_role_def split: if_splits intro!: quietly_set_peer)
  qed
  show "quietly v v'" if pc: "has_pc v i" and r: "call_OnIceConnectionChange i ist v = Inr v'"
    using r pc by (auto simp: call_OnIceConnectionChange_def get_peer_has_pc OnIceConnectionChange_def
        same_role_def split: if_splits intro!: quietly_set_peer)
  show "quietly v v'" if pc: "has_pc v i" and r: "call_OnRequestIFrame i v = Inr v'"
  proof -
    have "\<exists>es. v' = emit es v \<and> calm es"
      using r pc by (auto simp: call_OnRequestIFrame_def get_peer_has_pc Player_OnRequestIFrame_def
          split: if_splits dest: request_iframe_calm intro: exI [of _ "[]"])
    then show ?thesis by (auto intro: quietly_emit)
  qed
  show "quietly v v'" if "timer_round now v = Inr v'"
    using that by (auto simp: timer_round_def dest!: timer_loop_calm intro: quietly_emit)
  show "quietly v v'" if "call_OnSendDataToRemote inet_pton i data n addr v = Inr v'"
    using that by (auto simp: call_OnSendDataToRemote_def Server_SendPktToClient_def bindR_eq_Inr_iff
        split: if_splits intro: quietly_emit)
  show "quietly v v'"
    if pc: "has_pc v i" and cls: "peer_class (peers v ! i) \<noteq> Publisher" and r: "call_OnRecvMediaData b i m v = Inr v'"
  proof -
    have "fp_h264 (peers v ! i) = None"
      using server_ok_peer [OF ok] pc by (simp add: peer_ok_def has_pc_def)
    with cls have "v' = emit [] (set_peer i (peers v ! i) v)"
      using r pc by (simp add: call_OnRecvMediaData_def get_peer_has_pc OnRecvMediaData_no_dump)
    then show ?thesis using quietly_emit_set_peer [of v i "peers v ! i" "[]"] by simp
  qed
qed

lemma tracks_quiet: "has_pc v i \<Longrightarrow> on_peer i f v = Inr v' \<Longrightarrow> (\<And>p. same_role p (f p)) \<Longrightarrow> quietly v v'"
  by (auto simp: on_peer_def get_peer_has_pc intro!: quietly_set_peer)

lemma route_quiet: "quietly v (route buf len addr v)"
proof -
  have "quietly v (v\<lparr>leaked := n\<rparr>)" for n
    by (auto simp: quietly_def alike_def list_all2_refl intro: exI [of _ "[]"])
  moreover have "quietly v (accept buf len addr j v)" for j
  proof -
    have "alike [ProcessRemoteData (the (peer_connection (peers v ! j))) (MyPacket buf (int len)) (sender_addr addr)] v
        (accept buf len addr j v)"
      by (simp add: alike_def accept_def) (simp add: list_all2_update same_role_def)
    then show ?thesis by (auto simp: quietly_def)
  qed
  ultimately show ?thesis by (simp add: route_def split: option.split)
qed

lemma http_quiet:
  assumes "serve_http parse dump h url method_str body env page ret v = Inr (out, v')"
    and "h = DefaultHandler \<or> method_str \<noteq> ''POST''"
  shows "quietly v v'"
proof -
  obtain es n where v': "v' = emit es (v\<lparr>leaked := n\<rparr>)" and es: "list_all is_response es"
    using serve_http_emits [OF assms] by blast
  have "created_for e = [] \<and> fed_by e = []" if "is_response e" for e using that by (cases e) simp_all
  then have "calm es" using es by (induction es) simp_all
  then show ?thesis unfolding v' by (auto simp: quietly_def alike_def calm_def list_all2_refl)
qed

section \<open>New sessions\<close>

lemma server_named_stream:
  "server_named v \<Longrightarrow> map_find (SarsPeersStreamIDMaps v) n = Some c \<Longrightarrow> map_find (SarsPeersStreamIDMaps v) n' = Some c
     \<Longrightarrow> n = n'"
  by (simp add: server_named_def)

lemma server_named_member:
  "server_named v \<Longrightarrow> c < length (scaches v) \<Longrightarrow>
     publisher (scaches v ! c) = Some i \<or> i \<in> set (players (scaches v ! c)) \<Longrightarrow> made_for v i c"
  unfolding server_named_def by blast

text \<open>A stream is found or opened.\<close>

lemma open_named:
  assumes ok: "server_ok v" and named: "server_named v" and get: "GetOrCreateStreamCache n v = (c, v1)"
  shows "server_named v1" "\<And>i d. made_for v i d \<Longrightarrow> made_for v1 i d" "stream_of v1 = stream_of v"
    "effects v1 = effects v" "session_of v1 = session_of v"
    "rooms_of v1 = (rooms_of v)(n \<mapsto> room_at (scaches v1) c)"
    "case rooms_of v n of None \<Rightarrow> room_at (scaches v1) c = Room None [] | Some r \<Rightarrow> v1 = v \<and> room_at (scaches v1) c = r"
proof -
  note m = server_ok_maps(3) [OF ok]
  have old: "map_find (SarsPeersStreamIDMaps v) k = Some d \<Longrightarrow> d < length (scaches v)" for k d
    by (rule stream_index [OF ok])
  show "effects v1 = effects v" using get by (auto simp: GetOrCreateStreamCache_def new_scache_def split: option.splits)
  then show s: "stream_of v1 = stream_of v" by (simp add: stream_of_def fun_eq_iff)
  have p: "peers v1 = peers v" by (rule GetOrCreateStreamCache_ok(4) [OF ok get])
  show "session_of v1 = session_of v" by (simp add: session_of_def fun_eq_iff s p)
  have "server_named v1 \<and> (\<forall>i d. made_for v i d \<longrightarrow> made_for v1 i d)
    \<and> rooms_of v1 = (rooms_of v)(n \<mapsto> room_at (scaches v1) c)
    \<and> (case rooms_of v n of None \<Rightarrow> room_at (scaches v1) c = Room None []
         | Some r \<Rightarrow> v1 = v \<and> room_at (scaches v1) c = r)"
  proof (cases "map_find (SarsPeersStreamIDMaps v) n")
    case (Some d)
    then show ?thesis using get named by (auto simp: GetOrCreateStreamCache_def rooms_of_def)
  next
    case None
    have c: "c = length (scaches v)" and v1: "v1 = v\<lparr>scaches := scaches v @ [StreamCache],
        SarsPeersStreamIDMaps := map_emplace n c (SarsPeersStreamIDMaps v)\<rparr>"
      using get None by (auto simp: GetOrCreateStreamCache_def new_scache_def)
    have find: "map_find (SarsPeersStreamIDMaps v1) k = (if k = n then Some c else map_find (SarsPeersStreamIDMaps v) k)"
      for k using None smap.find_emplace [OF m, of n c k] by (simp add: v1)
    have made: "made_for v i d \<Longrightarrow> made_for v1 i d" for i d
      using None by (auto simp: made_for_def p s find)
    have inj: "k = k'" if "map_find (SarsPeersStreamIDMaps v1) k = Some d" "map_find (SarsPeersStreamIDMaps v1) k' = Some d"
      for k k' d
      using that server_named_stream [OF named] old [of k d] old [of k' d] c by (auto simp: find split: if_splits)
    have new: "scaches v1 ! d = (if d = c then StreamCache else scaches v ! d)" if "d < length (scaches v1)" for d
      using that by (auto simp: v1 c nth_append)
    have "made_for v1 i d"
      if d: "d < length (scaches v1)" and i: "publisher (scaches v1 ! d) = Some i \<or> i \<in> set (players (scaches v1 ! d))"
      for d i
    proof -
      have "d \<noteq> c" using i new [OF d] by (auto simp: StreamCache_def)
      then have "d < length (scaches v)" using d by (simp add: v1 c)
      then show ?thesis using server_named_member [OF named] i new [OF d] \<open>d \<noteq> c\<close> made by simp
    qed
    moreover have "length (created (effects v1)) = length (peers v1)" "peers v1 = peers v"
      using named by (simp_all add: server_named_def v1)
    ultimately have "server_named v1" using inj made named by (auto simp: server_named_def)
    moreover have "room_at (scaches v1) d = room_at (scaches v) d" if "map_find (SarsPeersStreamIDMaps v) k = Some d" for k d
      using old [OF that] by (simp add: room_at_def v1 nth_append)
    then have "rooms_of v1 = (rooms_of v)(n \<mapsto> room_at (scaches v1) c)"
      by (auto simp: rooms_of_def find fun_eq_iff split: option.splits intro: option.map_cong0)
    moreover have "room_at (scaches v1) c = Room None []" by (simp add: v1 c room_at_def StreamCache_def)
    ultimately show ?thesis using None made by (simp add: rooms_of_def)
  qed
  then show "server_named v1" "\<And>i d. made_for v i d \<Longrightarrow> made_for v1 i d"
    "rooms_of v1 = (rooms_of v)(n \<mapsto> room_at (scaches v1) c)"
    "case rooms_of v n of None \<Rightarrow> room_at (scaches v1) c = Room None [] | Some r \<Rightarrow> v1 = v \<and> room_at (scaches v1) c = r"
    by blast+
qed

text \<open>A peer is made for a stream.\<close>

definition adds_session :: "string \<Rightarrow> peer_class \<Rightarrow> nat option \<Rightarrow> server \<Rightarrow> server \<Rightarrow> bool" where
  "adds_session n cls l v v' \<longleftrightarrow>
     (\<exists>p es. peers v' = peers v @ [p] \<and> peer_class p = cls \<and> peer_connection p = l \<and> peer_scache p = None
        \<and> effects v' = effects v @ es \<and> created es = [n] \<and> fed es = [])
     \<and> scaches v' = scaches v \<and> SarsPeersStreamIDMaps v' = SarsPeersStreamIDMaps v"

lemma CreateRtcPeer_effects:
  assumes "i < length (peers v)" "peers v ! i = RtcPeer cls"
    and "CreateRtcPeer i n offer True env v = Inr (ret, answer, v')"
  shows "\<exists>es. effects v' = effects v @ es \<and> created es = [n] \<and> fed es = []"
  using assms(3) unfolding CreateRtcPeer_eq [OF assms(1,2)]
  by (auto simp: Let_def bindR_eq_Inr_iff offered_def split: option.splits)

lemma new_peer_adds:
  assumes ok: "server_ok v" and n: "new_peer cls v = (i, v1)"
    and r: "CreateRtcPeer i sid offer True env v1 = Inr (ret, answer, v')"
  shows "adds_session sid cls (env_pc env) v v'" "i = length (peers v)"
proof -
  note new = server_ok_new_peer [OF ok n]
  have "effects v1 = effects v" using n by (auto simp: new_peer_def)
  with CreateRtcPeer_effects [OF new(3,4) r] new_session_effect [OF ok n, of sid offer env] r
  show "adds_session sid cls (env_pc env) v v'" "i = length (peers v)"
    by (auto simp: adds_session_def adds_peer_def)
qed

lemma adds_session_write: "adds_session n cls l v v' \<Longrightarrow> adds_session n cls l v (write_answer dump a v')"
  unfolding adds_session_def write_answer_def Let_def by auto

lemma CreateRtcPublisher_adds:
  "server_ok v \<Longrightarrow> CreateRtcPublisher n offer env v = Inr (i, answer, v') \<Longrightarrow>
     adds_session n Publisher (env_pc env) v v' \<and> i = length (peers v)"
  by (auto simp: CreateRtcPublisher_def bindR_eq_Inr_iff split: prod.splits dest: new_peer_adds)

lemma CreateRtcPlayer_adds:
  "server_ok v \<Longrightarrow> CreateRtcPlayer n offer env v = Inr (i, answer, v') \<Longrightarrow>
     adds_session n Player (env_pc env) v v' \<and> i = length (peers v)"
  by (auto simp: CreateRtcPlayer_def bindR_eq_Inr_iff split: prod.splits dest: new_peer_adds)

lemma add_named:
  assumes named: "server_named v" and add: "adds_session n cls l v v'"
  shows "server_named v'" "\<And>i c. made_for v i c \<Longrightarrow> made_for v' i c"
    "map_find (SarsPeersStreamIDMaps v) n = Some c \<Longrightarrow> made_for v' (length (peers v)) c"
    "rooms_of v' = rooms_of v" "fed (drop (length (effects v)) (effects v')) = []"
    "map (session_of v') [0..<length (peers v')] = map (session_of v) [0..<length (peers v)]
       @ [\<lparr>role = (if cls = Publisher then Host else Guest), room_name = n, link = l\<rparr>]"
proof -
  obtain p es where p: "peers v' = peers v @ [p]" "peer_class p = cls" "peer_connection p = l" "peer_scache p = None"
    and es: "effects v' = effects v @ es" "created es = [n]" "fed es = []"
    and sc: "scaches v' = scaches v" "SarsPeersStreamIDMaps v' = SarsPeersStreamIDMaps v"
    using add unfolding adds_session_def by blast
  have len: "length (created (effects v)) = length (peers v)" using named by (simp add: server_named_def)
  have s: "stream_of v' i = (if i = length (peers v) then n else stream_of v i)" if "i < length (peers v')" for i
    using that len by (auto simp: stream_of_def es p nth_append)
  show made: "made_for v i c \<Longrightarrow> made_for v' i c" for i c
    by (auto simp: made_for_def p(1) s sc)
  show "made_for v' (length (peers v)) c" if "map_find (SarsPeersStreamIDMaps v) n = Some c"
    using that by (simp add: made_for_def s sc p(1))
  have "length (created (effects v')) = length (peers v')" using len by (simp add: es p)
  moreover have "made_for v' i c" if "i < length (peers v')" "peer_scache (peers v' ! i) = Some c" for i c
    using that named made p(4) by (auto simp: server_named_def p(1) nth_append less_Suc_eq split: if_splits)
  ultimately show "server_named v'" using named made by (auto simp: server_named_def sc)
  show "rooms_of v' = rooms_of v" by (simp add: rooms_of_def sc fun_eq_iff)
  show "fed (drop (length (effects v)) (effects v')) = []" by (simp add: es)
  have "session_of v' i = session_of v i" if "i < length (peers v)" for i
    using that s [of i] by (simp add: session_of_def p(1) nth_append)
  moreover have "session_of v' (length (peers v))
      = \<lparr>role = (if cls = Publisher then Host else Guest), room_name = n, link = l\<rparr>"
    using s [of "length (peers v)"] by (simp add: session_of_def p)
  ultimately show "map (session_of v') [0..<length (peers v')] = map (session_of v) [0..<length (peers v)]
       @ [\<lparr>role = (if cls = Publisher then Host else Guest), room_name = n, link = l\<rparr>]"
    by (simp add: p(1))
qed

end
