(* ===== verification/Sfu_Refinement.thy ===== *)
theory Sfu_Refinement
  imports Sfu_View
begin

text \<open>
  The server implements the forwarding machine of \<open>Sfu_Spec\<close>: every event is a step of the machine from
  the view of the state before it to the view of the state after it, with the same label. The locale
  \<open>simulation\<close> lifts this to runs, and what the machine guarantees holds of the server: media stays in its
  stream, and streams only fill.
\<close>

section \<open>Requests\<close>

lemma sfu_view_simps [simp]:
  "rooms (sfu_view s) = rooms_of (srv s)" "tickets (sfu_view s) = map ticket_of (pending s)"
  "length (sessions (sfu_view s)) = length (peers (srv s))"
  by (simp_all add: sfu_view_def)

lemma sfu_view_session [simp]: "i < length (peers (srv s)) \<Longrightarrow> sessions (sfu_view s) ! i = session_of (srv s) i"
  by (simp add: sfu_view_def)

lemma request_named_mono:
  "(\<And>i c. made_for v i c \<Longrightarrow> made_for v' i c) \<Longrightarrow> request_named v r \<Longrightarrow> request_named v' r"
  by (cases r) auto

text \<open>A refused request leaves behind at most a new, empty stream.\<close>

lemma refused_step:
  assumes l: "linked s" and ok: "system_ok (s\<lparr>srv := v1\<rparr>)" and get: "GetOrCreateStreamCache n (srv s) = (c, v1)"
  shows "linked (s\<lparr>srv := v1\<rparr>)" "sfu_step (sfu_view s) (None, []) (sfu_view (s\<lparr>srv := v1\<rparr>))" "new_effects s (s\<lparr>srv := v1\<rparr>) = []"
proof -
  have v: "server_ok (srv s)" "server_named (srv s)" "\<forall>r\<in>set (pending s). request_named (srv s) r"
    using l by (simp_all add: linked_def system_ok_def)
  note o = open_named [OF v(1,2) get]
  show "linked (s\<lparr>srv := v1\<rparr>)"
    using ok o(1) v(3) request_named_mono [OF o(2)] by (auto simp: linked_def)
  show "new_effects s (s\<lparr>srv := v1\<rparr>) = []" by (simp add: new_effects_def o(4))
  have p: "peers v1 = peers (srv s)" by (rule GetOrCreateStreamCache_ok(4) [OF v(1) get])
  show "sfu_step (sfu_view s) (None, []) (sfu_view (s\<lparr>srv := v1\<rparr>))"
  proof (cases "rooms_of (srv s) n")
    case None
    then have "sfu_view (s\<lparr>srv := v1\<rparr>) = (sfu_view s)\<lparr>rooms := (rooms (sfu_view s))(n \<mapsto> Room None [])\<rparr>"
      using o(5-7) p by (simp add: sfu_view_def)
    then show ?thesis using sfu_step.open_room [of "sfu_view s" n] None by simp
  next
    case (Some r)
    then have "v1 = srv s" using o(7) by simp
    then show ?thesis by (simp add: sfu_step.quiet)
  qed
qed

text \<open>An accepted request makes a session and hands out a ticket for it.\<close>

lemma accepted_step:
  assumes l: "linked s" and get: "GetOrCreateStreamCache n (srv s) = (c, v1)"
    and add: "adds_session n cls k v1 v'" and i: "i = length (peers v1)"
    and req: "req = Pending_Publish i c \<or> req = Pending_Play i c"
  defines "s' \<equiv> s\<lparr>srv := v', pending := pending s @ [req]\<rparr>"
  assumes ok: "system_ok s'"
  shows "linked s'" "fed (new_effects s s') = []"
    "sfu_view s' = (sfu_view s)\<lparr>rooms := (rooms (sfu_view s))(n \<mapsto> room_at (scaches v1) c),
       sessions := sessions (sfu_view s) @ [\<lparr>role = (if cls = Publisher then Host else Guest), room_name = n, link = k\<rparr>],
       tickets := tickets (sfu_view s) @ [Ticket (length (sessions (sfu_view s)))]\<rparr>"
proof -
  have v: "server_ok (srv s)" "server_named (srv s)" "\<forall>r\<in>set (pending s). request_named (srv s) r"
    using l by (simp_all add: linked_def system_ok_def)
  note o = open_named [OF v(1,2) get]
  note a = add_named [OF o(1) add]
  have "map_find (SarsPeersStreamIDMaps v1) n = Some c" by (rule GetOrCreateStreamCache_outcome(2) [OF v(1) get])
  then have "made_for v' i c" using a(3) i by simp
  then have "request_named v' req" using req by auto
  moreover have "request_named v' r" if "r \<in> set (pending s)" for r
    using request_named_mono [OF a(2) request_named_mono [OF o(2)]] v(3) that by blast
  ultimately show "linked s'" using ok a(1) by (auto simp: linked_def s'_def)
  show "fed (new_effects s s') = []" using a(5) by (simp add: new_effects_def s'_def o(4))
  have p: "peers v1 = peers (srv s)" by (rule GetOrCreateStreamCache_ok(4) [OF v(1) get])
  have "ticket_of req = Ticket (length (peers (srv s)))" using req i p by (auto simp: ticket_of_def)
  then show "sfu_view s' = (sfu_view s)\<lparr>rooms := (rooms (sfu_view s))(n \<mapsto> room_at (scaches v1) c),
       sessions := sessions (sfu_view s) @ [\<lparr>role = (if cls = Publisher then Host else Guest), room_name = n, link = k\<rparr>],
       tickets := tickets (sfu_view s) @ [Ticket (length (sessions (sfu_view s)))]\<rparr>"
    using a(4,6) o(5,6) p by (simp add: sfu_view_def s'_def)
qed

lemma CanPublish_host:
  assumes "server_ok v" "c < length (scaches v)"
  shows "CanPublish (scaches v ! c) \<longleftrightarrow> host (room_at (scaches v) c) = None"
  using server_ok_scache [OF assms] by (simp add: scache_ok_def room_at_def)

lemma Publish_simulated:
  assumes l: "linked s" and ok: "system_ok s'"
    and step: "step_begin s Pending_Publish (publish_begin parse dump body env (srv s)) = Inr s'"
  shows "linked s' \<and> sfu_step (sfu_view s) (None, fed (new_effects s s')) (sfu_view s')"
proof -
  have v: "server_ok (srv s)" using l by (simp add: linked_def system_ok_def)
  obtain out v' where b: "publish_begin parse dump body env (srv s) = Inr (out, v')"
    and s': "s' = s\<lparr>srv := v', pending :=
       (case out of Inl code \<Rightarrow> pending s | Inr (i, c) \<Rightarrow> pending s @ [Pending_Publish i c])\<rparr>"
    using step by (auto simp: step_begin_def bindR_eq_Inr_iff)
  show ?thesis
  proof (cases rule: publish_begin_cases [OF v b])
    case (1 offer url sid c v1)
    have "s' = s\<lparr>srv := v1\<rparr>" by (simp add: s' 1(5,6))
    with refused_step [OF l _ 1(3)] ok show ?thesis by simp
  next
    case (2 offer url sid c v1 i answer v2)
    note get = GetOrCreateStreamCache_ok [OF v 2(3)]
    have add: "adds_session sid Publisher (env_pc env) v1 v'" "i = length (peers v1)"
      using CreateRtcPublisher_adds [OF get(1) 2(5)] adds_session_write 2(7) by auto
    have s'': "s' = s\<lparr>srv := v', pending := pending s @ [Pending_Publish i c]\<rparr>" by (simp add: s' 2(6))
    note a = accepted_step [OF l 2(3) add, of "Pending_Publish i c", folded s'', OF _ ok]
    have "rooms (sfu_view s) sid = rooms_of (srv s) sid" by simp
    moreover have "server_named (srv s)" using l by (simp add: linked_def)
    note o = open_named(7) [OF v this 2(3)]
    moreover have "host (room_at (scaches v1) c) = None" using CanPublish_host [OF get(1,2)] 2(4) by simp
    ultimately have "sfu_step (sfu_view s) (None, []) (sfu_view s')"
      using sfu_step.ask_host [where a = "sfu_view s" and n = sid and r = "room_at (scaches v1) c" and l = "env_pc env"] a(3)
      by (simp split: option.splits)
    then show ?thesis using a(1,2) by simp
  qed
qed

lemma Play_simulated:
  assumes l: "linked s" and ok: "system_ok s'"
    and step: "step_begin s Pending_Play (play_begin parse dump body env (srv s)) = Inr s'"
  shows "linked s' \<and> sfu_step (sfu_view s) (None, fed (new_effects s s')) (sfu_view s')"
proof -
  have v: "server_ok (srv s)" using l by (simp add: linked_def system_ok_def)
  obtain out v' where b: "play_begin parse dump body env (srv s) = Inr (out, v')"
    and s': "s' = s\<lparr>srv := v', pending :=
       (case out of Inl code \<Rightarrow> pending s | Inr (i, c) \<Rightarrow> pending s @ [Pending_Play i c])\<rparr>"
    using step by (auto simp: step_begin_def bindR_eq_Inr_iff)
  show ?thesis
  proof (cases rule: play_begin_cases [OF v b])
    case (1 offer url sid c v1)
    have "s' = s\<lparr>srv := v1\<rparr>" by (simp add: s' 1(5,6))
    with refused_step [OF l _ 1(3)] ok show ?thesis by simp
  next
    case (2 offer url sid c v1 i answer v2)
    note get = GetOrCreateStreamCache_ok [OF v 2(3)]
    have add: "adds_session sid Player (env_pc env) v1 v'" "i = length (peers v1)"
      using CreateRtcPlayer_adds [OF get(1) 2(5)] adds_session_write 2(7) by auto
    have s'': "s' = s\<lparr>srv := v', pending := pending s @ [Pending_Play i c]\<rparr>" by (simp add: s' 2(6))
    note a = accepted_step [OF l 2(3) add, of "Pending_Play i c", folded s'', OF _ ok]
    have "server_named (srv s)" using l by (simp add: linked_def)
    note o = open_named(6,7) [OF v this 2(3)]
    have h: "host (room_at (scaches v1) c) \<noteq> None" using CanPublish_host [OF get(1,2)] 2(4) by simp
    then have r: "rooms_of (srv s) sid = Some (room_at (scaches v1) c)" using o(2) by (auto split: option.splits)
    then have same: "(rooms_of (srv s))(sid \<mapsto> room_at (scaches v1) c) = rooms_of (srv s)" by (simp add: fun_upd_idem)
    have "sfu_view s' = (sfu_view s)\<lparr>
       sessions := sessions (sfu_view s) @ [\<lparr>role = Guest, room_name = sid, link = env_pc env\<rparr>],
       tickets := tickets (sfu_view s) @ [Ticket (length (sessions (sfu_view s)))]\<rparr>"
      unfolding a(3) [OF disjI2 [OF refl]] sfu_view_simps(1) same by (simp add: sfu_view_def)
    then have "sfu_step (sfu_view s) (None, []) (sfu_view s')"
      using sfu_step.ask_guest [where a = "sfu_view s" and n = sid and r = "room_at (scaches v1) c" and l = "env_pc env"]
        h r by simp
    then show ?thesis using a(1,2) by simp
  qed
qed

section \<open>Entering a stream\<close>

lemma set_scache_named:
  assumes named: "server_named v" and c: "c < length (scaches v)" "map_find (SarsPeersStreamIDMaps v) n = Some c"
    and s: "\<And>i. publisher s = Some i \<or> i \<in> set (players s) \<Longrightarrow> made_for v i c"
  shows "server_named (set_scache c s v)" "made_for (set_scache c s v) = made_for v"
    "session_of (set_scache c s v) = session_of v"
    "rooms_of (set_scache c s v) = (rooms_of v)(n \<mapsto> Room (publisher s) (players s))"
proof -
  have st: "stream_of (set_scache c s v) = stream_of v" by (simp add: stream_of_def fun_eq_iff)
  then show made: "made_for (set_scache c s v) = made_for v" by (simp add: made_for_def fun_eq_iff)
  show "session_of (set_scache c s v) = session_of v" by (simp add: session_of_def st fun_eq_iff)
  have "made_for v i d" if "d < length (scaches v)" "publisher ((scaches v)[c := s] ! d) = Some i \<or> i \<in> set (players ((scaches v)[c := s] ! d))"
    for i d
    using that s server_named_member [OF named that(1)] by (cases "d = c") auto
  then show "server_named (set_scache c s v)" using named by (auto simp: server_named_def made)
  have "room_at ((scaches v)[c := s]) d = (if d = c then Room (publisher s) (players s) else room_at (scaches v) d)" for d
    using c(1) by (simp add: room_at_def)
  moreover have "map_find (SarsPeersStreamIDMaps v) k = Some c \<longleftrightarrow> k = n" for k
    using server_named_stream [OF named _ c(2)] c(2) by blast
  ultimately have "rooms_of (set_scache c s v) k = ((rooms_of v)(n \<mapsto> Room (publisher s) (players s))) k" for k
    using c(2) by (cases "map_find (SarsPeersStreamIDMaps v) k"; cases "k = n") (auto simp: rooms_of_def)
  then show "rooms_of (set_scache c s v) = (rooms_of v)(n \<mapsto> Room (publisher s) (players s))" by (rule ext)
qed

lemma emit_set_peer_named:
  assumes named: "server_named v" and q: "\<And>d. peer_scache q = Some d \<Longrightarrow> made_for v i d" and es: "calm es"
  defines "v' \<equiv> emit es (set_peer i q v)"
  shows "server_named v'" "made_for v' = made_for v" "rooms_of v' = rooms_of v"
    "k < length (peers v) \<Longrightarrow> session_of v' k =
       (if k = i then \<lparr>role = (if peer_class q = Publisher then Host else Guest), room_name = stream_of v i,
          link = peer_connection q\<rparr> else session_of v k)"
proof -
  have es: "created es = []" using es by (simp add: calm_def)
  then have st: "stream_of v' = stream_of v" by (simp add: v'_def stream_of_def fun_eq_iff)
  then show made: "made_for v' = made_for v" by (simp add: v'_def made_for_def fun_eq_iff)
  have "made_for v k d" if "k < length (peers v)" "peer_scache ((peers v)[i := q] ! k) = Some d" for k d
    using that q named by (cases "k = i") (auto simp: server_named_def)
  then show "server_named v'" using named es by (auto simp: server_named_def made) (auto simp: v'_def)
  show "rooms_of v' = rooms_of v" by (simp add: v'_def rooms_of_def fun_eq_iff)
  show "k < length (peers v) \<Longrightarrow> session_of v' k =
       (if k = i then \<lparr>role = (if peer_class q = Publisher then Host else Guest), room_name = stream_of v i,
          link = peer_connection q\<rparr> else session_of v k)"
    by (cases "k = i") (simp_all add: session_of_def st, simp_all add: v'_def)
qed

lemma join_named:
  assumes named: "server_named v" and made: "made_for v i c"
  defines "v' \<equiv> set_peer i ((peers v ! i)\<lparr>peer_scache := Some c\<rparr>) v"
  shows "server_named v'" "made_for v' = made_for v" "rooms_of v' = rooms_of v"
    "map (session_of v') [0..<length (peers v')] = map (session_of v) [0..<length (peers v)]"
proof -
  have v': "v' = emit [] (set_peer i ((peers v ! i)\<lparr>peer_scache := Some c\<rparr>) v)" by (simp add: v'_def)
  note e = emit_set_peer_named [OF named, of "(peers v ! i)\<lparr>peer_scache := Some c\<rparr>" i "[]", folded v']
  show "server_named v'" "made_for v' = made_for v" "rooms_of v' = rooms_of v" using e(1-3) made by simp_all
  have "session_of v' k = session_of v k" if "k < length (peers v)" for k
    using e(4) [OF _ _ that] made by (simp add: session_of_def)
  then show "map (session_of v') [0..<length (peers v')] = map (session_of v) [0..<length (peers v)]"
    by (simp add: v'_def)
qed

lemma destroyed_named:
  assumes named: "server_named v" and j: "j < length (peers v)"
  shows "server_named (destroyed j v)" "made_for (destroyed j v) = made_for v" "rooms_of (destroyed j v) = rooms_of v"
    "map (session_of (destroyed j v)) [0..<length (peers (destroyed j v))] =
       (map (session_of v) [0..<length (peers v)])[j := (session_of v j)\<lparr>link := None\<rparr>]"
proof -
  have calm: "calm (case peer_connection (peers v ! j) of None \<Rightarrow> [] | Some pc \<Rightarrow> [Delete_PC pc])"
    by (simp split: option.split)
  note e = emit_set_peer_named [OF named _ this, of "RtcPeer (peer_class (peers v ! j))" j, folded destroyed_def]
  show "server_named (destroyed j v)" "made_for (destroyed j v) = made_for v" "rooms_of (destroyed j v) = rooms_of v"
    using e(1-3) by (simp_all add: RtcPeer_def)
  have "session_of (destroyed j v) k = (if k = j then (session_of v j)\<lparr>link := None\<rparr> else session_of v k)"
    if "k < length (peers v)" for k
    using e(4) [OF _ that] by (simp add: RtcPeer_def session_of_def)
  then show "map (session_of (destroyed j v)) [0..<length (peers (destroyed j v))] =
       (map (session_of v) [0..<length (peers v)])[j := (session_of v j)\<lparr>link := None\<rparr>]"
    using j by (intro nth_equalityI) (auto simp: destroyed_def nth_list_update)
qed

lemma republished_cases:
  obtains "republished i c v = set_scache c ((scaches v ! c)\<lparr>CanPublish := False, publisher := Some i\<rparr>) v"
  | j where "publisher (scaches v ! c) = Some j"
    "republished i c v = destroyed j (set_scache c ((scaches v ! c)\<lparr>CanPublish := False, publisher := Some i\<rparr>) v)"
proof (cases "publisher (scaches v ! c)")
  case None
  then show thesis using that(1) by (simp add: republished_def Let_def)
next
  case (Some j)
  let ?w = "set_scache c ((scaches v ! c)\<lparr>CanPublish := False, publisher := Some i\<rparr>) v"
  have "republished i c v = (if owned ?w j then ?w else destroyed j ?w)" using Some by (simp add: republished_def Let_def)
  then show thesis using that(1) that(2) [OF Some] by presburger
qed

lemma republished_named:
  assumes named: "server_named v" and c: "c < length (scaches v)" and made: "made_for v i c"
    and old: "\<And>j. publisher (scaches v ! c) = Some j \<Longrightarrow> j < length (peers v)"
  defines "v2 \<equiv> republished i c v"
  shows "server_named v2 \<and> made_for v2 = made_for v
    \<and> rooms_of v2 = (rooms_of v)(stream_of v i \<mapsto> Room (Some i) (players (scaches v ! c)))
    \<and> (\<exists>es. effects v2 = effects v @ es \<and> calm es)
    \<and> (map (session_of v2) [0..<length (peers v2)] = map (session_of v) [0..<length (peers v)]
       \<or> (\<exists>j. publisher (scaches v ! c) = Some j \<and> map (session_of v2) [0..<length (peers v2)]
            = (map (session_of v) [0..<length (peers v)])[j := (session_of v j)\<lparr>link := None\<rparr>]))"
proof -
  let ?s = "(scaches v ! c)\<lparr>CanPublish := False, publisher := Some i\<rparr>"
  have mem: "made_for v k c" if "publisher ?s = Some k \<or> k \<in> set (players ?s)" for k
    using that made server_named_member [OF named c] by auto
  have find: "map_find (SarsPeersStreamIDMaps v) (stream_of v i) = Some c" using made by (simp add: made_for_def)
  have w: "server_named (set_scache c ?s v)" "made_for (set_scache c ?s v) = made_for v"
    "session_of (set_scache c ?s v) = session_of v"
    "rooms_of (set_scache c ?s v) = (rooms_of v)(stream_of v i \<mapsto> Room (Some i) (players (scaches v ! c)))"
    using set_scache_named [OF named c find, of ?s, OF mem] by simp_all
  show ?thesis
  proof (cases rule: republished_cases [of i c v])
    case 1
    then have "\<exists>es. effects v2 = effects v @ es \<and> calm es" by (intro exI [of _ "[]"]) (simp add: v2_def)
    then show ?thesis using w 1 by (simp add: v2_def)
  next
    case (2 j)
    note d = destroyed_named [OF w(1), of j]
    have "\<exists>es. effects v2 = effects v @ es \<and> calm es"
      unfolding v2_def 2(2) destroyed_def by (auto split: option.split)
    then show ?thesis using w d old [OF 2(1)] 2 by (simp add: v2_def)
  qed
qed

lemma finished:
  assumes "s' = s\<lparr>srv := v', pending := drop_nth k (pending s)\<rparr>" "system_ok s'" "linked s"
    and "server_named v'" "\<And>i c. made_for (srv s) i c \<Longrightarrow> made_for v' i c"
  shows "linked s'" "tickets (sfu_view s') = drop_nth k (tickets (sfu_view s))"
proof -
  have "\<forall>r\<in>set (pending s). request_named v' r"
    using assms(3,5) request_named_mono by (fastforce simp: linked_def)
  then show "linked s'" using assms(1,2,4) drop_nth_subset [of k "pending s"] by (auto simp: linked_def)
  show "tickets (sfu_view s') = drop_nth k (tickets (sfu_view s))"
    by (simp add: assms(1) sfu_view_def drop_nth_def take_map drop_map)
qed

lemma Finish_simulated:
  assumes l: "linked s" and k: "k < length (pending s)"
    and fin: "finish (pending s ! k) (srv s) = Inr v'"
  defines "s' \<equiv> s\<lparr>srv := v', pending := drop_nth k (pending s)\<rparr>"
  assumes ok: "system_ok s'"
  shows "linked s' \<and> sfu_step (sfu_view s) (None, fed (new_effects s s')) (sfu_view s')"
proof -
  let ?v = "srv s"
  have v: "server_ok ?v" "server_named ?v" "request_ok ?v (pending s ! k)" "request_named ?v (pending s ! k)"
    using l k by (simp_all add: linked_def system_ok_def)
  show ?thesis
  proof (cases "pending s ! k")
    case (Pending_Publish i c)
    then have i: "has_class ?v Publisher i" and c: "c < length (scaches ?v)" and made: "made_for ?v i c"
      using v by simp_all
    have old: "j < length (peers ?v)" if "publisher (scaches ?v ! c) = Some j" for j
      using server_ok_scache [OF v(1) c] that by (simp add: scache_ok_def has_class_def)
    let ?v2 = "republished i c ?v"
    note p = publish_finish_eq [OF v(1) i c]
    have v2: "server_named ?v2" "made_for ?v2 = made_for ?v"
      "rooms_of ?v2 = (rooms_of ?v)(stream_of ?v i \<mapsto> Room (Some i) (players (scaches ?v ! c)))"
      and es: "\<exists>es. effects ?v2 = effects ?v @ es \<and> calm es"
      and ses: "map (session_of ?v2) [0..<length (peers ?v2)] = map (session_of ?v) [0..<length (peers ?v)]
       \<or> (\<exists>j. publisher (scaches ?v ! c) = Some j \<and> map (session_of ?v2) [0..<length (peers ?v2)]
            = (map (session_of ?v) [0..<length (peers ?v)])[j := (session_of ?v j)\<lparr>link := None\<rparr>])"
      using republished_named [OF v(2) c made old] by blast+
    have v': "v' = set_peer i ((peers ?v2 ! i)\<lparr>peer_scache := Some c\<rparr>) ?v2"
      using fin p(1) Pending_Publish by (simp add: finish_def)
    have "made_for ?v2 i c" using made v2(2) by simp
    note j = join_named [OF v2(1) this, folded v']
    have fin': "linked s'" "tickets (sfu_view s') = drop_nth k (tickets (sfu_view s))"
      by (rule finished [OF _ ok l j(1)]; use j(2) v2(2) s'_def in simp)+
    have "fed (new_effects s s') = []" using es by (auto simp: new_effects_def s'_def v' calm_def)
    moreover have "\<exists>b. (b = sfu_view s \<or> (\<exists>h. publisher (scaches ?v ! c) = Some h \<and> b = unlink h (sfu_view s)))
        \<and> sessions (sfu_view s') = sessions b"
      using ses j(4) old by (force simp: sfu_view_def s'_def unlink_def)
    then obtain b where b: "b = sfu_view s \<or> (\<exists>h. publisher (scaches ?v ! c) = Some h \<and> b = unlink h (sfu_view s))"
      "sessions (sfu_view s') = sessions b" by blast
    have "rooms (sfu_view s') = (rooms_of ?v)(stream_of ?v i \<mapsto> Room (Some i) (players (scaches ?v ! c)))"
      using j(3) v2(3) by (simp add: s'_def)
    then have view: "sfu_view s' = b\<lparr>rooms := (rooms (sfu_view s))(room_name (sessions (sfu_view s) ! i)
        \<mapsto> Room (Some i) (audience (room_at (scaches ?v) c))), tickets := drop_nth k (tickets (sfu_view s))\<rparr>"
      using b(2) fin'(2) i by (intro sfu.equality) (simp_all add: room_at_def session_of_def has_class_def)
    have "sfu_step (sfu_view s) (None, []) (sfu_view s')"
      unfolding view
      by (rule sfu_step.enter_host)
        (use k Pending_Publish i made b(1) in \<open>simp_all add: ticket_of_def has_class_def session_of_def room_of_def
          rooms_of_def made_for_def room_at_def\<close>)
    ultimately show ?thesis using fin'(1) by simp
  next
    case (Pending_Play i c)
    then have i: "has_class ?v Player i" and c: "c < length (scaches ?v)" and made: "made_for ?v i c"
      using v by simp_all
    let ?s = "(scaches ?v ! c)\<lparr>players := players (scaches ?v ! c) @ [i]\<rparr>"
    let ?v1 = "set_scache c ?s ?v"
    have mem: "made_for ?v j c" if "publisher ?s = Some j \<or> j \<in> set (players ?s)" for j
      using that made server_named_member [OF v(2) c] by auto
    have find: "map_find (SarsPeersStreamIDMaps ?v) (stream_of ?v i) = Some c"
      using made by (simp add: made_for_def)
    have v1: "server_named ?v1" "made_for ?v1 = made_for ?v" "session_of ?v1 = session_of ?v"
      "rooms_of ?v1 = (rooms_of ?v)(stream_of ?v i \<mapsto> Room (publisher (scaches ?v ! c)) (players (scaches ?v ! c) @ [i]))"
      using set_scache_named [OF v(2) c find, of ?s, OF mem] by simp_all
    have v': "v' = set_peer i ((peers ?v1 ! i)\<lparr>peer_scache := Some c\<rparr>) ?v1"
      using fin finish_play_eq [of i ?v c] i c Pending_Play by (simp add: has_class_def)
    have "made_for ?v1 i c" using made v1(2) by simp
    note j = join_named [OF v1(1) this, folded v']
    have fin': "linked s'" "tickets (sfu_view s') = drop_nth k (tickets (sfu_view s))"
      by (rule finished [OF _ ok l j(1)]; use j(2) v1(2) s'_def in simp)+
    have "fed (new_effects s s') = []" by (simp add: new_effects_def s'_def v')
    moreover have "sessions (sfu_view s') = sessions (sfu_view s)"
      using j(4) v1(3) by (simp add: sfu_view_def s'_def)
    moreover have "rooms (sfu_view s')
        = (rooms_of ?v)(stream_of ?v i \<mapsto> Room (publisher (scaches ?v ! c)) (players (scaches ?v ! c) @ [i]))"
      using j(3) v1(4) by (simp add: s'_def)
    ultimately have view: "sfu_view s' = (sfu_view s)\<lparr>rooms := (rooms (sfu_view s))(room_name (sessions (sfu_view s) ! i)
        \<mapsto> Room (host (room_at (scaches ?v) c)) (audience (room_at (scaches ?v) c) @ [i])),
        tickets := drop_nth k (tickets (sfu_view s))\<rparr>"
      using fin'(2) i by (intro sfu.equality) (simp_all add: room_at_def session_of_def has_class_def)
    have "sfu_step (sfu_view s) (None, []) (sfu_view s')"
      unfolding view
      by (rule sfu_step.enter_guest)
        (use k Pending_Play i find in \<open>simp_all add: ticket_of_def has_class_def session_of_def room_of_def
          rooms_of_def room_at_def\<close>)
    then show ?thesis using fin'(1) \<open>fed (new_effects s s') = []\<close> by simp
  qed
qed

section \<open>Media\<close>

text \<open>The loop of \<open>CacheMedia\<close> feeds the connections of the connected players, in their order, and does
  nothing else.\<close>

lemma cache_loop_feeds:
  "cache_loop m is ssrc pt h = Inr h' \<Longrightarrow> \<exists>es. h' = emit es h \<and> created es = []
     \<and> list_all2 (\<lambda>j pc. peer_connection (peers h ! j) = Some pc) (filter (connected h) is) (fed es)"
proof (induction m "is" ssrc pt h rule: cache_loop.induct)
  case (1 m ssrc pt h)
  then show ?case by (intro exI [of _ "[]"]) simp
next
  case (2 m i "is" ssrc pt h)
  have i: "i < length (peers h)" "get_peer h i = Inr (peers h ! i)"
    using "2.prems" by (auto simp: get_peer_def rd_def split: if_splits)
  show ?case
  proof (cases "peerconnection_state (peers h ! i) = kConnected")
    case False
    then show ?thesis using "2.prems" "2.IH"(1) i by (simp add: connected_def)
  next
    case True
    obtain s p where sp: "(if media_type m = kMediaVideo then (local_video_ssrc (peers h ! i), local_video_payloadtype (peers h ! i))
        else if media_type m = kMediaAudio then (local_audio_ssrc (peers h ! i), local_audio_payloadtype (peers h ! i))
        else (ssrc, pt)) = (s, p)" by (metis surj_pair)
    obtain f es where f: "MediaFrame (media_type m) (media_data m) (media_len m) (timestamp m) s p (rotate_angle m)
        (audio_frame_len m) = Inr f" "FeedMediaData f (peers h ! i) = Inr es" "cache_loop m is s p (emit es h) = Inr h'"
      using "2.prems" True i by (auto simp: sp bindR_eq_Inr_iff)
    obtain pc where pc: "peer_connection (peers h ! i) = Some pc" "es = [FeedMediaData_Call pc f]"
      using f(2) by (auto simp: FeedMediaData_def split: option.splits)
    have "\<exists>es'. h' = emit es' (emit es h) \<and> created es' = []
        \<and> list_all2 (\<lambda>j pc. peer_connection (peers h ! j) = Some pc) (filter (connected h) is) (fed es')"
      using "2.IH"(2) [OF _ sp [symmetric] refl f(3)] True by (simp add: connected_def [abs_def])
    then obtain es' where "h' = emit (es @ es') h" "created es' = []"
      "list_all2 (\<lambda>j pc. peer_connection (peers h ! j) = Some pc) (filter (connected h) is) (fed es')"
      by (auto simp: emit_emit)
    moreover have "connected h i" using True by (simp add: connected_def)
    ultimately show ?thesis using pc by (intro exI [of _ "es @ es'"]) simp
  qed
qed

lemma Media_simulated:
  assumes l: "linked s" and pc: "has_pc (srv s) i" and cls: "peer_class (peers (srv s) ! i) = Publisher"
    and r: "call_OnRecvMediaData b i m (srv s) = Inr v'"
  defines "s' \<equiv> s\<lparr>srv := v'\<rparr>"
  assumes ok: "system_ok s'"
  shows "linked s' \<and> sfu_step (sfu_view s) (Some i, fed (new_effects s s')) (sfu_view s')"
proof -
  let ?v = "srv s"
  have v: "server_ok ?v" "server_named ?v" using l by (simp_all add: linked_def system_ok_def)
  have i: "i < length (peers ?v)" using pc by (simp add: has_pc_def)
  obtain c where c: "peer_scache (peers ?v ! i) = Some c" "CacheMedia c m ?v = Inr v'"
    using r pc cls by (auto simp: call_OnRecvMediaData_def get_peer_has_pc Publisher_OnRecvMediaData_def
        split: option.splits)
  have clen: "c < length (scaches ?v)" using server_ok_peer [OF v(1) i] c(1) by (simp add: peer_ok_def)
  have made: "made_for ?v i c" using v(2) i c(1) by (simp add: server_named_def)
  let ?js = "filter (connected ?v) (players (scaches ?v ! c))"
  obtain es where es: "v' = emit es ?v" "created es = []"
    "list_all2 (\<lambda>j pc. peer_connection (peers ?v ! j) = Some pc) ?js (fed es)"
    using c(2) clen by (auto simp: CacheMedia_def get_scache_def dest!: cache_loop_feeds)
  have "alike es ?v v'" by (simp add: es alike_emit)
  note a = alike_step [OF this l, folded s'_def, OF ok]
  have "sfu_step (sfu_view s) (Some i, fed es) (sfu_view s)"
  proof (rule sfu_step.relay [where js = ?js])
    show "room_of (sfu_view s) i = Some (room_at (scaches ?v) c)"
      using i made by (simp add: room_of_def session_of_def rooms_of_def made_for_def)
    have "link (sessions (sfu_view s) ! k) = peer_connection (peers ?v ! k)" if "k \<in> set ?js" for k
      using server_ok_scache [OF v(1) clen] that by (simp add: scache_ok_def has_class_def session_of_def)
    then show "list_all2 (\<lambda>j pc. link (sessions (sfu_view s) ! j) = Some pc) ?js (fed es)"
      using es(3) unfolding list_all2_conv_all_nth by (metis nth_mem)
  qed (use i cls in \<open>simp_all add: session_of_def room_at_def\<close>)
  then show ?thesis using a by simp
qed

section \<open>The refinement\<close>

lemma quiet_simulated:
  assumes "linked s" "quietly (srv s) v'" "system_ok (s\<lparr>srv := v'\<rparr>)"
  shows "linked (s\<lparr>srv := v'\<rparr>) \<and> sfu_step (sfu_view s) (x, fed (new_effects s (s\<lparr>srv := v'\<rparr>))) (sfu_view (s\<lparr>srv := v'\<rparr>))"
proof -
  obtain es where es: "alike es (srv s) v'" "fed es = []" using assms(2) by (auto simp: quietly_def calm_def)
  from alike_step [OF es(1) assms(1,3)] show ?thesis by (simp add: es(2) sfu_step.quiet)
qed

lemma exec_simulated:
  assumes l: "linked s" and en: "enabled e s" and ex: "exec parse dump e s = Some (Inr s')"
  shows "linked s' \<and> sfu_step (sfu_view s) (source e, fed (new_effects s s')) (sfu_view s')"
proof -
  have sys: "system_ok s" and v: "server_ok (srv s)" using l by (simp_all add: linked_def system_ok_def)
  have ok: "system_ok s'" by (rule exec_keeps [OF sys en ex])
  have quiet: ?thesis if "step_srv s r = Inr s'" "\<And>v'. r = Inr v' \<Longrightarrow> quietly (srv s) v'" for r
    using that quiet_simulated [OF l, where x = "source e"] ok by (auto dest!: step_srv_InrD simp: step_srv_def bindR_eq_Inr_iff)
  note cb = callbacks_quiet [OF v]
  have tracks: ?thesis
    if "has_pc (srv s) i" "step_srv s (on_peer i f (srv s)) = Inr s'" "\<And>p. same_role p (f p)" for i f
    by (rule quiet [OF that(2)]) (rule tracks_quiet [OF that(1) _ that(3)])
  show ?thesis
  proof (cases e)
    case (Packet buf len addr)
    then have "packet_ok buf len addr" using en by (simp add: packet_ok_def)
    from OnRecvClientPkt_route [OF v this] show ?thesis
      using Packet ex by (intro quiet [of "Inr (route buf len addr (srv s))"]) (auto intro: route_quiet)
  next
    case (Publish body env)
    then show ?thesis using Publish_simulated [OF l ok] ex by simp
  next
    case (Play body env)
    then show ?thesis using Play_simulated [OF l ok] ex by simp
  next
    case (Finish k)
    then obtain v' where "finish (pending s ! k) (srv s) = Inr v'"
      and s': "s' = s\<lparr>srv := v', pending := drop_nth k (pending s)\<rparr>"
      using ex by (auto simp: bindR_eq_Inr_iff drop_nth_def)
    from Finish_simulated [OF l _ this(1)] show ?thesis using Finish en ok s' by simp
  next
    case (Media b i m)
    then have pc: "has_pc (srv s) i" and r: "step_srv s (call_OnRecvMediaData b i m (srv s)) = Inr s'"
      using en ex by simp_all
    show ?thesis
    proof (cases "peer_class (peers (srv s) ! i) = Publisher")
      case True
      obtain v' where v': "call_OnRecvMediaData b i m (srv s) = Inr v'" "s' = s\<lparr>srv := v'\<rparr>"
        using r by (auto simp: step_srv_def bindR_eq_Inr_iff)
      from Media_simulated [OF l pc True v'(1)] show ?thesis using Media ok v'(2) by simp
    qed (rule quiet [OF r], erule cb(6) [OF pc, rotated])
  next
    case (Http h url method_str body env page ret)
    then obtain out v' where "serve_http parse dump h url method_str body env page ret (srv s) = Inr (out, v')"
      "s' = s\<lparr>srv := v'\<rparr>"
      using ex by (auto simp: step_http_def bindR_eq_Inr_iff)
    then show ?thesis using Http en ok quiet_simulated [OF l http_quiet] by simp
  next
    case (Connection i st)
    then show ?thesis using en ex by (intro quiet [OF _ cb(1)]) simp_all
  next
    case (Ice_Connection i st)
    then show ?thesis using en ex by (intro quiet [OF _ cb(2)]) simp_all
  next
    case (IFrame_Request i)
    then show ?thesis using en ex by (intro quiet [OF _ cb(3)]) simp_all
  next
    case (Timer now)
    then show ?thesis using en ex by (intro quiet [OF _ cb(4)]) simp_all
  next
    case (Send_Data inet_pton i data n addr)
    then show ?thesis using en ex by (intro quiet [OF _ cb(5)]) simp_all
  qed (rule tracks [rotated 1], use ex in simp, use ex in \<open>simp add: same_role_def track_defs\<close>, use en in simp)+
qed

interpretation forwarding: simulation "sys_obs parse dump" sfu_step sfu_view linked for parse dump
  by unfold_locales (auto simp: sys_obs_def dest: exec_simulated)

lemma linked_initial: "linked initial" "sfu_view initial = sfu_start"
proof -
  have "system_ok initial" by (rule reachable_ok [OF reachable.start])
  then show "linked initial"
    by (simp add: linked_def server_named_def) (simp add: initial_def run_def RTCServer_def)
  show "sfu_view initial = sfu_start"
    by (simp add: sfu_view_def sfu_start_def rooms_of_def initial_def run_def RTCServer_def fun_eq_iff)
qed

text \<open>Reachable states are the ends of traces.\<close>

lemma sys_step_obs: "sys_step parse dump s s' \<longleftrightarrow> (\<exists>l. sys_obs parse dump s l s')"
  by (auto simp: sys_step_def sys_obs_def)

lemma runs_traces: "(sys_step parse dump)\<^sup>*\<^sup>* s s' \<Longrightarrow> \<exists>ls. trace (sys_obs parse dump) s ls s'"
proof (induction rule: rtranclp_induct)
  case (step s1 s2)
  then show ?case using sys_step_obs trace.more by metis
qed (auto intro: trace.stop)

lemma reachable_linked:
  assumes "reachable parse dump s"
  shows "linked s" "sfu_ok (sfu_view s)"
proof -
  obtain ls where tr: "trace (sys_obs parse dump) initial ls s"
    using runs_traces [OF assms [unfolded reachable_iff_runs]] by blast
  show "linked s" by (rule forwarding.trace_inv [OF tr linked_initial(1)])
  have "trace sfu_step sfu_start ls (sfu_view s)"
    using forwarding.trace_sim [OF tr linked_initial(1)] by (simp add: linked_initial(2))
  then show "sfu_ok (sfu_view s)" by (rule trace_preserves) (auto intro: sfu_ok_step sfu_ok_start)
qed

section \<open>Properties\<close>

text \<open>C2: the server implements the forwarding machine: every run of the server, whatever the interleaving of
  packets, requests, callbacks and timers, shows the same labels as a run of the machine that ends in
  the view of the server's state. So sessions enter the room that they were made for, a host is admitted
  only while there is none, and media is fed only to members of the audience, in its order.\<close>

theorem server_implements_sfu:
  assumes "trace (sys_obs parse dump) initial ls s"
  shows "trace sfu_step sfu_start ls (sfu_view s)"
  using forwarding.trace_sim [OF assms linked_initial(1)] by (simp add: linked_initial(2))

lemma demo_fed:
  obtains s s' f where "reachable demo_parse id s" "enabled (Media Written 0 demo_media) s"
    "exec demo_parse id (Media Written 0 demo_media) s = Some (Inr s')" "new_effects s s' = [FeedMediaData_Call 6 f]"
proof -
  have m: "media_ok demo_media" by (simp add: media_ok_def demo_media_def)
  obtain w es where w: "run_events demo_parse id [Publish ''s/cam'' (demo_env (Some 5)), Finish (length (pending initial)),
        Play ''s/cam'' (demo_env (Some 6)), Finish (length (pending initial)),
        Connection (Suc (length (peers (srv initial)))) kConnected] initial = Some (Inr (initial\<lparr>srv := w\<rparr>))"
    "peer_connection (peers w ! Suc (length (peers (srv initial)))) = Some 6" "has_pc w (length (peers (srv initial)))"
    "exec demo_parse id (Media Written (length (peers (srv initial))) demo_media) (initial\<lparr>srv := w\<rparr>)
       = Some (Inr (initial\<lparr>srv := emit [feed_call demo_media w (Suc (length (peers (srv initial))))] w\<rparr>))"
    by (rule whole_session [where parse = demo_parse and dump = id and body = "''s/cam''",
          OF reachable.start demo_parse_eq demo_url demo_initial(2) _ _ refl refl, of "demo_env (Some 5)" 5 "demo_env (Some 6)" 6])
      (use m in \<open>simp_all add: demo_env_def\<close>)
  show thesis
    by (rule that [OF run_events_reachable [OF w(1) reachable.start], where f = "frame_for demo_media (peers w ! 1)"
          and s' = "initial\<lparr>srv := emit [feed_call demo_media w 1] w\<rparr>"])
      (use w(2-4) in \<open>simp_all add: demo_initial new_effects_def feed_call_def del: exec.simps\<close>)
qed

theorem server_implements_sfu_witness:
  "\<exists>ls s. trace (sys_obs demo_parse id) initial (ls @ [(Some 0, [6])]) s
     \<and> trace sfu_step sfu_start (ls @ [(Some 0, [6])]) (sfu_view s)"
proof -
  obtain s s' f where s: "reachable demo_parse id s" "enabled (Media Written 0 demo_media) s"
    "exec demo_parse id (Media Written 0 demo_media) s = Some (Inr s')" "new_effects s s' = [FeedMediaData_Call 6 f]"
    by (rule demo_fed)
  obtain ls where ls: "trace (sys_obs demo_parse id) initial ls s"
    using runs_traces [OF s(1) [unfolded reachable_iff_runs]] by blast
  have "sys_obs demo_parse id s (Some 0, [6]) s'"
    unfolding sys_obs_def by (rule exI [of _ "Media Written 0 demo_media"]) (use s(2-4) in simp)
  from trace.more [OF ls this] server_implements_sfu [OF trace.more [OF ls this]] show ?thesis by blast
qed

text \<open>C7: media does not cross streams: whenever a step feeds media to a connection, the step is the arrival of
  media at a publisher, and the connection belongs to a player that was made for the stream name of that
  publisher.\<close>

theorem media_stays_in_stream:
  assumes "reachable parse dump s" "enabled e s" "exec parse dump e s = Some (Inr s')"
    and "FeedMediaData_Call pc f \<in> set (new_effects s s')"
  shows "\<exists>ok i m j. e = Media ok i m \<and> has_class (srv s) Publisher i \<and> j < length (peers (srv s))
    \<and> peer_class (peers (srv s) ! j) \<noteq> Publisher \<and> stream_of (srv s) j = stream_of (srv s) i
    \<and> peer_connection (peers (srv s) ! j) = Some pc"
proof -
  note l = reachable_linked [OF assms(1)]
  have "sfu_step (sfu_view s) (source e, fed (new_effects s s')) (sfu_view s')"
    using exec_simulated [OF l(1) assms(2,3)] by blast
  moreover have "pc \<in> set (fed (new_effects s s'))" using assms(4) by (force simp: fed_def)
  ultimately obtain i j n where s: "source e = Some i" "seated (sfu_view s) Host n i" "seated (sfu_view s) Guest n j"
    "link (sessions (sfu_view s) ! j) = Some pc"
    using sfu_isolation [OF l(2)] by blast
  have "\<exists>ok m. e = Media ok i m" using s(1) by (cases e) simp_all
  then show ?thesis using s(2-4) by (auto simp: seated_def session_of_def has_class_def split: if_splits)
qed

theorem media_stays_in_stream_witness:
  "\<exists>s s' f j. exec demo_parse id (Media Written 0 demo_media) s = Some (Inr s')
     \<and> FeedMediaData_Call 6 f \<in> set (new_effects s s') \<and> stream_of (srv s) j = stream_of (srv s) 0
     \<and> peer_connection (peers (srv s) ! j) = Some 6"
proof -
  obtain s s' f where s: "reachable demo_parse id s" "enabled (Media Written 0 demo_media) s"
    "exec demo_parse id (Media Written 0 demo_media) s = Some (Inr s')" "new_effects s s' = [FeedMediaData_Call 6 f]"
    by (rule demo_fed)
  have "FeedMediaData_Call 6 f \<in> set (new_effects s s')" using s(4) by simp
  from media_stays_in_stream [OF s(1-3) this] obtain j where "stream_of (srv s) j = stream_of (srv s) 0"
    "peer_connection (peers (srv s) ! j) = Some 6" by auto
  with \<open>FeedMediaData_Call 6 f \<in> set (new_effects s s')\<close> s(3) show ?thesis by blast
qed

text \<open>C19: nobody ever leaves: in every later state a stream still exists, still has a publisher if it had one,
  and its players are the earlier ones in the same order, followed by those that have joined since.\<close>

theorem streams_only_fill:
  assumes "reachable parse dump s" "(sys_step parse dump)\<^sup>*\<^sup>* s s'"
  shows "rooms_of (srv s) \<le> rooms_of (srv s')"
proof -
  obtain ls where "trace (sys_obs parse dump) s ls s'" using runs_traces [OF assms(2)] by blast
  from forwarding.trace_sim [OF this reachable_linked(1) [OF assms(1)]] show ?thesis
    using trace_rooms_fill by fastforce
qed

theorem streams_only_fill_witness:
  "\<exists>s s' r. reachable demo_parse id s \<and> exec demo_parse id (Timer (\<lambda>_. 9)) s = Some (Inr s')
     \<and> rooms_of (srv s) ''cam'' \<noteq> None \<and> rooms_of (srv s') ''cam'' = Some r \<and> host r \<noteq> None"
proof -
  obtain s s' c where s: "reachable demo_parse id s" "map_find (SarsPeersStreamIDMaps (srv s)) ''cam'' = Some c"
      "published (srv s) c 0"
    and s': "(sys_step demo_parse id)\<^sup>*\<^sup>* s s'" "exec demo_parse id (Timer (\<lambda>_. 9)) s = Some (Inr s')"
    by (rule demo_later)
  have r: "rooms_of (srv s) ''cam'' = Some (Room (Some 0) (players (scaches (srv s) ! c)))"
    using s(2,3) by (simp add: rooms_of_def room_at_def published_def)
  have "rooms_of (srv s) ''cam'' \<le> rooms_of (srv s') ''cam''"
    using streams_only_fill [OF s(1) s'(1)] by (simp add: le_fun_def)
  then show ?thesis using s(1) s'(2) r by (cases "rooms_of (srv s') ''cam''") (auto simp: less_eq_room_def)
qed

end
