(* ===== verification/Connection_Lifetime.thy ===== *)
theory Connection_Lifetime
  imports Sfu_View
begin

text \<open>
  The lifetime of the connections that the WebRTC core hands out. A peer owns its connection and deletes
  it in its destructor, after which no code of the server may use it. The server's use of connections is
  its trace of effects, so that the absence of a use after the deletion, and of a second deletion, is a
  property of the trace. It holds because every effect names a connection that some peer holds at that
  moment, because no two peers hold the same one, and because the peer that deletes one holds it no more.
\<close>

section \<open>Traces\<close>

fun named_by :: "effect \<Rightarrow> nat list" where
  "named_by (AddLocalVideoTrack_Call pc ssrc l) = [pc]"
| "named_by (AddLocalAudioTrack_Call pc ssrc l) = [pc]"
| "named_by (SetRemoteDescription_Call pc sdp) = [pc]"
| "named_by (CreateAnswer_Call pc h p) = [pc]"
| "named_by (ProcessRemoteData pc pkt addr) = [pc]"
| "named_by (FeedMediaData_Call pc m) = [pc]"
| "named_by (RequestIFrame_Call pc ssrc) = [pc]"
| "named_by (OnTime_Call pc now) = [pc]"
| "named_by (Delete_PC pc) = [pc]"
| "named_by _ = []"

fun deleted_by :: "effect \<Rightarrow> nat list" where
  "deleted_by (Delete_PC pc) = [pc]"
| "deleted_by _ = []"

definition named :: "effect list \<Rightarrow> nat list" where
  "named es = concat (map named_by es)"

definition deleted :: "effect list \<Rightarrow> nat list" where
  "deleted es = concat (map deleted_by es)"

text \<open>Nothing names a connection after its deletion, not even another deletion.\<close>

fun lifetimes_respected :: "effect list \<Rightarrow> bool" where
  "lifetimes_respected [] = True"
| "lifetimes_respected (e # es) = ((\<forall>pc\<in>set (deleted_by e). pc \<notin> set (named es)) \<and> lifetimes_respected es)"

lemma named_simps [simp]: "named [] = []" "named (e # es) = named_by e @ named es" "named (es @ es') = named es @ named es'"
  by (simp_all add: named_def)

lemma deleted_simps [simp]:
  "deleted [] = []" "deleted (e # es) = deleted_by e @ deleted es" "deleted (es @ es') = deleted es @ deleted es'"
  by (simp_all add: deleted_def)

lemma lifetimes_append:
  "lifetimes_respected (es @ es') \<longleftrightarrow>
     lifetimes_respected es \<and> lifetimes_respected es' \<and> set (deleted es) \<inter> set (named es') = {}"
  by (induction es) auto

lemma lifetimes_no_deletion: "deleted es = [] \<Longrightarrow> lifetimes_respected es"
  by (induction es) auto

section \<open>The invariant\<close>

definition conns :: "server \<Rightarrow> nat option list" where
  "conns v = map peer_connection (peers v)"

definition held :: "nat option list \<Rightarrow> nat set" where
  "held cs = {pc. Some pc \<in> set cs}"

definition one_owner :: "nat option list \<Rightarrow> bool" where
  "one_owner cs \<longleftrightarrow> (\<forall>i j pc. i < length cs \<longrightarrow> j < length cs \<longrightarrow> cs ! i = Some pc \<longrightarrow> cs ! j = Some pc \<longrightarrow> i = j)"

definition owned_once :: "nat option list \<Rightarrow> effect list \<Rightarrow> bool" where
  "owned_once cs es \<longleftrightarrow>
     lifetimes_respected es \<and> one_owner cs \<and> held cs \<subseteq> set (named es) \<and> held cs \<inter> set (deleted es) = {}"

text \<open>The three ways in which the connections and the trace change: calls on connections that are held, a
  new connection, and the deletion of one that is held.\<close>

lemma owned_once_calls:
  assumes "owned_once cs es" "set (named es') \<subseteq> held cs" "deleted es' = []"
  shows "owned_once cs (es @ es')"
  using assms by (auto simp: owned_once_def lifetimes_append lifetimes_no_deletion)

lemma owned_once_new:
  assumes "owned_once cs es" "set (named es') = set_option l" "deleted es' = []"
    and fresh: "set_option l \<inter> set (named es) = {}"
  shows "owned_once (cs @ [l]) (es @ es')"
proof -
  have deleted: "set (deleted es) \<subseteq> set (named es)" for es
  proof (induction es)
    case (Cons e es)
    have "set (deleted_by e) \<subseteq> set (named_by e)" by (cases e) simp_all
    with Cons show ?case by auto
  qed simp
  have old: "one_owner cs" "held cs \<subseteq> set (named es)" using assms(1) by (simp_all add: owned_once_def)
  have "cs ! i \<noteq> l" if "i < length cs" "l = Some pc" for i pc
  proof
    assume "cs ! i = l"
    then have "pc \<in> held cs" using that by (auto simp: held_def in_set_conv_nth intro: exI [of _ i])
    then show False using old(2) fresh that(2) by auto
  qed
  then have "one_owner (cs @ [l])" using old(1) by (auto simp: one_owner_def nth_append less_Suc_eq)
  then show ?thesis
    using assms deleted [of es] by (auto simp: owned_once_def lifetimes_append lifetimes_no_deletion held_def)
qed

lemma owned_once_delete:
  assumes "owned_once cs es" "j < length cs" "cs ! j = Some pc"
  shows "owned_once (cs[j := None]) (es @ [Delete_PC pc])"
proof -
  have one: "one_owner cs" using assms(1) by (simp add: owned_once_def)
  have "pc \<in> held cs" using assms(2,3) by (auto simp: held_def in_set_conv_nth)
  moreover have "held (cs[j := None]) \<subseteq> held cs - {pc}"
  proof
    fix x assume "x \<in> held (cs[j := None])"
    then obtain k where k: "k < length cs" "cs[j := None] ! k = Some x" by (auto simp: held_def in_set_conv_nth)
    then have "k \<noteq> j" "cs ! k = Some x" using assms(2) by (auto simp: nth_list_update split: if_splits)
    then show "x \<in> held cs - {pc}"
      using one k(1) assms(2,3) by (auto simp: one_owner_def held_def in_set_conv_nth)
  qed
  moreover have "one_owner (cs[j := None])" using one assms(2) by (auto simp: one_owner_def nth_list_update split: if_splits)
  ultimately show ?thesis using assms(1) by (auto simp: owned_once_def lifetimes_append)
qed

definition lifetimes_ok :: "server \<Rightarrow> bool" where
  "lifetimes_ok v \<longleftrightarrow> owned_once (conns v) (effects v)"

section \<open>Calls on connections that are held\<close>

definition only_held :: "server \<Rightarrow> server \<Rightarrow> bool" where
  "only_held v v' \<longleftrightarrow>
     conns v' = conns v \<and> (\<exists>es. effects v' = effects v @ es \<and> set (named es) \<subseteq> held (conns v) \<and> deleted es = [])"

lemma only_held_ok: "lifetimes_ok v \<Longrightarrow> only_held v v' \<Longrightarrow> lifetimes_ok v'"
  by (auto simp: lifetimes_ok_def only_held_def owned_once_calls)

lemma only_held_trans: "only_held v v' \<Longrightarrow> only_held v' v'' \<Longrightarrow> only_held v v''"
  unfolding only_held_def by force

lemma only_held_same: "conns v' = conns v \<Longrightarrow> effects v' = effects v \<Longrightarrow> only_held v v'"
  by (simp add: only_held_def)

lemma only_held_refl [simp]: "only_held v v"
  by (simp add: only_held_same)

lemma conns_simps [simp]:
  "conns (emit es v) = conns v" "conns (set_scache c s v) = conns v" "conns (v\<lparr>leaked := n\<rparr>) = conns v"
  "conns (v\<lparr>SarsPeersAddrMaps := m\<rparr>) = conns v" "length (conns v) = length (peers v)"
  "conns (set_peer i p v) = (conns v)[i := peer_connection p]"
  by (simp_all add: conns_def map_update)

lemma conns_nth [simp]: "i < length (peers v) \<Longrightarrow> conns v ! i = peer_connection (peers v ! i)"
  by (simp add: conns_def)

lemma only_held_emit: "set (named es) \<subseteq> held (conns v) \<Longrightarrow> deleted es = [] \<Longrightarrow> only_held v (emit es v)"
  by (simp add: only_held_def)

lemma only_held_set_peer:
  "i < length (peers v) \<Longrightarrow> peer_connection q = peer_connection (peers v ! i) \<Longrightarrow> only_held v (set_peer i q v)"
  using list_update_id [of "conns v" i] by (simp add: only_held_def)

lemma get_peer_held: "get_peer v i = Inr p \<Longrightarrow> peer_connection p = Some pc \<Longrightarrow> pc \<in> held (conns v)"
  by (auto simp: get_peer_def rd_def held_def conns_def split: if_splits
      intro: rev_image_eqI [OF nth_mem])

lemma request_iframe_held: "request_iframe_of_publisher i v = Inr v' \<Longrightarrow> only_held v v'"
  by (auto simp: request_iframe_of_publisher_def RequestIFrame_def bindR_eq_Inr_iff get_peer_held
      split: option.splits intro!: only_held_emit)

lemma cache_loop_held: "cache_loop m is ssrc pt v = Inr v' \<Longrightarrow> only_held v v'"
proof (induction m "is" ssrc pt v rule: cache_loop.induct)
  case (1 m ssrc pt v)
  then show ?case by (simp add: only_held_same)
next
  case (2 m i "is" ssrc pt v)
  have step: "only_held v (emit es v)" if "get_peer v i = Inr p" "FeedMediaData f p = Inr es" for p f es
    using that by (auto simp: FeedMediaData_def get_peer_held split: option.splits intro!: only_held_emit)
  from 2 show ?case
    by (fastforce simp: Let_def split: if_splits prod.splits intro: only_held_trans step)
qed

lemma timer_loop_held: "timer_loop now is v = Inr v' \<Longrightarrow> only_held v v'"
proof (induction "is" arbitrary: v)
  case (Cons i "is")
  then obtain p where p: "get_peer v i = Inr p" "timer_loop now is (emit (OnTimer (now i) p) v) = Inr v'"
    by (auto simp: bindR_eq_Inr_iff)
  have "only_held v (emit (OnTimer (now i) p) v)"
    using p(1) by (auto simp: OnTimer_def get_peer_held split: option.splits intro!: only_held_emit)
  from only_held_trans [OF this Cons.IH [OF p(2)]] show ?case .
qed (simp add: only_held_same)

lemma route_held:
  assumes "server_ok v"
  shows "only_held v (route buf len addr v)"
proof (cases "target buf len (addr_key addr) v")
  case (Some j)
  note t = target_peer [OF assms Some]
  let ?v1 = "v\<lparr>SarsPeersAddrMaps := map_emplace (addr_key addr) j (SarsPeersAddrMaps v)\<rparr>"
  let ?v2 = "set_peer j ((peers v ! j)\<lparr>remote_addr := Some (sender_addr addr)\<rparr>) ?v1"
  have "only_held v ?v1" by (rule only_held_same) simp_all
  moreover have "only_held ?v1 ?v2" using t(1) by (intro only_held_set_peer) simp_all
  moreover obtain pc where pc: "peer_connection (peers v ! j) = Some pc" using t(3) by blast
  have "get_peer v j = Inr (peers v ! j)" using t(1) by (simp add: get_peer_def)
  from get_peer_held [OF this pc]
  have "only_held ?v2 (accept buf len addr j v)"
    unfolding accept_def using t(1) pc list_update_id [of "conns v" j] by (intro only_held_emit) simp_all
  ultimately show ?thesis using Some by (auto simp: route_def intro: only_held_trans)
qed (simp add: route_def only_held_same)

lemma http_held:
  assumes "serve_http parse dump h url method_str body env page ret v = Inr (out, v')"
    and "h = DefaultHandler \<or> method_str \<noteq> ''POST''"
  shows "only_held v v'"
proof -
  obtain es n where v': "v' = emit es (v\<lparr>leaked := n\<rparr>)" and es: "list_all is_response es"
    using serve_http_emits [OF assms] by blast
  have "named_by e = [] \<and> deleted_by e = []" if "is_response e" for e using that by (cases e) simp_all
  then have "named es = [] \<and> deleted es = []" using es by (induction es) simp_all
  then show ?thesis
    unfolding v' by (intro only_held_trans [OF only_held_same only_held_emit]) simp_all
qed

lemma callbacks_held:
  assumes ok: "server_ok v"
  shows "call_OnConnectionChange i st v = Inr v' \<Longrightarrow> only_held v v'"
    and "call_OnIceConnectionChange i ist v = Inr v' \<Longrightarrow> only_held v v'"
    and "call_OnRecvMediaData b i m v = Inr v' \<Longrightarrow> only_held v v'"
    and "call_OnRequestIFrame i v = Inr v' \<Longrightarrow> only_held v v'"
    and "timer_round now v = Inr v' \<Longrightarrow> only_held v v'"
    and "call_OnSendDataToRemote inet_pton i data n addr v = Inr v' \<Longrightarrow> only_held v v'"
    and "on_peer i f v = Inr v' \<Longrightarrow> (\<And>p. same_role p (f p)) \<Longrightarrow> only_held v v'"
proof -
  have set: "only_held v (set_peer i q v)"
    if "get_peer v i = Inr p" "peer_connection q = peer_connection p" for p q
    using that by (auto simp: get_peer_def rd_def split: if_splits intro: only_held_set_peer)
  have iframe: "only_held v v'"
    if "request_iframe_of_publisher i (set_peer i q v) = Inr v'" "get_peer v i = Inr p" "peer_connection q = peer_connection p"
    for p q
    by (rule only_held_trans [OF set [OF that(2,3)] request_iframe_held [OF that(1)]])
  show "only_held v v'" if "call_OnConnectionChange i st v = Inr v'"
    using that
    by (auto simp: call_OnConnectionChange_def Player_OnConnectionChange_def OnConnectionChange_def Let_def
        bindR_eq_Inr_iff split: if_splits intro: set dest: iframe)
  show "only_held v v'" if "call_OnIceConnectionChange i ist v = Inr v'"
    using that by (auto simp: call_OnIceConnectionChange_def OnIceConnectionChange_def bindR_eq_Inr_iff
        split: if_splits intro: set)
  show "only_held v v'" if r: "call_OnRecvMediaData b i m v = Inr v'"
  proof -
    obtain p where p: "get_peer v i = Inr p" using r by (auto simp: call_OnRecvMediaData_def bindR_eq_Inr_iff)
    then have "fp_h264 p = None"
      using server_ok_peer [OF ok, of i] by (auto simp: get_peer_def rd_def peer_ok_def split: if_splits)
    then have "OnRecvMediaData b m p = Inr (p, [])" by (rule OnRecvMediaData_no_dump)
    with r p set [OF p, of p] show ?thesis
      by (auto simp: call_OnRecvMediaData_def Publisher_OnRecvMediaData_def CacheMedia_def bindR_eq_Inr_iff
          split: if_splits option.splits dest: cache_loop_held)
  qed
  show "only_held v v'" if "call_OnRequestIFrame i v = Inr v'"
    using that by (auto simp: call_OnRequestIFrame_def Player_OnRequestIFrame_def bindR_eq_Inr_iff
        split: if_splits dest: request_iframe_held)
  show "only_held v v'" if "timer_round now v = Inr v'"
    using that by (simp add: timer_round_def timer_loop_held)
  show "only_held v v'" if "call_OnSendDataToRemote inet_pton i data n addr v = Inr v'"
    using that by (auto simp: call_OnSendDataToRemote_def Server_SendPktToClient_def bindR_eq_Inr_iff
        split: if_splits intro: only_held_emit)
  show "only_held v v'" if "on_peer i f v = Inr v'" "\<And>p. same_role p (f p)"
    using that by (auto simp: on_peer_def same_role_def bindR_eq_Inr_iff intro: set)
qed

section \<open>Connections are made and deleted\<close>

lemma CreateRtcPeer_names:
  assumes "i < length (peers v)" "peers v ! i = RtcPeer cls"
    and "CreateRtcPeer i n offer True env v = Inr (ret, answer, v')"
  shows "\<exists>es. effects v' = effects v @ es \<and> set (named es) = set_option (env_pc env) \<and> deleted es = []"
  using assms(3) unfolding CreateRtcPeer_eq [OF assms(1,2)]
  by (auto simp: Let_def bindR_eq_Inr_iff offered_def split: option.splits)

definition makes_connection :: "nat option \<Rightarrow> server \<Rightarrow> server \<Rightarrow> bool" where
  "makes_connection l v v' \<longleftrightarrow> conns v' = conns v @ [l]
     \<and> (\<exists>es. effects v' = effects v @ es \<and> set (named es) = set_option l \<and> deleted es = [])"

lemma makes_connection_ok:
  "lifetimes_ok v \<Longrightarrow> makes_connection l v v' \<Longrightarrow> set_option l \<inter> set (named (effects v)) = {} \<Longrightarrow> lifetimes_ok v'"
  unfolding lifetimes_ok_def makes_connection_def using owned_once_new [of "conns v" "effects v" _ l] by auto

lemma new_session_makes:
  assumes ok: "server_ok v" and n: "new_peer cls v = (i, v1)"
    and r: "CreateRtcPeer i sid offer True env v1 = Inr (ret, answer, v')"
  shows "makes_connection (env_pc env) v (write_answer dump answer v')"
proof -
  note new = server_ok_new_peer [OF ok n]
  have "effects v1 = effects v" using n by (auto simp: new_peer_def)
  with CreateRtcPeer_names [OF new(3,4) r] new_peer_adds [OF ok n r] show ?thesis
    by (auto simp: makes_connection_def adds_session_def conns_def write_answer_def Let_def)
qed

lemma CreateRtcPublisher_makes:
  "server_ok v \<Longrightarrow> CreateRtcPublisher n offer env v = Inr (i, answer, v') \<Longrightarrow>
     makes_connection (env_pc env) v (write_answer dump answer v')"
  by (auto simp: CreateRtcPublisher_def bindR_eq_Inr_iff split: prod.splits intro: new_session_makes)

lemma CreateRtcPlayer_makes:
  "server_ok v \<Longrightarrow> CreateRtcPlayer n offer env v = Inr (i, answer, v') \<Longrightarrow>
     makes_connection (env_pc env) v (write_answer dump answer v')"
  by (auto simp: CreateRtcPlayer_def bindR_eq_Inr_iff split: prod.splits intro: new_session_makes)

lemma open_stream_held: "GetOrCreateStreamCache n v = (c, v') \<Longrightarrow> only_held v v'"
  by (auto simp: GetOrCreateStreamCache_def new_scache_def conns_def split: option.splits intro!: only_held_same)

lemma begin_lifetimes:
  assumes ok: "server_ok v" and life: "lifetimes_ok v" and fresh: "set_option (env_pc env) \<inter> set (named (effects v)) = {}"
  shows "publish_begin parse dump body env v = Inr (out, v') \<Longrightarrow> lifetimes_ok v'"
    and "play_begin parse dump body env v = Inr (out, v') \<Longrightarrow> lifetimes_ok v'"
proof -
  have opened: "lifetimes_ok v1 \<and> server_ok v1 \<and> effects v1 = effects v" if g: "GetOrCreateStreamCache n v = (c, v1)" for n c v1
    using only_held_ok [OF life open_stream_held [OF g]] GetOrCreateStreamCache_ok(1) [OF ok g] g
    by (auto simp: GetOrCreateStreamCache_def new_scache_def split: option.splits)
  show "lifetimes_ok v'" if b: "publish_begin parse dump body env v = Inr (out, v')"
  proof (cases rule: publish_begin_cases [OF ok b])
    case (2 offer url sid c v1 i answer v2)
    show ?thesis
      unfolding 2(7) using makes_connection_ok [OF _ CreateRtcPublisher_makes [OF _ 2(5)]] opened [OF 2(3)] fresh by simp
  qed (use opened in simp)
  show "lifetimes_ok v'" if b: "play_begin parse dump body env v = Inr (out, v')"
  proof (cases rule: play_begin_cases [OF ok b])
    case (2 offer url sid c v1 i answer v2)
    show ?thesis
      unfolding 2(7) using makes_connection_ok [OF _ CreateRtcPlayer_makes [OF _ 2(5)]] opened [OF 2(3)] fresh by simp
  qed (use opened in simp)
qed

lemma destroyed_lifetimes:
  assumes "lifetimes_ok v" "j < length (peers v)"
  shows "lifetimes_ok (destroyed j v)"
proof (cases "peer_connection (peers v ! j)")
  case None
  then have "(conns v)[j := None] = conns v" using assms(2) list_update_id [of "conns v" j] by simp
  then show ?thesis using assms None by (simp add: lifetimes_ok_def destroyed_def RtcPeer_def)
next
  case (Some pc)
  then show ?thesis
    using owned_once_delete [of "conns v" "effects v" j pc] assms
    by (simp add: lifetimes_ok_def destroyed_def RtcPeer_def)
qed

lemma finish_lifetimes:
  assumes ok: "server_ok v" and r: "request_ok v r" and life: "lifetimes_ok v" and f: "finish r v = Inr v'"
  shows "lifetimes_ok v'"
proof (cases r)
  case (Pending_Publish i c)
  then have i: "has_class v Publisher i" and c: "c < length (scaches v)" using r by simp_all
  note p = publish_finish_eq [OF ok i c]
  have old: "j < length (peers v)" if "publisher (scaches v ! c) = Some j" for j
    using server_ok_scache [OF ok c] that by (simp add: scache_ok_def has_class_def)
  define v1 where "v1 = set_scache c ((scaches v ! c)\<lparr>CanPublish := False, publisher := Some i\<rparr>) v"
  have v1: "lifetimes_ok v1" "peers v1 = peers v" using life by (simp_all add: lifetimes_ok_def v1_def)
  have "lifetimes_ok (destroyed j v1)" if "publisher (scaches v ! c) = Some j" for j
    using destroyed_lifetimes [OF v1(1)] old [OF that] v1(2) by simp
  then have "lifetimes_ok (republished i c v)"
    using v1(1) by (simp add: republished_def Let_def flip: v1_def split: option.split)
  moreover have "only_held (republished i c v) v'"
    using f p(1,4) i by (auto simp: Pending_Publish finish_def has_class_def intro!: only_held_set_peer)
  ultimately show ?thesis by (rule only_held_ok)
next
  case (Pending_Play i c)
  then have "i < length (peers v)" "c < length (scaches v)" using r by (simp_all add: has_class_def)
  then have "only_held v v'"
    using f list_update_id [of "conns v" i]
    by (auto simp: Pending_Play finish_def play_finish_def AddPlayer_def SetStreamCache_def get_scache_def get_peer_def
        intro!: only_held_same)
  from only_held_ok [OF life this] show ?thesis .
qed

section \<open>Runs\<close>

text \<open>The core hands out a connection that the program has not seen yet.\<close>

fun fresh_connection :: "event \<Rightarrow> system \<Rightarrow> bool" where
  "fresh_connection (Publish body env) s \<longleftrightarrow> set_option (env_pc env) \<inter> set (named (effects (srv s))) = {}"
| "fresh_connection (Play body env) s \<longleftrightarrow> set_option (env_pc env) \<inter> set (named (effects (srv s))) = {}"
| "fresh_connection _ s \<longleftrightarrow> True"

definition fresh_step ::
  "(string \<Rightarrow> (string \<times> string) option) \<Rightarrow> (string \<Rightarrow> string) \<Rightarrow> system \<Rightarrow> system \<Rightarrow> bool" where
  "fresh_step parse dump s s' \<longleftrightarrow>
     (\<exists>e. enabled e s \<and> fresh_connection e s \<and> exec parse dump e s = Some (Inr s'))"

definition system_lives :: "system \<Rightarrow> bool" where
  "system_lives s \<longleftrightarrow> system_ok s \<and> lifetimes_ok (srv s)"

lemma exec_lifetimes:
  assumes s: "system_lives s" and en: "enabled e s" "fresh_connection e s" and ex: "exec parse dump e s = Some (Inr s')"
  shows "lifetimes_ok (srv s')"
proof -
  have v: "server_ok (srv s)" and life: "lifetimes_ok (srv s)" and sys: "system_ok s"
    using s by (simp_all add: system_lives_def system_ok_def)
  note cb = callbacks_held [OF v, THEN only_held_ok [OF life]]
  show ?thesis
  proof (cases e)
    case (Packet buf len addr)
    then have "packet_ok buf len addr" using en by (simp add: packet_ok_def)
    from OnRecvClientPkt_route [OF v this] only_held_ok [OF life route_held [OF v]] show ?thesis
      using Packet ex by (auto dest!: step_srv_InrD)
  next
    case (Publish body env)
    then show ?thesis using ex en begin_lifetimes(1) [OF v life] by (auto dest!: step_begin_InrD)
  next
    case (Play body env)
    then show ?thesis using ex en begin_lifetimes(2) [OF v life] by (auto dest!: step_begin_InrD)
  next
    case (Finish k)
    then have "request_ok (srv s) (pending s ! k)" using sys en by (auto simp: system_ok_def)
    from finish_lifetimes [OF v this life] show ?thesis using Finish ex by (auto simp: bindR_eq_Inr_iff)
  next
    case (Http h url method_str body env page ret)
    then show ?thesis using ex en only_held_ok [OF life http_held] by (auto simp: step_http_def bindR_eq_Inr_iff)
  qed (use ex in \<open>auto dest!: step_srv_InrD intro: cb simp: same_role_def track_defs\<close>)
qed

interpretation lifetime: step_relation "fresh_step parse dump" system_lives permanent for parse dump
proof
  show "system_lives s'" if "system_lives s" "fresh_step parse dump s s'" for s s'
    using that exec_lifetimes exec_keeps by (auto simp: fresh_step_def system_lives_def)
  show "permanent s s'" if "system_lives s" "fresh_step parse dump s s'" for s s'
    using that exec_maps_extend exec_grows by (auto simp: fresh_step_def system_lives_def permanent_def)
qed (rule runs.rel_refl, rule runs.rel_trans)

text \<open>Runs by their events.\<close>

fun fresh_run ::
  "(string \<Rightarrow> (string \<times> string) option) \<Rightarrow> (string \<Rightarrow> string) \<Rightarrow> event list \<Rightarrow> system \<Rightarrow> system option" where
  "fresh_run parse dump [] s = Some s"
| "fresh_run parse dump (e # es) s =
     (if enabled e s \<and> fresh_connection e s
      then (case exec parse dump e s of Some (Inr s') \<Rightarrow> fresh_run parse dump es s' | _ \<Rightarrow> None)
      else None)"

lemma fresh_run_steps: "fresh_run parse dump es s = Some s' \<Longrightarrow> (fresh_step parse dump)\<^sup>*\<^sup>* s s'"
proof (induction es arbitrary: s)
  case (Cons e es)
  then obtain s1 where "fresh_step parse dump s s1" "fresh_run parse dump es s1 = Some s'"
    by (auto simp: fresh_step_def split: if_splits option.splits sum.splits)
  then show ?case using Cons.IH by (blast intro: converse_rtranclp_into_rtranclp)
qed simp

lemma fresh_runs_reachable: "(fresh_step parse dump)\<^sup>*\<^sup>* initial s \<Longrightarrow> reachable parse dump s"
  by (induction rule: rtranclp_induct) (auto simp: fresh_step_def intro: reachable.intros)

lemma fresh_runs_own_once:
  assumes "(fresh_step parse dump)\<^sup>*\<^sup>* initial s"
  shows "owned_once (conns (srv s)) (effects (srv s))"
proof -
  have "effects (srv initial) = []" "peers (srv initial) = []" by (simp_all add: initial_def run_def RTCServer_def)
  then have "system_lives initial"
    using reachable_ok [OF reachable.start]
    by (simp add: system_lives_def lifetimes_ok_def owned_once_def one_owner_def held_def conns_def)
  from lifetime.inv_runs [OF assms this] show ?thesis by (simp add: system_lives_def lifetimes_ok_def)
qed

section \<open>Properties\<close>

text \<open>C6: no use after free of a connection: while the core hands out connections that the program has not seen
  yet, no run of the server, whatever the interleaving, calls a connection after it has deleted it, or
  deletes one twice, and no peer still holds a connection that was deleted.\<close>

theorem no_use_after_delete:
  assumes "(fresh_step parse dump)\<^sup>*\<^sup>* initial s"
  shows "lifetimes_respected (effects (srv s))
    \<and> (\<forall>i pc. i < length (peers (srv s)) \<longrightarrow> peer_connection (peers (srv s) ! i) = Some pc
         \<longrightarrow> pc \<notin> set (deleted (effects (srv s))))"
proof -
  have "pc \<in> held (conns (srv s))"
    if "i < length (peers (srv s))" "peer_connection (peers (srv s) ! i) = Some pc" for i pc
    by (rule get_peer_held [of _ i]) (use that in \<open>simp_all add: get_peer_def\<close>)
  with fresh_runs_own_once [OF assms] show ?thesis by (auto simp: owned_once_def)
qed

text \<open>Two publish requests for one stream under the same user name, which end in the other order: the second peer
  is not registered, and is destroyed when the first one replaces it.\<close>

lemmas demo_run_defs = initial_def run_def RTCServer_def demo_parse_def publish_begin_def play_begin_def demo_url
  GetOrCreateStreamCache_def new_scache_def CreateRtcPublisher_def CreateRtcPlayer_def new_peer_def
  CreateRtcPeer_eq demo_env_def demo_offer_def get_scache_def StreamCache_def Let_def offered_def step_begin_def
  write_answer_def finish_def publish_finish_def play_finish_def SetPublisher_def AddPlayer_def SetStreamCache_def
  release_peer_def owned_def get_peer_def map_values_def RtcPeer_destroy_def RtcPeer_def WriteH264FileStop_def
  size_to_int32_def

lemma demo_deletion:
  "\<exists>s. fresh_run demo_parse id [Publish ''s/cam'' (demo_env (Some 5)), Publish ''s/cam'' (demo_env (Some 6)),
       Finish 1, Finish 0] initial = Some s
     \<and> deleted (effects (srv s)) = [6] \<and> peer_connection (peers (srv s) ! 0) = Some 5"
  using demo_ufrag [of "CHR ''r''"] demo_ufrag [of "CHR ''l''"] by (simp add: demo_run_defs)

theorem no_use_after_delete_witness:
  "\<exists>s. (fresh_step demo_parse id)\<^sup>*\<^sup>* initial s \<and> deleted (effects (srv s)) = [6]
     \<and> lifetimes_respected (effects (srv s)) \<and> peer_connection (peers (srv s) ! 0) = Some 5"
proof -
  obtain s where s: "(fresh_step demo_parse id)\<^sup>*\<^sup>* initial s" "deleted (effects (srv s)) = [6]"
    "peer_connection (peers (srv s) ! 0) = Some 5"
    using demo_deletion fresh_run_steps by blast
  from no_use_after_delete [OF s(1)] s show ?thesis by blast
qed

end
