(* ===== verification/Delivery.thy ===== *)
theory Delivery
  imports Sfu_Refinement Connection_Lifetime
begin

text \<open>
  What the refinement and the lifetimes give together: the forwarding machine seats every session at most
  once, and no two peers share a connection, so that a media unit reaches a connection at most once.
\<close>

lemma reachable_single_seats:
  assumes "reachable parse dump s"
  shows "single_seats (sfu_view s)"
proof -
  obtain ls where tr: "trace (sys_obs parse dump) initial ls s"
    using runs_traces [OF assms [unfolded reachable_iff_runs]] by blast
  have "trace sfu_step sfu_start ls (sfu_view s)"
    using forwarding.trace_sim [OF tr linked_initial(1)] by (simp add: linked_initial(2))
  moreover have "single_seats sfu_start" by (simp add: single_seats_def sfu_ok_start) (simp add: sfu_start_def)
  ultimately show ?thesis using trace_preserves [of sfu_step] single_seats_step by metis
qed

lemma owned_once_links: "owned_once (conns (srv s)) es \<Longrightarrow> links_unique (sfu_view s)"
  by (auto simp: owned_once_def one_owner_def links_unique_def session_of_def)

section \<open>Properties\<close>

text \<open>C8: no duplicates: while the core hands out connections that the program has not seen yet, a step of the
  server feeds no connection twice; so no player gets a media unit of the publisher more than once. The
  freshness of connections is the condition of \<open>fresh_step\<close>, the only one beside the run itself.\<close>

theorem media_fed_once:
  assumes "(fresh_step parse dump)\<^sup>*\<^sup>* initial s" "enabled e s" "exec parse dump e s = Some (Inr s')"
  shows "distinct (fed (new_effects s s'))"
proof -
  note r = fresh_runs_reachable [OF assms(1)]
  have "sfu_step (sfu_view s) (source e, fed (new_effects s s')) (sfu_view s')"
    using exec_simulated [OF reachable_linked(1) [OF r] assms(2,3)] by blast
  from sfu_feeds_once [OF reachable_single_seats [OF r] owned_once_links [OF fresh_runs_own_once [OF assms(1)]] this]
  show ?thesis .
qed

lemma demo_two_players:
  "\<exists>s s'. fresh_run demo_parse id [Publish ''s/cam'' (demo_env (Some 5)), Finish 0, Play ''s/cam'' (demo_env (Some 6)),
       Finish 0, Play ''s/cam'' (demo_env (Some 7)), Finish 0, Connection 1 kConnected, Connection 2 kConnected]
       initial = Some s
     \<and> enabled (Media Written 0 demo_media) s \<and> exec demo_parse id (Media Written 0 demo_media) s = Some (Inr s')
     \<and> fed (new_effects s s') = [6, 7]"
  using demo_ufrag [of "CHR ''r''"] demo_ufrag [of "CHR ''l''"]
  by (simp add: demo_run_defs has_pc_def step_srv_def call_OnConnectionChange_def Player_OnConnectionChange_def
      request_iframe_of_publisher_def RequestIFrame_def call_OnRecvMediaData_def Publisher_OnRecvMediaData_def
      CacheMedia_def MediaFrame_def FeedMediaData_def demo_media_def new_effects_def)

theorem media_fed_once_witness:
  "\<exists>s s'. (fresh_step demo_parse id)\<^sup>*\<^sup>* initial s \<and> exec demo_parse id (Media Written 0 demo_media) s = Some (Inr s')
     \<and> fed (new_effects s s') = [6, 7] \<and> distinct (fed (new_effects s s'))"
proof -
  obtain s s' where s: "(fresh_step demo_parse id)\<^sup>*\<^sup>* initial s" "enabled (Media Written 0 demo_media) s"
    "exec demo_parse id (Media Written 0 demo_media) s = Some (Inr s')" "fed (new_effects s s') = [6, 7]"
    using demo_two_players fresh_run_steps by blast
  from media_fed_once [OF s(1-3)] s show ?thesis by blast
qed

end
