(* ===== verification/Stun_Auth.thy ===== *)
theory Stun_Auth
  imports Stun_Roundtrip
begin

text \<open>
  \<open>Stun::CheckAuthentication\<close> of \<open>src/Stun.cpp\<close>: the checks on the user name, and the comparison of
  the message integrity with the HMAC of the message, for which the length field in the received
  buffer is changed and restored. On every parsed message the operation is shown to be a function of
  the message that leaves it as it was, and to accept what the serialiser signs with the same
  password.
\<close>

section \<open>The operation\<close>

text \<open>\<open>username.at(n) != ':'\<close> and \<open>username.compare(0, n, localUsername) != 0\<close>.\<close>

definition username_matches :: "string \<Rightarrow> string \<Rightarrow> bool" where
  "username_matches user localUsername =
     (let n = length localUsername
      in \<not> (length user \<le> n \<or> user ! n \<noteq> CHR '':'' \<or> take n user \<noteq> localUsername))"

text \<open>The computation behind the checks; \<open>data\<close> is the buffer the packet was parsed from.\<close>

definition check_integrity ::
  "(bytes \<Rightarrow> bytes \<Rightarrow> bytes) \<Rightarrow> crypto \<Rightarrow> string \<Rightarrow> stun \<Rightarrow> nat \<Rightarrow> bytes \<Rightarrow> (Authentication \<times> bytes) res" where
  "check_integrity hmac c localPassword s mi data =
     bindR (if hasFingerprint s then Set2Bytes data 2 (word_of_nat (stun_size s) - 20 - 8) else Inr data)
       (\<lambda>d.
     if mi < 4 then Inl Out_Of_Bounds else
     bindR (GetHmacShA1 hmac c (bytes_of_string localPassword) d (mi - 4)) (\<lambda>computed.
     bindR (rd_block d mi 20) (\<lambda>m1. bindR (rd_block computed 0 20) (\<lambda>m2.
     let result = (if m1 = m2 then Auth_OK else UNAUTHORIZED) in
     bindR (if hasFingerprint s then Set2Bytes d 2 (word_of_nat (stun_size s) - 20) else Inr d)
       (\<lambda>d. Inr (result, d))))))"

definition CheckAuthentication ::
  "(bytes \<Rightarrow> bytes \<Rightarrow> bytes) \<Rightarrow> crypto \<Rightarrow> string \<Rightarrow> string \<Rightarrow> stun \<Rightarrow> (Authentication \<times> stun) res" where
  "CheckAuthentication hmac c localUsername localPassword s =
     (if klass s = REQUEST \<or> klass s = INDICATION then
        (case messageIntegrity s of
           None \<Rightarrow> Inr (BAD_REQUEST, s)
         | Some mi \<Rightarrow>
             if username s = '''' then Inr (BAD_REQUEST, s)
             else if \<not> username_matches (username s) localUsername then Inr (UNAUTHORIZED, s)
             else (case stun_data s of
                     None \<Rightarrow> Inl Null_Deref
                   | Some data \<Rightarrow>
                       bindR (check_integrity hmac c localPassword s mi data) (\<lambda>(result, data').
                         Inr (result, s\<lparr>stun_data := Some data'\<rparr>))))
      else Inr (BAD_REQUEST, s))"

section \<open>Authentication as a function of the message\<close>

lemma username_matches_iff: "username_matches user name \<longleftrightarrow> (\<exists>rest. user = name @ '':'' @ rest)"
proof
  assume m: "username_matches user name"
  then have "length name < length user" "user ! length name = CHR '':''" "take (length name) user = name"
    by (auto simp: username_matches_def Let_def)
  then have "user = name @ CHR '':'' # drop (Suc (length name)) user"
    by (metis id_take_nth_drop)
  then show "\<exists>rest. user = name @ '':'' @ rest" by auto
qed (auto simp: username_matches_def Let_def nth_append)

text \<open>The bytes that the sender has authenticated: all that precedes the message integrity, with a
  length field that counts up to its end.\<close>

definition authenticated_bytes :: "stun \<Rightarrow> nat \<Rightarrow> bytes \<Rightarrow> bytes" where
  "authenticated_bytes p mi data =
     take 2 data @ be2 (word_of_nat (stun_size p - 20 - (if hasFingerprint p then 8 else 0)))
     @ take (mi - 8) (drop 4 data)"

definition auth_of :: "(bytes \<Rightarrow> bytes \<Rightarrow> bytes) \<Rightarrow> string \<Rightarrow> string \<Rightarrow> stun \<Rightarrow> Authentication" where
  "auth_of hmac name pwd p =
     (case (klass p, messageIntegrity p, stun_data p) of
        (SUCCESS_RESPONSE, _, _) \<Rightarrow> BAD_REQUEST
      | (ERROR_RESPONSE, _, _) \<Rightarrow> BAD_REQUEST
      | (_, Some mi, Some data) \<Rightarrow>
          if username p = '''' then BAD_REQUEST
          else if \<not> (\<exists>rest. username p = name @ '':'' @ rest) then UNAUTHORIZED
          else if take 20 (drop mi data) = hmac (bytes_of_string pwd) (authenticated_bytes p mi data)
          then Auth_OK else UNAUTHORIZED
      | _ \<Rightarrow> BAD_REQUEST)"

text \<open>What the parser guarantees about an accepted packet.\<close>

definition parsed_ok :: "bytes \<Rightarrow> nat \<Rightarrow> stun \<Rightarrow> bool" where
  "parsed_ok data len p \<longleftrightarrow>
     stun_data p = Some data \<and> stun_size p = len \<and> transactionId p = take 12 (drop 8 data)
     \<and> xorMappedAddress p = None \<and> (hasFingerprint p \<longrightarrow> 28 \<le> len)
     \<and> (\<forall>mi. messageIntegrity p = Some mi \<longrightarrow> 24 \<le> mi \<and> mi + 20 \<le> len)"

lemma ref_attribute_parsed:
  assumes "ref_attribute pos a v st = Some st'" "parsed_ok data len (packet st)"
    and "20 \<le> pos" "pos + 4 + length v \<le> len"
  shows "parsed_ok data len (packet st')"
  using assms
  by (cases a) (auto simp: ref_attribute_def parsed_ok_def stun_setters split: if_splits)

text \<open>A property that every attribute inside the message keeps holds of every accepted packet.\<close>

lemma ref_run_packet:
  assumes "ref_run pos ts st = Some st'" "P (packet st)" "20 \<le> pos" "pos + tlvs_length ts \<le> len"
    and step: "\<And>pos a v st st'. ref_attribute pos a v st = Some st' \<Longrightarrow> P (packet st) \<Longrightarrow> 20 \<le> pos \<Longrightarrow>
      pos + 4 + length v \<le> len \<Longrightarrow> P (packet st')"
  shows "P (packet st')"
  using assms(1-4)
proof (induction pos ts st rule: ref_run.induct)
  case (2 pos t v p ts st)
  then obtain st1 where st1: "ref_attribute pos (attribute_of_code t) v st = Some st1"
      and rest: "ref_run (pos + 4 + pad_to_4 (length v)) ts st1 = Some st'"
      and free: "\<not> (seenFingerprint st \<or> (seenIntegrity st \<and> attribute_of_code t \<noteq> FINGERPRINT))"
    by (auto simp: Let_def bind_eq_Some_conv split: if_splits)
  have len: "pos + 4 + pad_to_4 (length v) + tlvs_length ts \<le> len" using "2.prems"(4) by (simp add: tlvs_length_def)
  with pad_to_4_bounds(1) [of "length v"] have "pos + 4 + length v \<le> len" by linarith
  with "2.prems" st1 have "P (packet st1)" by (auto intro: step)
  then show ?case
    by (rule "2.IH" [OF refl free st1 rest]) (use "2.prems"(3) len in simp_all)
qed simp

lemma Parse_packet:
  assumes "len \<le> length data" "len < 2 ^ 16" "Parse data len = Some (Inr (Some p))" "P (ref_packet data len)"
    and step: "\<And>pos a v st st'. ref_attribute pos a v st = Some st' \<Longrightarrow> P (packet st) \<Longrightarrow> 20 \<le> pos \<Longrightarrow>
      pos + 4 + length v \<le> len \<Longrightarrow> P (packet st')"
  shows "P p" "header_ok data len"
proof -
  have ref: "ref_parse data len = Some p"
    using Parse_ref_parse [OF assms(1,2)] assms(3) by simp
  then show ok: "header_ok data len" by (simp add: ref_parse_def split: if_splits)
  from ref obtain ts st where ts: "tlvs_of (take (len - 20) (drop 20 data)) = Some ts"
      and run: "ref_run 20 ts (parse_init (ref_packet data len)) = Some st" and p: "packet st = p"
    by (auto simp: ref_parse_def bind_eq_Some_conv split: if_splits)
  have "20 \<le> len" using ok by (simp add: header_ok_def)
  then have "20 + tlvs_length ts \<le> len" using tlvs_of_length [OF ts] assms(1) by simp
  from ref_run_packet [where P = P, OF run _ _ this step] show "P p"
    using assms(4) by (simp add: p parse_init_def)
qed

lemma Parse_parsed_ok:
  assumes "len \<le> length data" "len < 2 ^ 16" "Parse data len = Some (Inr (Some p))"
  shows "parsed_ok data len p" "header_ok data len"
proof -
  have init: "parsed_ok data len (ref_packet data len)" by (simp add: ref_packet_def Stun_def parsed_ok_def)
  show "parsed_ok data len p" "header_ok data len"
    by (rule Parse_packet [where P = "parsed_ok data len", OF assms init ref_attribute_parsed], assumption+)+
qed

lemma length_field:
  assumes "header_ok data len" "len \<le> length data" "len < 2 ^ 16"
  shows "take 2 (drop 2 data) = be2 (word_of_nat (len - 20))"
proof -
  have "20 \<le> length data" using assms by (simp add: header_ok_def)
  then have "length (take 2 (drop 2 data)) = 2" by (simp add: min_absorb2)
  moreover have "de2 (take 2 (drop 2 data)) = word_of_nat (len - 20)"
    using assms(1) by (metis header_ok_def of_nat_unat ucast_id)
  ultimately show ?thesis
    using de2_inject [of "take 2 (drop 2 data)" "be2 (word_of_nat (len - 20))"] by simp
qed

lemma check_integrity_eq:
  assumes ok: "header_ok data len" "parsed_ok data len p" and len: "len \<le> length data" "len < 2 ^ 16"
    and mi: "messageIntegrity p = Some mi" and ctx: "hmacSha1Ctx c = Ctx_Live"
    and hmac: "\<And>k m. length (hmac k m) = 20"
  shows "check_integrity hmac c pwd p mi data =
    Inr (if take 20 (drop mi data) = hmac (bytes_of_string pwd) (authenticated_bytes p mi data)
         then Auth_OK else UNAUTHORIZED, data)"
proof -
  have size: "stun_size p = len" and bounds: "24 \<le> mi" "mi + 20 \<le> len" and "20 \<le> len"
    using ok mi by (auto simp: parsed_ok_def header_ok_def)
  define l where "l = be2 (word_of_nat (len - 20 - (if hasFingerprint p then 8 else 0)))"
  define d where "d = take 2 data @ l @ drop 4 data"
  have field: "take 2 (drop 2 data) = be2 (word_of_nat (len - 20))"
    by (rule length_field [OF ok(1) len])
  have data: "data = take 2 data @ be2 (word_of_nat (len - 20)) @ drop 4 data"
  proof -
    have "drop 2 data = be2 (word_of_nat (len - 20)) @ drop 4 data"
      using drop_split [of 2 data 2] by (simp add: field)
    then show ?thesis by (metis append_take_drop_id)
  qed
  have l: "length l = 2" by (simp add: l_def)
  have ld: "length d = length data" using bounds len by (simp add: d_def l)
  have change: "(if hasFingerprint p then Set2Bytes data 2 (word_of_nat (stun_size p) - 20 - 8)
      else Inr data) = Inr d"
  proof (cases "hasFingerprint p")
    case True
    then have "28 \<le> len" using ok by (simp add: parsed_ok_def)
    then have "word_of_nat len - 20 - 8 = (word_of_nat (len - 20 - 8) :: u16)"
      by (simp add: of_nat_diff)
    with True show ?thesis
      using bounds len by (simp add: size codec_simps wr_block_def d_def l_def)
  qed (use data in \<open>simp add: d_def l_def\<close>)
  have restore: "(if hasFingerprint p then Set2Bytes d 2 (word_of_nat (stun_size p) - 20) else Inr d)
      = Inr data"
  proof (cases "hasFingerprint p")
    case True
    have "word_of_nat len - 20 = (word_of_nat (len - 20) :: u16)"
      using \<open>20 \<le> len\<close> by (simp add: of_nat_diff)
    then show ?thesis
      using True bounds len data by (simp add: size codec_simps wr_block_def d_def l)
  qed (use data in \<open>simp add: d_def l_def\<close>)
  have mac: "GetHmacShA1 hmac c (bytes_of_string pwd) d (mi - 4)
      = Inr (hmac (bytes_of_string pwd) (authenticated_bytes p mi data))"
  proof -
    have "take (mi - 4) d = take 2 data @ l @ take (mi - 8) (drop 4 data)"
      using bounds len by (simp add: d_def l)
    then have "take (mi - 4) d = authenticated_bytes p mi data"
      unfolding authenticated_bytes_def size l_def .
    then show ?thesis using ctx bounds len ld by (simp add: GetHmacShA1_live)
  qed
  have "rd_block d mi 20 = Inr (take 20 (drop mi data))"
  proof -
    have "drop mi d = drop mi data"
      using bounds len by (simp add: d_def l)
    then show ?thesis using bounds len ld by simp
  qed
  moreover have "rd_block (hmac k m) 0 20 = Inr (hmac k m)" for k m using hmac [of k m] by simp
  ultimately show ?thesis
    using bounds by (simp add: check_integrity_def change restore mac Let_def)
qed


lemma CheckAuthentication_eq:
  assumes "len \<le> length data" "len < 2 ^ 16" "Parse data len = Some (Inr (Some p))"
    and "hmacSha1Ctx c = Ctx_Live" "\<forall>k m. length (hmac k m) = 20"
  shows "CheckAuthentication hmac c name pwd p = Inr (auth_of hmac name pwd p, p)"
proof -
  note ok = Parse_parsed_ok [OF assms(1-3)]
  have data: "stun_data p = Some data" using ok(1) by (simp add: parsed_ok_def)
  have hmac: "length (hmac k m) = 20" for k m using assms(5) by blast
  have self: "p\<lparr>stun_data := Some data\<rparr> = p" by (rule stun.equality) (simp_all add: data)
  have check: "check_integrity hmac c pwd p mi data =
      Inr (if take 20 (drop mi data) = hmac (bytes_of_string pwd) (authenticated_bytes p mi data)
         then Auth_OK else UNAUTHORIZED, data)" if "messageIntegrity p = Some mi" for mi
    using check_integrity_eq [where hmac = hmac, OF ok(2,1) assms(1,2) that assms(4) hmac] .
  show ?thesis
    by (cases "klass p"; cases "messageIntegrity p")
      (simp_all add: CheckAuthentication_def auth_of_def data check self username_matches_iff)
qed

lemma auth_of_received:
  fixes post :: bytes
  assumes s: "representable s" and hmac: "\<And>k m. length (hmac k m) = 20"
    and old: "plain_width s \<le> length old"
    and k: "klass s = REQUEST \<or> klass s = INDICATION" and pw: "password s \<noteq> ''''"
    and u: "username s = name @ '':'' @ rest"
  defines "b \<equiv> message_bytes hmac s (username_stale s old) @ post"
  shows "auth_of hmac name (password s) (received s b) = Auth_OK"
proof -
  have ser: "serializable s" using s by (simp add: representable_def)
  have mi: "addMessageIntegrity s" using k pw by (auto simp: addMessageIntegrity_def)
  define n where "n = serialize_size s"
  define h where "h = header_bytes s (n - 20)"
  define plain where "plain = plain_tlvs s (username_stale s old)"
  define p1 where "p1 = h @ enc_tlvs plain"
  define mac where "mac = integrity_of hmac s p1"
  define tail where "tail = enc_tlvs (fingerprint_tlvs (p1 @ enc_tlvs (integrity_tlvs hmac s p1))) @ post"
  have mac: "length mac = 20" by (simp add: mac_def integrity_of_def hmac)
  have b: "b = p1 @ be2 (attribute_code MESSAGE_INTEGRITY) @ be2 20 @ mac @ tail"
    using mi mac
    by (simp add: b_def message_bytes_def message_tlvs_def Let_def integrity_tlvs_def n_def h_def
        plain_def p1_def mac_def tail_def)
  have lh: "length h = 20" using length_header_bytes [OF ser] by (simp add: h_def)
  have lp: "length p1 = 20 + plain_width s"
    using message_parts(2) [OF ser, where hmac = hmac, OF hmac old] lh by (simp add: p1_def plain_def)
  have "authenticated_bytes (received s b) (length p1 + 4) b
      = take 2 p1 @ be2 (word_of_nat (n - 20 - 8)) @ drop 4 p1"
    using lp by (simp add: authenticated_bytes_def received_def serialized_def n_def b)
  then have "hmac (bytes_of_string (password s)) (authenticated_bytes (received s b) (length p1 + 4) b) = mac"
    by (simp add: mac_def integrity_of_def n_def)
  moreover have "take 20 (drop (length p1 + 4) b) = mac" using mac by (simp add: b)
  moreover have "messageIntegrity (received s b) = Some (length p1 + 4)"
    using mi lp by (simp add: received_def serialized_def)
  ultimately show ?thesis
    using k u by (auto simp: auth_of_def received_def serialized_def)
qed

lemma example_signed_fields:
  "klass example_signed = INDICATION" "password example_signed = ''secret''"
  "username example_signed = ''a'' @ '':'' @ ''b''"
  by (simp_all add: example_signed_def stun_setters Stun_def string_of_bytes_def byte_to_char_def
      char_of_def bit_0)

section \<open>Properties\<close>

text \<open>C9: on every packet that the parser accepted, the check ends without a fault, gives the result
  of the specification, and leaves the object and the received bytes as they were.\<close>

theorem CheckAuthentication_spec:
  assumes "len \<le> length data" "len < 2 ^ 16" "Parse data len = Some (Inr (Some p))"
    and "hmacSha1Ctx c = Ctx_Live" "\<forall>k m. length (hmac k m) = 20"
  shows "CheckAuthentication hmac c name pwd p = Inr (auth_of hmac name pwd p, p)"
  using assms by (rule CheckAuthentication_eq)

theorem CheckAuthentication_spec_witness:
  "\<exists>p. CheckAuthentication (\<lambda>k m. replicate 20 1) (crypto_initial\<lparr>hmacSha1Ctx := Ctx_Live\<rparr>) ''a'' ''secret'' p
     = Inr (Auth_OK, p)"
proof -
  let ?c = "crypto_initial\<lparr>hmacSha1Ctx := Ctx_Live\<rparr>" and ?hmac = "\<lambda>(k :: bytes) (m :: bytes). replicate 20 (1 :: u8)"
  define b where "b = message_bytes ?hmac example_signed (username_stale example_signed (replicate 80 0))"
  have hmac: "length (?hmac k m) = 20" for k m by simp
  have s: "serializable example_signed" using example_signed_facts(2) by (simp add: representable_def)
  have old: "plain_width example_signed \<le> length (replicate 80 (0 :: u8))"
    using serialize_size_eq [OF s] example_signed_facts by simp
  have len: "length b = 60"
    using length_message_bytes [OF s hmac old] example_signed_facts(1) by (simp add: b_def)
  have parse: "Parse b 60 = Some (Inr (Some (received example_signed b)))"
    using Parse_message [OF example_signed_facts(2) hmac old, of "[]"] example_signed_facts(1)
    by (simp add: b_def)
  have "auth_of ?hmac ''a'' ''secret'' (received example_signed b) = Auth_OK"
    using auth_of_received [OF example_signed_facts(2) hmac old, of "''a''" "''b''" "[]"]
    by (simp add: example_signed_fields b_def)
  moreover have "CheckAuthentication ?hmac ?c ''a'' ''secret'' (received example_signed b)
      = Inr (auth_of ?hmac ''a'' ''secret'' (received example_signed b), received example_signed b)"
    by (rule CheckAuthentication_spec [OF _ _ parse]) (simp_all add: len)
  ultimately show ?thesis by auto
qed

text \<open>C14: a request or indication that was serialised with a password is authenticated by the
  receiver under the same password and any user name that the message's user name begins with,
  before a colon.\<close>

theorem sign_then_check:
  assumes "representable s" "\<forall>k m. length (hmac k m) = 20" "hmacSha1Ctx c = Ctx_Live"
    and "serialize_size s \<le> length buffer" "klass s = REQUEST \<or> klass s = INDICATION"
    and "password s \<noteq> ''''" "username s = name @ '':'' @ rest"
  shows "\<exists>b p. Serialize hmac c s buffer = Inr (serialized s b, (b, serialize_size s))
    \<and> Parse b (serialize_size s) = Some (Inr (Some p))
    \<and> CheckAuthentication hmac c name (password s) p = Inr (Auth_OK, p)"
proof -
  have hmac: "length (hmac k m) = 20" for k m using assms(2) by blast
  have s: "serializable s" and small: "serialize_size s < 2 ^ 16"
    using assms(1) by (simp_all add: representable_def)
  have old: "plain_width s \<le> length (drop 20 buffer)"
    using assms(4) serialize_size_eq [OF s] by simp
  define post where "post = drop (serialize_size s) buffer"
  define b where "b = message_bytes hmac s (username_stale s (drop 20 buffer)) @ post"
  have ser: "Serialize hmac c s buffer = Inr (serialized s b, (b, serialize_size s))"
    using Serialize_eq [where hmac = hmac, OF s hmac _ assms(4)] assms(3) by (simp add: b_def post_def)
  have parse: "Parse b (serialize_size s) = Some (Inr (Some (received s b)))"
    unfolding b_def using Parse_message [where hmac = hmac, OF assms(1) hmac old] .
  have auth: "auth_of hmac name (password s) (received s b) = Auth_OK"
    unfolding b_def using auth_of_received [where hmac = hmac, OF assms(1) hmac old assms(5-7)] .
  have "serialize_size s \<le> length b"
    using length_message_bytes [where hmac = hmac, OF s hmac old] by (simp add: b_def)
  from CheckAuthentication_eq [OF this small parse assms(3,2)] auth ser parse show ?thesis
    by metis
qed

theorem sign_then_check_witness:
  "\<exists>b p. Parse b 60 = Some (Inr (Some p))
     \<and> CheckAuthentication (\<lambda>k m. replicate 20 1) (crypto_initial\<lparr>hmacSha1Ctx := Ctx_Live\<rparr>) ''a'' ''secret'' p
       = Inr (Auth_OK, p)"
proof -
  have hmac: "\<forall>(k :: bytes) (m :: bytes). length (replicate 20 (1 :: u8)) = 20" by simp
  from sign_then_check [OF example_signed_facts(2) hmac, of "crypto_initial\<lparr>hmacSha1Ctx := Ctx_Live\<rparr>"
      "replicate 60 0" "''a''" "''b''"] example_signed_fields example_signed_facts(1)
  show ?thesis by auto
qed

end
