(* ===== verification/Stun_Dump.thy ===== *)
theory Stun_Dump
  imports Stun_Auth
begin

text \<open>
  \<open>Stun::Dump\<close> of \<open>src/Stun.cpp\<close>: the transaction identifier and the message integrity in hexadecimal, in
  two static arrays. The output statements of the source are comments, so that each \<open>if\<close> of their list
  governs the next one; that nesting is kept. The names of the message classes have no effect and are
  left out.
\<close>

section \<open>The operation\<close>

definition hex_digit :: "nat \<Rightarrow> char" where
  "hex_digit d = (if d < 10 then char_of (48 + d) else char_of (87 + d))"

definition hex_byte :: "u8 \<Rightarrow> string" where
  "hex_byte b = [hex_digit (unat b div 16), hex_digit (unat b mod 16)]"

text \<open>\<open>snprintf(buf + pos, 3, "%.2x", b)\<close>: two digits and the terminating zero.\<close>

definition snprintf_hex :: "string \<Rightarrow> nat \<Rightarrow> u8 \<Rightarrow> string res" where
  "snprintf_hex buf pos b = wr_block buf pos (hex_byte b @ [CHR 0x00])"

fun hex_loop :: "bytes \<Rightarrow> nat \<Rightarrow> nat \<Rightarrow> string \<Rightarrow> string res" where
  "hex_loop src i 0 buf = Inr buf"
| "hex_loop src i (Suc n) buf =
     bindR (rd src i) (\<lambda>b. bindR (snprintf_hex buf (i * 2) b) (\<lambda>buf. hex_loop src (i + 1) n buf))"

text \<open>The address is formatted into locals only; \<open>ip_junk\<close> and \<open>port_junk\<close> are their contents before.\<close>

definition dump_address :: "string \<Rightarrow> u16 \<Rightarrow> stun \<Rightarrow> unit res" where
  "dump_address ip_junk port_junk s =
     (if errorCode s \<noteq> 0 then
        if username s \<noteq> '''' then
          if priority s \<noteq> 0 then
            if iceControlling s \<noteq> 0 then
              if iceControlled s \<noteq> 0 then
                if hasUseCandidate s then
                  (case xorMappedAddress s of
                     None \<Rightarrow> Inr ()
                   | Some a \<Rightarrow> bindR (GetAddressInfo ip_junk a port_junk) (\<lambda>_. Inr ()))
                else Inr ()
              else Inr ()
            else Inr ()
          else Inr ()
        else Inr ()
      else Inr ())"

text \<open>The two static arrays before and after.\<close>

definition Dump :: "string \<Rightarrow> u16 \<Rightarrow> stun \<Rightarrow> string \<times> string \<Rightarrow> (string \<times> string) res" where
  "Dump ip_junk port_junk s = (\<lambda>(tid, mi).
     bindR (hex_loop (transactionId s) 0 12 tid) (\<lambda>tid.
     bindR (dump_address ip_junk port_junk s) (\<lambda>_.
       case messageIntegrity s of
         None \<Rightarrow> Inr (tid, mi)
       | Some off \<Rightarrow>
           (case stun_data s of
              None \<Rightarrow> Inl Null_Deref
            | Some data \<Rightarrow> bindR (hex_loop (drop off data) 0 20 mi) (\<lambda>mi. Inr (tid, mi))))))"

section \<open>Hexadecimal text\<close>

definition hex_text :: "bytes \<Rightarrow> string" where
  "hex_text bs = concat (map hex_byte bs)"

lemma length_hex_byte [simp]: "length (hex_byte b) = 2"
  by (simp add: hex_byte_def)

lemma length_hex_text [simp]: "length (hex_text bs) = 2 * length bs"
  by (induction bs) (simp_all add: hex_text_def)

lemma hex_text_snoc: "hex_text (bs @ [b]) = hex_text bs @ hex_byte b"
  by (simp add: hex_text_def)

text \<open>The loop with \<open>i\<close> bytes printed: one zero ends the text, what follows is as it was.\<close>

lemma hex_loop_prints:
  assumes "i + n \<le> length src" "2 * (i + n) < length buf" "take (2 * i) buf = hex_text (take i src)"
    and "n = 0 \<Longrightarrow> buf ! (2 * i) = CHR 0x00"
  shows "\<exists>buf'. hex_loop src i n buf = Inr buf' \<and> length buf' = length buf
    \<and> take (2 * (i + n)) buf' = hex_text (take (i + n) src) \<and> buf' ! (2 * (i + n)) = CHR 0x00"
  using assms
proof (induction n arbitrary: i buf)
  case (Suc n)
  let ?t = "hex_byte (src ! i) @ [CHR 0x00]"
  define buf1 where "buf1 = take (i * 2) buf @ ?t @ drop (i * 2 + 3) buf"
  have w: "snprintf_hex buf (i * 2) (src ! i) = Inr buf1"
    using Suc.prems(2) by (simp add: snprintf_hex_def wr_block_Inr numeral_3_eq_3 buf1_def)
  have len: "length buf1 = length buf" using Suc.prems(2) by (simp add: buf1_def)
  have "take (2 * Suc i) buf1 = hex_text (take (Suc i) src)"
    using Suc.prems by (simp add: take_Suc_conv_app_nth hex_text_snoc mult.commute buf1_def)
  moreover have "buf1 ! (2 * Suc i) = CHR 0x00"
    using Suc.prems(2) by (simp add: nth_append mult.commute buf1_def)
  ultimately have "\<exists>buf'. hex_loop src (Suc i) n buf1 = Inr buf' \<and> length buf' = length buf1
    \<and> take (2 * (Suc i + n)) buf' = hex_text (take (Suc i + n) src) \<and> buf' ! (2 * (Suc i + n)) = CHR 0x00"
    using Suc.prems(1,2) len by (intro Suc.IH) simp_all
  then show ?case using Suc.prems(1) w len by simp
qed simp

lemma hex_digit_nonzero: "d < 16 \<Longrightarrow> hex_digit d \<noteq> CHR 0x00"
proof
  assume "d < 16" "hex_digit d = CHR 0x00"
  then have "of_char (hex_digit d) = (0 :: nat)" by simp
  with \<open>d < 16\<close> show False by (simp add: hex_digit_def split: if_splits)
qed

lemma hex_text_nonzero: "CHR 0x00 \<notin> set (hex_text bs)"
proof -
  have "hex_digit (unat b div 16) \<noteq> CHR 0x00 \<and> hex_digit (unat b mod 16) \<noteq> CHR 0x00" for b :: u8
  proof -
    have "unat b < 256" using unsigned_less [of b] by simp
    then have "unat b div 16 < 16" "unat b mod 16 < 16" by simp_all
    then show ?thesis by (simp add: hex_digit_nonzero)
  qed
  then show ?thesis by (auto simp: hex_text_def hex_byte_def dest: sym)
qed

lemma c_str_hex:
  assumes "length buf = Suc (2 * length bs)" "take (2 * length bs) buf = hex_text bs" "buf ! (2 * length bs) = CHR 0x00"
  shows "c_str buf = Inr (hex_text bs)"
proof -
  have "buf = hex_text bs @ [CHR 0x00]"
    using assms id_take_nth_drop [of "2 * length bs" buf] by simp
  moreover have "takeWhile (\<lambda>c. c \<noteq> CHR 0x00) (hex_text bs @ [CHR 0x00]) = hex_text bs"
    using hex_text_nonzero [of bs] by (subst takeWhile_append2) auto
  ultimately show ?thesis by (simp add: c_str_def)
qed

lemma hex_loop_all:
  assumes "length buf = Suc (2 * n)" "0 < n" "n \<le> length src"
  shows "\<exists>buf'. hex_loop src 0 n buf = Inr buf' \<and> length buf' = length buf \<and> c_str buf' = Inr (hex_text (take n src))"
proof -
  obtain buf' where "hex_loop src 0 n buf = Inr buf'" "length buf' = length buf"
    "take (2 * n) buf' = hex_text (take n src)" "buf' ! (2 * n) = CHR 0x00"
    using hex_loop_prints [of 0 n src buf] assms by (auto simp: hex_text_def)
  then show ?thesis using c_str_hex [of buf' "take n src"] assms by simp
qed

section \<open>Properties\<close>

lemma example_packet:
  obtains b p where "60 \<le> length b" "Parse b 60 = Some (Inr (Some p))"
proof -
  let ?hmac = "\<lambda>(k :: bytes) (m :: bytes). replicate 20 (1 :: u8)"
  let ?b = "message_bytes ?hmac example_signed (username_stale example_signed (replicate 80 0))"
  have s: "serializable example_signed" using example_signed_facts(2) by (simp add: representable_def)
  have old: "plain_width example_signed \<le> length (replicate 80 (0 :: u8))"
    using serialize_size_eq [OF s] example_signed_facts by simp
  show thesis
    using that [of ?b] length_message_bytes [where hmac = ?hmac, OF s _ old] example_signed_facts(1)
      Parse_message [where hmac = ?hmac, OF example_signed_facts(2) _ old, of "[]"]
    by simp
qed

text \<open>On every accepted packet the operation stays within its two static arrays of 25 and 41 characters
  and within the packet, and leaves in them the transaction identifier and, if there is one, the message
  integrity in hexadecimal.\<close>

theorem Dump_prints_packet:
  assumes "len \<le> length data" "len < 2 ^ 16" "Parse data len = Some (Inr (Some p))"
    and "length tid = 25" "length mi = 41"
  shows "\<exists>tid' mi'. Dump ip_junk port_junk p (tid, mi) = Inr (tid', mi')
    \<and> length tid' = 25 \<and> c_str tid' = Inr (hex_text (take 12 (drop 8 data)))
    \<and> length mi' = 41 \<and> (case messageIntegrity p of
         None \<Rightarrow> mi' = mi | Some off \<Rightarrow> c_str mi' = Inr (hex_text (take 20 (drop off data))))"
proof -
  note ok = Parse_parsed_ok [OF assms(1-3)]
  have p: "stun_data p = Some data" "transactionId p = take 12 (drop 8 data)" "xorMappedAddress p = None"
    using ok(1) by (simp_all add: parsed_ok_def)
  have "20 \<le> length data" using ok(2) assms(1) by (simp add: header_ok_def)
  then obtain tid' where tid': "hex_loop (transactionId p) 0 12 tid = Inr tid'" "length tid' = 25"
    "c_str tid' = Inr (hex_text (take 12 (drop 8 data)))"
    using hex_loop_all [of tid 12 "transactionId p"] assms(4) p(2) by auto
  have addr: "dump_address ip_junk port_junk p = Inr ()" by (simp add: dump_address_def p(3))
  show ?thesis
  proof (cases "messageIntegrity p")
    case (Some off)
    then have "off + 20 \<le> length data" using ok(1) assms(1) by (auto simp: parsed_ok_def)
    then have "20 \<le> length (drop off data)" by simp
    then obtain mi' where "hex_loop (drop off data) 0 20 mi = Inr mi'" "length mi' = 41"
      "c_str mi' = Inr (hex_text (take 20 (drop off data)))"
      using hex_loop_all [of mi 20 "drop off data"] assms(5) by auto
    then show ?thesis using Some tid' addr p(1) by (simp add: Dump_def)
  qed (use tid' addr assms(5) in \<open>simp add: Dump_def\<close>)
qed

theorem Dump_prints_packet_witness:
  "\<exists>b p tid' mi'. Parse b 60 = Some (Inr (Some p))
     \<and> Dump '''' 0 p (replicate 25 CHR 0x00, replicate 41 CHR 0x00) = Inr (tid', mi')
     \<and> c_str tid' = Inr (hex_text (take 12 (drop 8 b)))"
proof -
  obtain b p where b: "60 \<le> length b" "Parse b 60 = Some (Inr (Some p))" by (rule example_packet)
  from Dump_prints_packet [OF b(1) _ b(2), of "replicate 25 CHR 0x00" "replicate 41 CHR 0x00" "''''" 0]
  show ?thesis using b(2) by auto
qed

end
