(* ===== verification/Stun_Response.thy ===== *)
theory Stun_Response
  imports Stun_Auth Stun_Dump
begin

text \<open>
  The life of a \<open>Stun\<close> object behind the parser: the public members of \<open>src/Stun.h\<close> that change an object
  or follow one of its pointers, in any order. A type of objects is given under which none of them faults
  (the pointers of an object lie in its buffer, its address is complete), and what the parser makes, and
  every operation, has that type. The answer to a request is followed to its receiver.
\<close>

section \<open>Well-typed objects\<close>

definition stun_typed :: "stun \<Rightarrow> bool" where
  "stun_typed p \<longleftrightarrow>
     length (transactionId p) = 12 \<and> pad_to_4 (length (username p)) < 2 ^ 16
     \<and> (case xorMappedAddress p of None \<Rightarrow> True | Some a \<Rightarrow> sockaddr_complete a)
     \<and> (case stun_data p of
          None \<Rightarrow> messageIntegrity p = None
        | Some d \<Rightarrow> 20 \<le> stun_size p \<and> stun_size p \<le> length d
            \<and> (\<forall>mi. messageIntegrity p = Some mi \<longrightarrow> 24 \<le> mi \<and> mi + 20 \<le> stun_size p))"

text \<open>
  Every public member that changes an object or follows one of its pointers. The others are the static
  \<open>IsStun\<close> and \<open>Parse\<close>, the constructor, the destructor, which frees nothing, and the accessors
  (\<open>GetClass\<close> to \<open>HasFingerprint\<close>), each of which copies one field. The arguments of \<open>Op_Dump\<close> are
  the contents of its local variables and of its two static arrays before the call.
\<close>

datatype stun_op =
    Op_SetUsername bytes
  | Op_SetPriority u32
  | Op_SetIceControlling u64
  | Op_SetIceControlled u64
  | Op_SetUseCandidate
  | Op_SetXorMappedAddress sockaddr
  | Op_SetErrorCode u16
  | Op_SetMessageIntegrity "nat option"
  | Op_SetFingerprint
  | Op_Authenticate string
  | Op_CreateSuccessResponse
  | Op_CreateErrorResponse u16
  | Op_CheckAuthentication string string
  | Op_Serialize bytes
  | Op_Dump string u16 "string \<times> string"

fun do_op :: "(bytes \<Rightarrow> bytes \<Rightarrow> bytes) \<Rightarrow> crypto \<Rightarrow> stun_op \<Rightarrow> stun \<Rightarrow> stun res" where
  "do_op hmac c (Op_SetUsername name) p = Inr (SetUsername name p)"
| "do_op hmac c (Op_SetPriority v) p = Inr (SetPriority v p)"
| "do_op hmac c (Op_SetIceControlling v) p = Inr (SetIceControlling v p)"
| "do_op hmac c (Op_SetIceControlled v) p = Inr (SetIceControlled v p)"
| "do_op hmac c Op_SetUseCandidate p = Inr (SetUseCandidate p)"
| "do_op hmac c (Op_SetXorMappedAddress a) p = Inr (SetXorMappedAddress a p)"
| "do_op hmac c (Op_SetErrorCode e) p = Inr (SetErrorCode e p)"
| "do_op hmac c (Op_SetMessageIntegrity mi) p = Inr (SetMessageIntegrity mi p)"
| "do_op hmac c Op_SetFingerprint p = Inr (SetFingerprint p)"
| "do_op hmac c (Op_Authenticate pwd) p = Inr (Authenticate pwd p)"
| "do_op hmac c Op_CreateSuccessResponse p = Inr (CreateSuccessResponse p)"
| "do_op hmac c (Op_CreateErrorResponse e) p = Inr (CreateErrorResponse e p)"
| "do_op hmac c (Op_CheckAuthentication name pwd) p =
     bindR (CheckAuthentication hmac c name pwd p) (\<lambda>(_, p). Inr p)"
| "do_op hmac c (Op_Serialize buffer) p = bindR (Serialize hmac c p buffer) (\<lambda>(p, _). Inr p)"
| "do_op hmac c (Op_Dump ip_junk port_junk arrays) p = bindR (Dump ip_junk port_junk p arrays) (\<lambda>_. Inr p)"

text \<open>
  What must hold at a call: the user name is one that the 16-bit length field can count, the address is
  complete, the integrity pointer is null or points to 20 bytes behind the attribute header of a message
  that the object has, the buffer has the size that \<open>Serialize\<close> computes. \<open>Dump\<close> has arrays of 25 and 41
  characters; its local \<open>ipBuffer\<close>, which \<open>GetAddressInfo\<close> reads without having written it, must by
  chance contain a zero when the object has an address.
\<close>

fun op_typed :: "stun_op \<Rightarrow> stun \<Rightarrow> bool" where
  "op_typed (Op_SetUsername name) p \<longleftrightarrow> pad_to_4 (length name) < 2 ^ 16"
| "op_typed (Op_SetXorMappedAddress a) p \<longleftrightarrow> sockaddr_complete a"
| "op_typed (Op_SetMessageIntegrity mi) p \<longleftrightarrow>
     (\<forall>i. mi = Some i \<longrightarrow> stun_data p \<noteq> None \<and> 24 \<le> i \<and> i + 20 \<le> stun_size p)"
| "op_typed (Op_Dump ip_junk port_junk arrays) p \<longleftrightarrow>
     length (fst arrays) = 25 \<and> length (snd arrays) = 41
     \<and> (xorMappedAddress p \<noteq> None \<longrightarrow> CHR 0x00 \<in> set ip_junk)"
| "op_typed (Op_Serialize buffer) p \<longleftrightarrow> serialize_size p \<le> length buffer"
| "op_typed _ p \<longleftrightarrow> True"

fun run_ops :: "(bytes \<Rightarrow> bytes \<Rightarrow> bytes) \<Rightarrow> crypto \<Rightarrow> stun_op list \<Rightarrow> stun \<Rightarrow> stun res" where
  "run_ops hmac c [] p = Inr p"
| "run_ops hmac c (op # ops) p = bindR (do_op hmac c op p) (run_ops hmac c ops)"

fun ops_typed :: "(bytes \<Rightarrow> bytes \<Rightarrow> bytes) \<Rightarrow> crypto \<Rightarrow> stun_op list \<Rightarrow> stun \<Rightarrow> bool" where
  "ops_typed hmac c [] p \<longleftrightarrow> True"
| "ops_typed hmac c (op # ops) p \<longleftrightarrow>
     op_typed op p \<and> (case do_op hmac c op p of Inl e \<Rightarrow> True | Inr q \<Rightarrow> ops_typed hmac c ops q)"

lemma stun_typed_serializable: "stun_typed p \<Longrightarrow> serializable p"
  by (simp add: stun_typed_def serializable_def)

text \<open>The check works on the message in place, and faults neither on its bytes nor on its pointers.\<close>

lemma Set2Bytes_total: "i + 2 \<le> length d \<Longrightarrow> \<exists>d'. Set2Bytes d i v = Inr d' \<and> length d' = length d"
  by (simp add: codec_simps wr_block_def min_absorb2)

lemma check_integrity_total:
  assumes "20 \<le> n" "n \<le> length d" "24 \<le> mi" "mi + 20 \<le> n"
    and ctx: "hmacSha1Ctx c = Ctx_Live" and hmac: "\<And>k m. length (hmac k m) = 20"
  shows "\<exists>r d'. check_integrity hmac c pwd p mi d = Inr (r, d') \<and> length d' = length d"
proof -
  have set2: "\<exists>d'. (if hasFingerprint p then Set2Bytes e 2 v else Inr e) = Inr d' \<and> length d' = length d"
    if "length e = length d" for e v
    using Set2Bytes_total [of 2 e v] that assms(1,2) by simp
  obtain d1 where d1: "(if hasFingerprint p then Set2Bytes d 2 (word_of_nat (stun_size p) - 20 - 8) else Inr d) = Inr d1"
    "length d1 = length d"
    using set2 by blast
  obtain d2 where d2: "(if hasFingerprint p then Set2Bytes d1 2 (word_of_nat (stun_size p) - 20) else Inr d1) = Inr d2"
    "length d2 = length d"
    using set2 [OF d1(2)] by blast
  have "GetHmacShA1 hmac c (bytes_of_string pwd) d1 (mi - 4) = Inr (hmac (bytes_of_string pwd) (take (mi - 4) d1))"
    using assms d1(2) by (simp add: GetHmacShA1_live)
  moreover have "rd_block d1 mi 20 = Inr (take 20 (drop mi d1))" using assms d1(2) by simp
  moreover have "rd_block (hmac k m) 0 20 = Inr (hmac k m)" for k m using hmac [of k m] by simp
  ultimately show ?thesis using assms(3) d1 d2 by (simp add: check_integrity_def Let_def)
qed

lemma CheckAuthentication_total:
  assumes p: "stun_typed p" and ctx: "hmacSha1Ctx c = Ctx_Live" and hmac: "\<And>k m. length (hmac k m) = 20"
  shows "\<exists>r q. CheckAuthentication hmac c name pwd p = Inr (r, q) \<and> stun_typed q"
proof (cases "(klass p = REQUEST \<or> klass p = INDICATION) \<and> messageIntegrity p \<noteq> None \<and> username p \<noteq> ''''
    \<and> username_matches (username p) name")
  case True
  then obtain mi d where mi: "messageIntegrity p = Some mi" "stun_data p = Some d"
    using p by (auto simp: stun_typed_def split: option.splits)
  with p have bounds: "20 \<le> stun_size p" "stun_size p \<le> length d" "24 \<le> mi" "mi + 20 \<le> stun_size p"
    by (simp_all add: stun_typed_def)
  obtain r d' where d': "check_integrity hmac c pwd p mi d = Inr (r, d')" "length d' = length d"
    using check_integrity_total [where hmac = hmac, OF bounds ctx hmac] by blast
  then have "stun_typed (p\<lparr>stun_data := Some d'\<rparr>)" using p mi by (simp add: stun_typed_def)
  then show ?thesis using True mi d' by (simp add: CheckAuthentication_def)
next
  case False
  then show ?thesis using p by (auto simp: CheckAuthentication_def split: option.split)
qed

lemma Serialize_total:
  assumes p: "stun_typed p" and ctx: "hmacSha1Ctx c = Ctx_Live" and hmac: "\<And>k m. length (hmac k m) = 20"
    and room: "serialize_size p \<le> length buffer"
  shows "\<exists>q r. Serialize hmac c p buffer = Inr (q, r) \<and> stun_typed q"
proof -
  note s = stun_typed_serializable [OF p]
  have size: "serialize_size p = 20 + plain_width p + (if addMessageIntegrity p then 24 else 0) + 8"
    by (rule serialize_size_eq [OF s])
  define b where "b = message_bytes hmac p (username_stale p (drop 20 buffer)) @ drop (serialize_size p) buffer"
  have "plain_width p \<le> length (drop 20 buffer)" using room size by simp
  from length_message_bytes [where hmac = hmac, OF s hmac this] have "length b = length buffer"
    using room by (simp add: b_def)
  then have "stun_typed (serialized p b)"
    using p room size by (simp add: stun_typed_def serialized_def)
  then show ?thesis using Serialize_eq [where hmac = hmac, OF s hmac _ room] ctx by (simp add: b_def)
qed

lemma GetAddressInfo_total:
  "sockaddr_complete a \<Longrightarrow> CHR 0x00 \<in> set junk \<Longrightarrow> \<exists>r. GetAddressInfo junk a port = Inr r"
  by (auto simp: GetAddressInfo_def sockaddr_complete_def sin_addr_def sin_port_def c_str_def)

lemma Dump_total:
  assumes p: "stun_typed p" and op: "op_typed (Op_Dump ip_junk port_junk (tid, mi)) p"
  shows "\<exists>r. Dump ip_junk port_junk p (tid, mi) = Inr r"
proof -
  obtain tid' where tid': "hex_loop (transactionId p) 0 12 tid = Inr tid'"
    using hex_loop_all [of tid 12 "transactionId p"] p op by (auto simp: stun_typed_def)
  have addr: "dump_address ip_junk port_junk p = Inr ()"
  proof (cases "xorMappedAddress p")
    case (Some a)
    then have "\<exists>r. GetAddressInfo ip_junk a port_junk = Inr r"
      using p op by (intro GetAddressInfo_total) (simp_all add: stun_typed_def)
    with Some show ?thesis by (auto simp: dump_address_def)
  qed (simp add: dump_address_def)
  show ?thesis
  proof (cases "messageIntegrity p")
    case (Some off)
    with p obtain d where d: "stun_data p = Some d" "off + 20 \<le> length d"
      by (auto simp: stun_typed_def split: option.splits)
    then have "20 \<le> length (drop off d)" by simp
    then obtain mi' where "hex_loop (drop off d) 0 20 mi = Inr mi'"
      using hex_loop_all [of mi 20 "drop off d"] op by auto
    then show ?thesis using Some tid' addr d(1) by (simp add: Dump_def)
  qed (use tid' addr in \<open>simp add: Dump_def\<close>)
qed

lemma do_op_Dump:
  assumes "stun_typed p" "op_typed (Op_Dump ip_junk port_junk arrays) p"
  shows "do_op hmac c (Op_Dump ip_junk port_junk arrays) p = Inr p"
  using Dump_total [of p ip_junk port_junk "fst arrays" "snd arrays"] assms by auto

lemma do_op_typed:
  assumes "stun_typed p" "op_typed op p" "hmacSha1Ctx c = Ctx_Live" "\<And>k m. length (hmac k m) = 20"
  shows "\<exists>q. do_op hmac c op p = Inr q \<and> stun_typed q"
proof (cases op)
  case (Op_CheckAuthentication name pwd)
  obtain r q where "CheckAuthentication hmac c name pwd p = Inr (r, q)" "stun_typed q"
    using CheckAuthentication_total [where hmac = hmac, OF assms(1,3,4)] by blast
  then show ?thesis by (simp add: Op_CheckAuthentication)
next
  case (Op_Serialize buffer)
  then have "serialize_size p \<le> length buffer" using assms(2) by simp
  from Serialize_total [where hmac = hmac, OF assms(1,3,4) this] show ?thesis by (auto simp: Op_Serialize)
next
  case (Op_Dump ip_junk port_junk arrays)
  then show ?thesis using do_op_Dump assms(1,2) by blast
qed (use assms(1,2) in \<open>simp_all add: stun_typed_def stun_setters Authenticate_def CreateSuccessResponse_def
      CreateErrorResponse_def Stun_def string_of_bytes_def pad_to_4_def split: option.splits\<close>)

lemma run_ops_typed:
  assumes "stun_typed p" "ops_typed hmac c ops p" "hmacSha1Ctx c = Ctx_Live" "\<And>k m. length (hmac k m) = 20"
  shows "\<exists>q. run_ops hmac c ops p = Inr q \<and> stun_typed q"
  using assms(1,2)
proof (induction ops arbitrary: p)
  case (Cons op ops)
  then obtain q where "do_op hmac c op p = Inr q" "stun_typed q"
    using do_op_typed [where hmac = hmac, OF Cons.prems(1) _ assms(3,4)] by auto
  with Cons show ?case by simp
qed simp

section \<open>The parser makes well-typed objects\<close>

definition name_fits :: "nat \<Rightarrow> stun \<Rightarrow> bool" where
  "name_fits len p \<longleftrightarrow> username p = '''' \<or> 24 + length (username p) \<le> len"

lemma ref_attribute_name:
  assumes "ref_attribute pos a v st = Some st'" "name_fits len (packet st)" "20 \<le> pos" "pos + 4 + length v \<le> len"
  shows "name_fits len (packet st')"
  using assms
  by (cases a) (auto simp: ref_attribute_def name_fits_def stun_setters string_of_bytes_def split: if_splits)

lemma Parse_typed:
  assumes "len \<le> length data" "len < 2 ^ 16" "Parse data len = Some (Inr (Some p))"
  shows "stun_typed p"
proof -
  note ok = Parse_parsed_ok [OF assms]
  have init: "name_fits len (ref_packet data len)" by (simp add: name_fits_def ref_packet_def Stun_def)
  have "name_fits len p"
    by (rule Parse_packet(1) [where P = "name_fits len", OF assms init ref_attribute_name], assumption+)
  then have "pad_to_4 (length (username p)) < 2 ^ 16"
    using assms(2) pad_to_4_bounds(2) [of "length (username p)"] by (auto simp: name_fits_def pad_to_4_def)
  moreover have "length (take 12 (drop 8 data)) = 12"
  proof -
    have "12 \<le> length data - 8" using ok(2) assms(1) unfolding header_ok_def by linarith
    then show ?thesis by (simp add: min_absorb2)
  qed
  ultimately show ?thesis using ok assms(1) unfolding stun_typed_def parsed_ok_def header_ok_def by simp
qed

section \<open>The answer to a request\<close>

definition answer_to :: "stun \<Rightarrow> sockaddr \<Rightarrow> string \<Rightarrow> stun" where
  "answer_to p a pwd = Authenticate pwd (SetXorMappedAddress a (CreateSuccessResponse p))"

text \<open>How a client reads the value of XOR-MAPPED-ADDRESS (RFC 5389): the port and the address.\<close>

definition xor_bytes :: "bytes \<Rightarrow> bytes \<Rightarrow> bytes" where
  "xor_bytes xs ys = map2 (XOR) xs ys"

definition decode_address :: "bytes \<Rightarrow> bytes \<Rightarrow> bytes \<times> bytes" where
  "decode_address tid v =
     (xor_bytes (take 2 (drop 2 v)) (take 2 magicCookie), xor_bytes (drop 4 v) (magicCookie @ tid))"

definition port_bytes :: "sockaddr \<Rightarrow> bytes" where
  "port_bytes a = take 2 (sa_data a)"

definition host_bytes :: "sockaddr \<Rightarrow> bytes" where
  "host_bytes a = (if sa_family a = AF_INET then take 4 (drop 2 (sa_data a)) else take 16 (drop 6 (sa_data a)))"

lemma xor_bytes_twice: "length xs \<le> length ys \<Longrightarrow> xor_bytes (xor_bytes xs ys) ys = xs"
  by (induction xs ys rule: list_induct2') (simp_all add: xor_bytes_def xor.assoc)

lemma xor_bytes_prefix: "length xs \<le> length ys \<Longrightarrow> xor_bytes xs (ys @ zs) = xor_bytes xs ys"
  by (induction xs ys rule: list_induct2') (simp_all add: xor_bytes_def)

lemma length_xor_bytes [simp]: "length (xor_bytes xs ys) = min (length xs) (length ys)"
  by (simp add: xor_bytes_def)

lemma decode_address_value:
  assumes "sockaddr_complete a" "sa_family a = AF_INET \<or> sa_family a = AF_INET6" "length tid = 12"
  shows "decode_address tid (address_value tid a) = (port_bytes a, host_bytes a)"
proof -
  have len: "length (port_bytes a) = 2" "length (host_bytes a) \<le> 4 + length tid"
    "sa_family a = AF_INET \<Longrightarrow> length (host_bytes a) = 4"
    using assms by (auto simp: port_bytes_def host_bytes_def sockaddr_complete_def)
  have "address_value tid a = [0, if sa_family a = AF_INET then 1 else 2]
      @ xor_bytes (port_bytes a) (take 2 magicCookie) @ xor_bytes (host_bytes a) (magicCookie @ tid)"
    using len(3) xor_bytes_prefix [of "host_bytes a" magicCookie tid]
    by (cases "sa_family a = AF_INET") (simp_all add: address_value_def xor_bytes_def port_bytes_def host_bytes_def)
  then show ?thesis using len(1,2) by (simp add: decode_address_def xor_bytes_twice)
qed

lemma answer_fields:
  "klass (answer_to p a pwd) = SUCCESS_RESPONSE" "stun_method (answer_to p a pwd) = stun_method p"
  "transactionId (answer_to p a pwd) = transactionId p" "username (answer_to p a pwd) = ''''"
  "xorMappedAddress (answer_to p a pwd) = Some a" "password (answer_to p a pwd) = pwd"
  "priority (answer_to p a pwd) = 0" "iceControlling (answer_to p a pwd) = 0" "iceControlled (answer_to p a pwd) = 0"
  "hasUseCandidate (answer_to p a pwd) = False" "errorCode (answer_to p a pwd) = 0"
  by (simp_all add: answer_to_def Authenticate_def SetXorMappedAddress_def CreateSuccessResponse_def Stun_def)

lemma answer_representable:
  assumes p: "stun_typed p" and m: "stun_method p = BINDING"
    and a: "sockaddr_complete a" "sa_family a = AF_INET \<or> sa_family a = AF_INET6"
  shows "representable (answer_to p a pwd)" "addXorMappedAddress (answer_to p a pwd)"
    "serialize_size (answer_to p a pwd) \<le> 76"
proof -
  let ?r = "answer_to p a pwd"
  show x: "addXorMappedAddress ?r" using m a(2) by (simp add: addXorMappedAddress_def answer_fields)
  have ser: "serializable ?r" using p a(1) by (simp add: serializable_def answer_fields stun_typed_def pad_to_4_def)
  have "address_width ?r \<le> 24" by (simp add: address_width_def xorMappedAddressPaddedLen_def)
  then have "plain_width ?r \<le> 24"
    by (simp add: plain_width_def username_width_def answer_fields addErrorCode_def)
  then show size: "serialize_size ?r \<le> 76" by (simp add: serialize_size_eq [OF ser])
  then show "representable ?r" using ser m by (simp add: representable_def answer_fields BINDING_def)
qed

lemma message_window:
  assumes s: "serializable s" and hmac: "\<And>k m. length (hmac k m) = 20" and old: "plain_width s \<le> length old"
  shows "tlvs_of (take (serialize_size s - 20) (drop 20 (message_bytes hmac s (username_stale s old) @ rest)))
    = Some (message_tlvs hmac s (username_stale s old))"
proof -
  let ?ts = "message_tlvs hmac s (username_stale s old)"
  note parts = message_parts [where hmac = hmac, OF s hmac old]
  have ok: "list_all tlv_ok ?ts" using parts(1,3,5) by (simp add: message_tlvs_def Let_def)
  have "length (message_bytes hmac s (username_stale s old)) = serialize_size s"
    by (rule length_message_bytes [where hmac = hmac, OF s hmac old])
  then have "take (serialize_size s - 20) (drop 20 (message_bytes hmac s (username_stale s old) @ rest)) = enc_tlvs ?ts"
    using length_header_bytes [OF s] by (simp add: message_bytes_def)
  with tlvs_of_concat [OF ok] show ?thesis by simp
qed

text \<open>A request from a client, and the address that it comes from.\<close>

definition client :: sockaddr where
  "client = \<lparr>sa_family = AF_INET, sa_data = [0x1F, 0x90, 10, 0, 0, 1, 0, 0, 0, 0, 0, 0, 0, 0]\<rparr>"

lemma client_ok: "sockaddr_complete client" "sa_family client = AF_INET \<or> sa_family client = AF_INET6"
  "port_bytes client = [0x1F, 0x90]" "host_bytes client = [10, 0, 0, 1]"
  by (simp_all add: client_def sockaddr_complete_def port_bytes_def host_bytes_def)

lemma example_received:
  obtains b where "length b = 44" "Parse b 44 = Some (Inr (Some (received example_request b)))"
    "messageIntegrity (received example_request b) = None" "stun_method (received example_request b) = BINDING"
proof -
  let ?hmac = "\<lambda>(k :: bytes) (m :: bytes). replicate 20 (0 :: u8)"
  note facts = example_request_facts
  have r: "representable example_request"
    unfolding representable_def facts(1) using facts(2)
    by (simp add: example_request_def stun_setters Stun_def BINDING_def)
  have old: "plain_width example_request \<le> length (replicate 44 (0 :: u8))"
    using serialize_size_eq [OF facts(2)] facts(1) by simp
  let ?b = "message_bytes ?hmac example_request (username_stale example_request (replicate 44 0))"
  show thesis
    by (rule that [of ?b])
      (use Parse_message [where hmac = ?hmac, OF r _ old, of "[]"] length_message_bytes [where hmac = ?hmac, OF facts(2) _ old]
        facts in \<open>simp_all add: received_def serialized_def\<close>, simp add: example_request_def stun_setters Stun_def)
qed

section \<open>Properties\<close>

text \<open>C13: whatever the parser accepted, no sequence of the public members that change the object or follow its
  pointers (all the setters, \<open>SetMessageIntegrity\<close> included, \<open>Authenticate\<close>, both responses,
  \<open>CheckAuthentication\<close>, \<open>Serialize\<close>, \<open>Dump\<close>) faults on it, and the object that results is well typed.
  Each call must keep to what \<open>op_typed\<close> lists: a user name the length field can count, a complete
  address, an integrity pointer that is null or lies within the object's own message, a buffer of the size
  that \<open>Serialize\<close> computes, and for \<open>Dump\<close> of an object with an address a zero in the unwritten array that
  \<open>GetAddressInfo\<close> reads. The buffers and the address stay alive as long as the object points to them,
  and the HMAC context is alive.\<close>

theorem stun_type_soundness:
  assumes "len \<le> length data" "len < 2 ^ 16" "Parse data len = Some (Inr (Some p))"
    and "ops_typed hmac c ops p" "hmacSha1Ctx c = Ctx_Live" "\<forall>k m. length (hmac k m) = 20"
  shows "\<exists>q. run_ops hmac c ops p = Inr q \<and> stun_typed q"
proof -
  have hmac: "length (hmac k m) = 20" for k m using assms(6) by blast
  show ?thesis using run_ops_typed [where hmac = hmac, OF Parse_typed [OF assms(1-3)] assms(4,5) hmac] .
qed

definition blank_arrays :: "string \<times> string" where
  "blank_arrays = (replicate 25 (CHR 0x00), replicate 41 (CHR 0x00))"

theorem stun_type_soundness_witness:
  "\<exists>p q. stun_method p = BINDING
     \<and> run_ops (\<lambda>k m. replicate 20 1) (crypto_initial\<lparr>hmacSha1Ctx := Ctx_Live\<rparr>)
         [Op_Dump [] 0 blank_arrays, Op_SetMessageIntegrity (Some 24), Op_Dump [] 0 blank_arrays,
          Op_SetMessageIntegrity None, Op_CheckAuthentication ''a'' ''secret'', Op_CreateSuccessResponse,
          Op_SetXorMappedAddress client, Op_Authenticate ''secret'', Op_Serialize (replicate 100 0)] p
         = Inr q \<and> stun_typed q"
proof -
  obtain b where b: "length b = 44" "Parse b 44 = Some (Inr (Some (received example_request b)))"
    "messageIntegrity (received example_request b) = None" "stun_method (received example_request b) = BINDING"
    by (rule example_received)
  let ?p = "received example_request b"
  have "stun_typed ?p" by (rule Parse_typed [OF _ _ b(2)]) (simp_all add: b(1))
  have fields: "stun_data ?p = Some b" "stun_size ?p = 44" "xorMappedAddress ?p = None"
    using b(1) by (simp_all add: received_def serialized_def example_request_facts(1))
  have printed: "do_op (\<lambda>k m. replicate 20 1) (crypto_initial\<lparr>hmacSha1Ctx := Ctx_Live\<rparr>) (Op_Dump [] 0 blank_arrays) q = Inr q"
    if "stun_typed q" "xorMappedAddress q = None" for q
    by (rule do_op_Dump [OF that(1)]) (simp add: blank_arrays_def that(2))
  define p1 where "p1 = SetMessageIntegrity (Some 24) ?p"
  have p1: "stun_typed p1" "xorMappedAddress p1 = None" "SetMessageIntegrity None p1 = ?p"
    using \<open>stun_typed ?p\<close> fields b(3) by (simp_all add: p1_def stun_typed_def SetMessageIntegrity_def)
  have "serialize_size (answer_to ?p client ''secret'') \<le> 100"
    using answer_representable(3) [OF \<open>stun_typed ?p\<close> b(4) client_ok(1,2), of "''secret''"] by simp
  then have typed: "ops_typed (\<lambda>k m. replicate 20 1) (crypto_initial\<lparr>hmacSha1Ctx := Ctx_Live\<rparr>)
      [Op_Dump [] 0 blank_arrays, Op_SetMessageIntegrity (Some 24), Op_Dump [] 0 blank_arrays,
       Op_SetMessageIntegrity None, Op_CheckAuthentication ''a'' ''secret'', Op_CreateSuccessResponse,
       Op_SetXorMappedAddress client, Op_Authenticate ''secret'', Op_Serialize (replicate 100 0)] ?p"
    using client_ok(1) b(3) fields printed [OF \<open>stun_typed ?p\<close> fields(3)] printed [OF p1(1,2)] p1(2,3)
    by (simp add: p1_def [symmetric] blank_arrays_def CheckAuthentication_def answer_to_def del: do_op.simps(15)
        split: sum.split)
  have "\<forall>(k :: bytes) (m :: bytes). length (replicate 20 (1 :: u8)) = 20" by simp
  from stun_type_soundness [OF _ _ b(2) typed _ this] b(1,4) show ?thesis by auto
qed

text \<open>C15: the answer that is made from an accepted binding request with the address of its sender is accepted
  by the parser at the other end, is a success response with the transaction identifier of the request,
  and the address that a client decodes from it is the one that was put in.\<close>

theorem answer_reaches_requester:
  assumes "len \<le> length data" "len < 2 ^ 16" "Parse data len = Some (Inr (Some p))" "stun_method p = BINDING"
    and "sockaddr_complete a" "sa_family a = AF_INET \<or> sa_family a = AF_INET6"
    and "hmacSha1Ctx c = Ctx_Live" "\<forall>k m. length (hmac k m) = 20" "76 \<le> length buffer"
  shows "\<exists>s b n q ts v. Serialize hmac c (answer_to p a pwd) buffer = Inr (s, (b, n))
    \<and> Parse b n = Some (Inr (Some q)) \<and> klass q = SUCCESS_RESPONSE \<and> stun_method q = BINDING
    \<and> transactionId q = transactionId p
    \<and> tlvs_of (take (n - 20) (drop 20 b)) = Some ts \<and> (attribute_code XOR_MAPPED_ADDRESS, v, []) \<in> set ts
    \<and> decode_address (transactionId q) v = (port_bytes a, host_bytes a)"
proof -
  let ?r = "answer_to p a pwd"
  have hmac: "length (hmac k m) = 20" for k m using assms(8) by blast
  have p: "stun_typed p" by (rule Parse_typed [OF assms(1-3)])
  note r = answer_representable [OF p assms(4-6), of pwd]
  have ser: "serializable ?r" using r(1) by (simp add: representable_def)
  have room: "serialize_size ?r \<le> length buffer" using r(3) assms(9) by simp
  have old: "plain_width ?r \<le> length (drop 20 buffer)" using room serialize_size_eq [OF ser] by simp
  define b where "b = message_bytes hmac ?r (username_stale ?r (drop 20 buffer)) @ drop (serialize_size ?r) buffer"
  let ?v = "address_value (transactionId p) a"
  have "Serialize hmac c ?r buffer = Inr (serialized ?r b, (b, serialize_size ?r))"
    using Serialize_eq [where hmac = hmac, OF ser hmac _ room] assms(7) by (simp add: b_def)
  moreover have "Parse b (serialize_size ?r) = Some (Inr (Some (received ?r b)))"
    unfolding b_def using Parse_message [where hmac = hmac, OF r(1) hmac old] .
  moreover have "klass (received ?r b) = SUCCESS_RESPONSE" "stun_method (received ?r b) = BINDING"
    "transactionId (received ?r b) = transactionId p"
    using assms(4) by (simp_all add: received_def serialized_def answer_fields)
  moreover have "tlvs_of (take (serialize_size ?r - 20) (drop 20 b)) = Some (message_tlvs hmac ?r (username_stale ?r (drop 20 buffer)))"
    unfolding b_def by (rule message_window [where hmac = hmac, OF ser hmac old])
  moreover have "(attribute_code XOR_MAPPED_ADDRESS, ?v, []) \<in> set (message_tlvs hmac ?r (username_stale ?r (drop 20 buffer)))"
    using r(2) by (simp add: message_tlvs_def Let_def plain_tlvs_def address_tlvs_def answer_fields)
  moreover have "decode_address (transactionId p) ?v = (port_bytes a, host_bytes a)"
    by (rule decode_address_value [OF assms(5,6)]) (use p in \<open>simp add: stun_typed_def\<close>)
  ultimately show ?thesis by metis
qed

theorem answer_reaches_requester_witness:
  "\<exists>p s b n q v. Serialize (\<lambda>k m. replicate 20 1) (crypto_initial\<lparr>hmacSha1Ctx := Ctx_Live\<rparr>)
       (answer_to p client ''secret'') (replicate 76 0) = Inr (s, (b, n))
     \<and> Parse b n = Some (Inr (Some q)) \<and> transactionId q = transactionId p
     \<and> decode_address (transactionId q) v = ([0x1F, 0x90], [10, 0, 0, 1])"
proof -
  obtain b where b: "length b = 44" "Parse b 44 = Some (Inr (Some (received example_request b)))"
    "messageIntegrity (received example_request b) = None" "stun_method (received example_request b) = BINDING"
    by (rule example_received)
  have hmac: "\<forall>(k :: bytes) (m :: bytes). length (replicate 20 (1 :: u8)) = 20" by simp
  have len: "(44 :: nat) \<le> length b" "(44 :: nat) < 2 ^ 16" "(76 :: nat) \<le> length (replicate 76 (0 :: u8))"
    "hmacSha1Ctx (crypto_initial\<lparr>hmacSha1Ctx := Ctx_Live\<rparr>) = Ctx_Live" by (simp_all add: b(1))
  from answer_reaches_requester [OF len(1,2) b(2,4) client_ok(1,2) len(4) hmac len(3), of "''secret''"]
  show ?thesis unfolding client_ok(3,4) by blast
qed

end
