(* ===== verification/Media_Stats.thy ===== *)
theory Media_Stats
  imports Rtc_Peer
begin

text \<open>
  \<open>RtcPeer::GetMediaStats\<close> of \<open>src/rtc_peer.cpp\<close>: a report on the connection and the tracks of a peer,
  appended piece by piece to \<open>log_out_buffer_\<close> with \<open>snprintf\<close>. What the core answers to the five
  queries is an argument, \<open>None\<close> for a query that fails. The structures of the core have the fields
  that the report prints; losses are in hundredths of a percent.
\<close>

section \<open>What the core answers\<close>

record pc_status =
  stream_id :: "string option"
  pc_rtt :: u32
  send_bitrate_bps :: u64
  recv_bitrate_bps :: u64

record track_status =
  st_codec_type :: u32
  st_ssrc :: u32
  st_payload_type :: u32
  st_lable :: string
  st_rtt :: u32
  core_bitrate_bps :: u64
  real_bitrate_bps :: u64

record local_video_status = track_status +
  lv_profile_level_id :: string
  lv_recv_frame_num :: u32
  lv_pop_pkg_num :: u32

record local_audio_status = track_status +
  la_sample_rate :: u32
  la_channels :: u32
  la_recv_frame_num :: u32
  la_pop_pkg_num :: u32

record remote_video_status = track_status +
  rv_profile_level_id :: string
  rv_loss_before_recover :: u32
  rv_loss_after_recover :: u32
  rv_recv_pkg_num :: u32
  rv_lost_pkg_num :: u32
  rv_pli_cnt :: u32
  rv_recv_idr_num :: u32
  rv_frozen_time :: u32
  rv_pop_frame_num :: u32

record remote_audio_status = track_status +
  ra_sample_rate :: u32
  ra_channels :: u32
  ra_loss_before_recover :: u32
  ra_loss_after_recover :: u32
  ra_recv_pkg_num :: u32
  ra_lost_pkg_num :: u32
  ra_pop_frame_num :: u32

record stats_query =
  q_pc :: "pc_status option"
  q_local_video :: "local_video_status option"
  q_local_audio :: "local_audio_status option"
  q_remote_video :: "remote_video_status option"
  q_remote_audio :: "remote_audio_status option"

section \<open>Formatting\<close>

definition LOG_BUFF_LEN :: nat where "LOG_BUFF_LEN = 4096"

definition percent_u :: "'a::len word \<Rightarrow> string" where
  "percent_u w = to_string (unat w)"

definition kbps :: "u64 \<Rightarrow> string" where
  "kbps bps = percent_u (drop_bit 10 bps)"

text \<open>\<open>"%.2f%%"\<close> of a value divided by 100.\<close>

definition percent_2f :: "u32 \<Rightarrow> string" where
  "percent_2f n =
     to_string (unat n div 100) @ ''.'' @ [digit_char (unat n div 10 mod 10), digit_char (unat n mod 10)] @ ''%''"

definition codec_text :: "'a track_status_scheme \<Rightarrow> string" where
  "codec_text s =
     '' media codec_type:'' @ percent_u (st_codec_type s) @ '' ssrc:'' @ percent_u (st_ssrc s)
     @ '' pt:'' @ percent_u (st_payload_type s)"

definition net_text :: "'a track_status_scheme \<Rightarrow> string" where
  "net_text s =
     '' Net   rtt:'' @ percent_u (st_rtt s) @ '' bitrate:'' @ kbps (core_bitrate_bps s) @ ''->''
     @ kbps (real_bitrate_bps s) @ ''kpbs''"

text \<open>The texts that the calls of \<open>snprintf\<close> produce, in their order.\<close>

definition pc_texts :: "pc_status \<Rightarrow> string \<Rightarrow> string list" where
  "pc_texts s sid =
     ['' Stm   '' @ percent_s sid @ crlf,
      '' Net   rtt:'' @ percent_u (pc_rtt s) @ '' bitrate:[send:'' @ kbps (send_bitrate_bps s) @ ''|recv:''
        @ kbps (recv_bitrate_bps s) @ '']kpbs'' @ crlf]"

definition local_video_texts :: "local_video_status \<Rightarrow> string list" where
  "local_video_texts s =
     [''--------Local Video---------'' @ crlf,
      codec_text s @ '' profile_level_id:'' @ percent_s (lv_profile_level_id s) @ '' lable:'' @ percent_s (st_lable s) @ crlf,
      net_text s @ crlf,
      '' flow  recv:'' @ percent_u (lv_recv_frame_num s) @ '' pop_pkg:'' @ percent_u (lv_pop_pkg_num s) @ crlf]"

definition local_audio_texts :: "local_audio_status \<Rightarrow> string list" where
  "local_audio_texts s =
     [''--------Local Audio---------'' @ crlf,
      codec_text s @ '' sample_rate:'' @ percent_u (la_sample_rate s) @ ''HZ chn:'' @ percent_u (la_channels s)
        @ '' lable:'' @ percent_s (st_lable s) @ crlf,
      net_text s @ crlf,
      '' flow  recv:'' @ percent_u (la_recv_frame_num s) @ '' pop_pkg:'' @ percent_u (la_pop_pkg_num s) @ crlf]"

definition remote_video_texts :: "remote_video_status \<Rightarrow> string list" where
  "remote_video_texts s =
     [''--------Remote Video---------'' @ crlf,
      codec_text s @ '' profile_level_id:'' @ percent_s (rv_profile_level_id s) @ '' lable:'' @ percent_s (st_lable s) @ crlf,
      net_text s @ '' loss:'' @ percent_2f (rv_loss_before_recover s) @ ''->'' @ percent_2f (rv_loss_after_recover s) @ crlf,
      '' flow  recv:'' @ percent_u (rv_recv_pkg_num s) @ '' lost:'' @ percent_u (rv_lost_pkg_num s)
        @ '' pli:'' @ percent_u (rv_pli_cnt s) @ '' idr:'' @ percent_u (rv_recv_idr_num s)
        @ '' frozen:'' @ percent_u (rv_frozen_time s) @ '' pop_frame:'' @ percent_u (rv_pop_frame_num s) @ crlf]"

definition remote_audio_texts :: "remote_audio_status \<Rightarrow> string list" where
  "remote_audio_texts s =
     [''--------Remote Audio---------'' @ crlf,
      codec_text s @ '' sample_rate:'' @ percent_u (ra_sample_rate s) @ ''HZ chn:'' @ percent_u (ra_channels s)
        @ '' lable:'' @ percent_s (st_lable s) @ crlf,
      net_text s @ '' loss:'' @ percent_2f (ra_loss_before_recover s) @ ''->'' @ percent_2f (ra_loss_after_recover s) @ crlf,
      '' flow  recv:'' @ percent_u (ra_recv_pkg_num s) @ ''  lost:'' @ percent_u (ra_lost_pkg_num s)
        @ '' pop_frame:'' @ percent_u (ra_pop_frame_num s) @ crlf]"

definition texts_if :: "u32 \<Rightarrow> ('s \<Rightarrow> string list) \<Rightarrow> 's option \<Rightarrow> string list" where
  "texts_if ssrc texts q =
     (if ssrc \<noteq> 0 then (case q of None \<Rightarrow> [] | Some s \<Rightarrow> texts s) else [])"

definition track_texts :: "stats_query \<Rightarrow> peer \<Rightarrow> string list" where
  "track_texts q p =
     texts_if (local_video_ssrc p) local_video_texts (q_local_video q)
     @ texts_if (local_audio_ssrc p) local_audio_texts (q_local_audio q)
     @ texts_if (remote_video_ssrc p) remote_video_texts (q_remote_video q)
     @ texts_if (remote_audio_ssrc p) remote_audio_texts (q_remote_audio q)"

section \<open>The report\<close>

text \<open>
  \<open>out_len += snprintf(log_out_buffer_ + out_len, LOG_BUFF_LEN - out_len, \<dots>)\<close>: the second argument is
  converted to \<open>size_t\<close>, so that it is huge when \<open>out_len\<close> is beyond the buffer; the result counts the
  whole text, also what was cut off.
\<close>

definition snprintf_append :: "string \<Rightarrow> nat \<times> string \<Rightarrow> (nat \<times> string) res" where
  "snprintf_append text = (\<lambda>(out_len, buf).
     let n = (if out_len \<le> LOG_BUFF_LEN then LOG_BUFF_LEN - out_len else 2 ^ 64 - (out_len - LOG_BUFF_LEN))
     in if n = 0 then Inr (out_len + length text, buf)
        else bindR (wr_block buf out_len (take (n - 1) text @ [CHR 0x00])) (\<lambda>buf.
          Inr (out_len + length text, buf)))"

fun print_texts :: "string list \<Rightarrow> nat \<times> string \<Rightarrow> (nat \<times> string) res" where
  "print_texts [] out = Inr out"
| "print_texts (t # ts) out = bindR (snprintf_append t out) (print_texts ts)"

text \<open>What is printed in the end, if anything, and the buffer.\<close>

definition printed :: "string \<Rightarrow> string \<Rightarrow> string" where
  "printed time report = ''['' @ percent_s time @ '']'' @ crlf @ report @ crlf"

definition GetMediaStats ::
  "(u64 \<Rightarrow> calendar) \<Rightarrow> u64 \<Rightarrow> stats_query \<Rightarrow> peer \<Rightarrow> string \<Rightarrow> (string option \<times> string) res" where
  "GetMediaStats localtime time_ms q p buf =
     (case peer_connection p of
        None \<Rightarrow> Inr (None, buf)
      | Some pc \<Rightarrow>
          bindR (case q_pc q of
                   None \<Rightarrow> Inr (0, buf)
                 | Some s \<Rightarrow> (case stream_id s of
                     None \<Rightarrow> Inl Null_Deref
                   | Some sid \<Rightarrow> print_texts (pc_texts s sid) (0, buf))) (\<lambda>out.
          bindR (print_texts (track_texts q p) out) (\<lambda>(out_len, buf).
            if out_len \<noteq> 0
            then bindR (FilePrintTime localtime time_ms 64) (\<lambda>time.
                 bindR (c_prefix buf) (\<lambda>report. Inr (Some (printed time report), buf)))
            else Inr (None, buf))))"

section \<open>What the buffer holds\<close>

text \<open>The texts so far, cut off at the end of the buffer and closed by a zero.\<close>

definition holds :: "string \<Rightarrow> string \<Rightarrow> bool" where
  "holds acc buf \<longleftrightarrow>
     length buf = LOG_BUFF_LEN \<and> take (min (length acc) (LOG_BUFF_LEN - 1)) buf = take (LOG_BUFF_LEN - 1) acc
     \<and> (acc \<noteq> [] \<longrightarrow> buf ! min (length acc) (LOG_BUFF_LEN - 1) = CHR 0x00)"

lemma holds_Nil: "length buf = LOG_BUFF_LEN \<Longrightarrow> holds [] buf"
  by (simp add: holds_def)

lemma snprintf_append_holds:
  assumes h: "holds acc buf" and len: "length acc \<le> LOG_BUFF_LEN" and t: "t \<noteq> []"
  shows "\<exists>buf'. snprintf_append t (length acc, buf) = Inr (length (acc @ t), buf') \<and> holds (acc @ t) buf'"
proof (cases "length acc = LOG_BUFF_LEN")
  case True
  with h t show ?thesis by (auto simp: snprintf_append_def holds_def LOG_BUFF_LEN_def)
next
  case False
  define m where "m = LOG_BUFF_LEN - 1 - length acc"
  have m: "LOG_BUFF_LEN - length acc = Suc m" "length acc + m = LOG_BUFF_LEN - 1" and buf: "length buf = LOG_BUFF_LEN"
    using False len h by (simp_all add: m_def holds_def)
  have acc: "take (length acc) buf = acc" using h False len by (simp add: holds_def min_absorb1)
  define w where "w = take m t @ [CHR 0x00]"
  define buf' where "buf' = acc @ w @ drop (length acc + length w) buf"
  have w: "length w = Suc (min (length t) m)" by (simp add: w_def min.commute)
  have "wr_block buf (length acc) w = Inr buf'"
    using m w buf by (simp add: wr_block_Inr acc buf'_def)
  then have "snprintf_append t (length acc, buf) = Inr (length (acc @ t), buf')"
    using m len by (simp add: snprintf_append_def w_def)
  moreover have "length buf' = LOG_BUFF_LEN" using m w buf by (simp add: buf'_def)
  moreover have k: "min (length (acc @ t)) (LOG_BUFF_LEN - 1) = length acc + min (length t) m" using m by simp
  moreover have "take (length acc + min (length t) m) buf' = take (LOG_BUFF_LEN - 1) (acc @ t)"
  proof -
    have "length acc \<le> LOG_BUFF_LEN - 1" using m(2) by simp
    then have "take (LOG_BUFF_LEN - 1) (acc @ t) = acc @ take m t" by (simp add: m_def)
    moreover have "take (min (length t) m) t = take m t" by (simp add: min_def)
    ultimately show ?thesis by (simp add: buf'_def w_def)
  qed
  moreover have "buf' ! (length acc + min (length t) m) = CHR 0x00"
    by (simp add: buf'_def w_def nth_append min.commute)
  ultimately show ?thesis unfolding holds_def by auto
qed

lemma snprintf_append_overflow:
  "length buf = LOG_BUFF_LEN \<Longrightarrow> LOG_BUFF_LEN < out_len \<Longrightarrow> out_len < 2 ^ 63 \<Longrightarrow>
     snprintf_append t (out_len, buf) = Inl Out_Of_Bounds"
  by (simp add: snprintf_append_def LOG_BUFF_LEN_def Let_def)

lemma print_texts_holds:
  assumes "holds acc buf" "\<forall>t\<in>set ts. t \<noteq> []" "ts \<noteq> [] \<Longrightarrow> length acc + length (concat (butlast ts)) \<le> LOG_BUFF_LEN"
  shows "\<exists>buf'. print_texts ts (length acc, buf) = Inr (length (acc @ concat ts), buf') \<and> holds (acc @ concat ts) buf'"
  using assms
proof (induction ts arbitrary: acc buf)
  case (Cons t ts)
  have "length acc \<le> LOG_BUFF_LEN" "t \<noteq> []" using Cons.prems(2,3) by simp_all
  from snprintf_append_holds [OF Cons.prems(1) this]
  obtain buf1 where b: "snprintf_append t (length acc, buf) = Inr (length (acc @ t), buf1)" "holds (acc @ t) buf1"
    by blast
  have "ts \<noteq> [] \<Longrightarrow> length (acc @ t) + length (concat (butlast ts)) \<le> LOG_BUFF_LEN" using Cons.prems(3) by simp
  with Cons.IH [OF b(2)] Cons.prems(2) b(1) show ?case by simp
qed simp

lemma print_texts_overflow:
  assumes "holds acc buf" "\<forall>t\<in>set ts. t \<noteq> []" "ts \<noteq> []" "LOG_BUFF_LEN < length acc + length (concat (butlast ts))"
    and "length acc + length (concat ts) < 2 ^ 63"
  shows "print_texts ts (length acc, buf) = Inl Out_Of_Bounds"
  using assms
proof (induction ts arbitrary: acc buf)
  case (Cons t ts)
  show ?case
  proof (cases "length acc \<le> LOG_BUFF_LEN")
    case True
    then have ts: "ts \<noteq> []" using Cons.prems(4) by auto
    have "t \<noteq> []" using Cons.prems(2) by simp
    from snprintf_append_holds [OF Cons.prems(1) True this]
    obtain buf1 where b: "snprintf_append t (length acc, buf) = Inr (length (acc @ t), buf1)" "holds (acc @ t) buf1"
      by blast
    have "print_texts ts (length (acc @ t), buf1) = Inl Out_Of_Bounds"
      by (rule Cons.IH [OF b(2) _ ts]) (use Cons.prems ts in auto)
    then show ?thesis using b(1) by simp
  next
    case False
    then show ?thesis using Cons.prems by (simp add: snprintf_append_overflow holds_def)
  qed
qed simp

lemma holds_report:
  assumes "holds acc buf" "acc \<noteq> []" "CHR 0x00 \<notin> set acc"
  shows "c_prefix buf = Inr (take (LOG_BUFF_LEN - 1) acc)"
proof -
  let ?k = "min (length acc) (LOG_BUFF_LEN - 1)"
  have k: "?k < length buf" and len: "length buf = LOG_BUFF_LEN"
    using assms(1) by (auto simp: holds_def LOG_BUFF_LEN_def)
  have buf: "buf = take (LOG_BUFF_LEN - 1) acc @ CHR 0x00 # drop (Suc ?k) buf"
    using assms(1,2) id_take_nth_drop [OF k] by (simp add: holds_def)
  have "CHR 0x00 \<notin> set (take (LOG_BUFF_LEN - 1) acc)" using assms(3) by (auto dest: in_set_takeD)
  then have "takeWhile (\<lambda>c. c \<noteq> CHR 0x00) buf = take (LOG_BUFF_LEN - 1) acc"
    by (subst buf) (subst takeWhile_append2, auto)
  moreover have "CHR 0x00 \<in> set buf" by (subst buf) simp
  ultimately show ?thesis by (simp add: c_prefix_def)
qed

section \<open>The report as one text\<close>

definition report_texts :: "stats_query \<Rightarrow> peer \<Rightarrow> string list" where
  "report_texts q p =
     (case q_pc q of
        None \<Rightarrow> []
      | Some s \<Rightarrow> (case stream_id s of None \<Rightarrow> [] | Some sid \<Rightarrow> pc_texts s sid)) @ track_texts q p"

lemma print_texts_append: "print_texts (ts @ us) out = bindR (print_texts ts out) (print_texts us)"
proof (induction ts arbitrary: out)
  case (Cons t ts)
  have "print_texts (ts @ us) = (\<lambda>out. bindR (print_texts ts out) (print_texts us))"
    by (rule ext) (rule Cons.IH)
  then show ?case by (simp add: bindR_assoc)
qed simp

lemma GetMediaStats_eq:
  assumes "peer_connection p = Some pc" "\<And>s. q_pc q = Some s \<Longrightarrow> stream_id s \<noteq> None"
    and "FilePrintTime localtime time_ms 64 = Inr time"
  shows "GetMediaStats localtime time_ms q p buf =
    bindR (print_texts (report_texts q p) (0, buf)) (\<lambda>(out_len, buf).
      if out_len \<noteq> 0 then bindR (c_prefix buf) (\<lambda>report. Inr (Some (printed time report), buf))
      else Inr (None, buf))"
  unfolding GetMediaStats_def report_texts_def assms(3) bindR_Inr
  using assms(1,2) by (cases "q_pc q") (auto simp: print_texts_append bindR_assoc)

lemma to_string_nonzero: "CHR 0x00 \<notin> set (to_string n)"
  using to_string_digits [of "CHR 0x00" n] by (auto simp: is_digit_def)

lemma format_nonzero:
  "CHR 0x00 \<notin> set (percent_s t)" "CHR 0x00 \<notin> set (percent_u w)" "CHR 0x00 \<notin> set (kbps b)"
  "CHR 0x00 \<notin> set crlf" "CHR 0x00 \<notin> set (codec_text s)" "CHR 0x00 \<notin> set (net_text s)"
  by (auto simp: percent_s_def percent_u_def kbps_def crlf_def codec_text_def net_text_def to_string_nonzero
      dest: set_takeWhileD)

lemma percent_2f_nonzero: "CHR 0x00 \<notin> set (percent_2f n)"
proof -
  have "digit_char (k mod 10) \<noteq> CHR 0x00" for k
  proof
    assume "digit_char (k mod 10) = CHR 0x00"
    then have "of_char (digit_char (k mod 10)) = (0 :: nat)" by simp
    then show False by (simp add: digit_char_def)
  qed
  then show ?thesis by (auto simp: percent_2f_def to_string_nonzero dest: sym)
qed

text \<open>A piece is clean when it is not empty and has no zero character.\<close>

definition clean :: "string \<Rightarrow> bool" where
  "clean t \<longleftrightarrow> t \<noteq> [] \<and> CHR 0x00 \<notin> set t"

lemma pc_texts_clean: "t \<in> set (pc_texts s sid) \<Longrightarrow> clean t"
  unfolding pc_texts_def clean_def by (auto simp: format_nonzero)

lemma local_texts_clean:
  "t \<in> set (local_video_texts v) \<Longrightarrow> clean t" "t \<in> set (local_audio_texts a) \<Longrightarrow> clean t"
  unfolding local_video_texts_def local_audio_texts_def clean_def by (auto simp: format_nonzero crlf_def)

lemma remote_texts_clean:
  "t \<in> set (remote_video_texts v) \<Longrightarrow> clean t" "t \<in> set (remote_audio_texts a) \<Longrightarrow> clean t"
  unfolding remote_video_texts_def remote_audio_texts_def clean_def
  by (auto simp: format_nonzero percent_2f_nonzero crlf_def)

lemma texts_if_clean:
  assumes t: "t \<in> set (texts_if ssrc texts q)" and texts: "\<And>s t. t \<in> set (texts s) \<Longrightarrow> clean t"
  shows "clean t"
proof -
  from t have "ssrc \<noteq> 0" unfolding texts_if_def by (rule contrapos_pp) simp
  with t obtain s where "q = Some s" "t \<in> set (texts s)" unfolding texts_if_def by (cases q) simp_all
  then show ?thesis using texts by blast
qed

lemma track_texts_clean: "t \<in> set (track_texts q p) \<Longrightarrow> clean t"
  unfolding track_texts_def set_append Un_iff
  by (elim disjE) (rule texts_if_clean, assumption, erule local_texts_clean remote_texts_clean)+

lemma report_texts_clean: "t \<in> set (report_texts q p) \<Longrightarrow> clean t"
  unfolding report_texts_def
  by (auto dest: pc_texts_clean track_texts_clean split: option.splits)

section \<open>Properties\<close>

text \<open>C32: the report is written within its buffer of 4096 characters exactly when all pieces but the last one
  fit; the pieces in a row, cut off after 4095 characters, are then printed after the time. Otherwise the call writes behind the
  buffer, because the lengths of cut texts are counted in full. A long stream name is enough for that.\<close>

theorem GetMediaStats_overflow_iff:
  assumes "peer_connection p = Some pc" "\<forall>s. q_pc q = Some s \<longrightarrow> stream_id s \<noteq> None"
    and "length buf = LOG_BUFF_LEN" "length (concat (report_texts q p)) < 2 ^ 31"
    and "FilePrintTime localtime time_ms 64 = Inr time"
  shows "if length (concat (butlast (report_texts q p))) \<le> LOG_BUFF_LEN
    then \<exists>buf'. GetMediaStats localtime time_ms q p buf = Inr (if report_texts q p = [] then None
          else Some (printed time (take (LOG_BUFF_LEN - 1) (concat (report_texts q p)))), buf')
    else GetMediaStats localtime time_ms q p buf = Inl Out_Of_Bounds"
proof -
  let ?ts = "report_texts q p"
  have clean: "\<forall>t\<in>set ?ts. t \<noteq> []" "CHR 0x00 \<notin> set (concat ?ts)" using report_texts_clean by (auto simp: clean_def)
  note h = holds_Nil [OF assms(3)]
  have eq: "GetMediaStats localtime time_ms q p buf =
    bindR (print_texts ?ts (length ([] :: string), buf)) (\<lambda>(out_len, buf).
      if out_len \<noteq> 0 then bindR (c_prefix buf) (\<lambda>report. Inr (Some (printed time report), buf))
      else Inr (None, buf))"
    using GetMediaStats_eq [OF assms(1) _ assms(5), of q buf] assms(2) by simp
  show ?thesis
  proof (cases "length (concat (butlast ?ts)) \<le> LOG_BUFF_LEN")
    case True
    then obtain buf' where p: "print_texts ?ts (length ([] :: string), buf) = Inr (length (concat ?ts), buf')" "holds (concat ?ts) buf'"
      using print_texts_holds [OF h clean(1)] by auto
    show ?thesis
    proof (cases "?ts = []")
      case False
      then have "concat ?ts \<noteq> []" using clean(1) by (cases ?ts) auto
      with p holds_report [OF p(2)] clean(2) True False show ?thesis by (simp add: eq)
    next
      case True
      then show ?thesis unfolding eq by simp
    qed
  next
    case False
    then have "?ts \<noteq> []" by auto
    with print_texts_overflow [OF h clean(1)] False assms(4) show ?thesis by (simp add: eq)
  qed
qed

text \<open>A peer without tracks on a connection whose stream name has 4100 characters.\<close>

definition trackless_peer :: peer where
  "trackless_peer = (RtcPeer Player) \<lparr>peer_connection := Some 1\<rparr>"

definition long_name_query :: stats_query where
  "long_name_query = \<lparr>q_pc = Some \<lparr>stream_id = Some (replicate 4100 CHR ''a''), pc_rtt = 0, send_bitrate_bps = 0,
       recv_bitrate_bps = 0\<rparr>,
     q_local_video = None, q_local_audio = None, q_remote_video = None, q_remote_audio = None\<rparr>"

theorem GetMediaStats_overflow_iff_witness:
  "GetMediaStats (\<lambda>_. new_year) 0 long_name_query trackless_peer (replicate LOG_BUFF_LEN CHR 0x00) = Inl Out_Of_Bounds"
proof -
  let ?name = "replicate 4100 CHR ''a''"
  have zero: "to_string 0 = ''0''" by code_simp
  have name: "percent_s ?name = ?name" by (simp add: percent_s_def takeWhile_eq_all_conv)
  have texts: "report_texts long_name_query trackless_peer =
      ['' Stm   '' @ ?name @ crlf, '' Net   rtt:0 bitrate:[send:0|recv:0]kpbs'' @ crlf]"
    unfolding report_texts_def pc_texts_def track_texts_def
    by (simp add: long_name_query_def trackless_peer_def RtcPeer_def texts_if_def percent_u_def kbps_def zero name)
  have "\<not> length (concat (butlast (report_texts long_name_query trackless_peer))) \<le> LOG_BUFF_LEN"
    and "length (concat (report_texts long_name_query trackless_peer)) < 2 ^ 31"
    unfolding texts LOG_BUFF_LEN_def crlf_def by simp_all
  moreover obtain time where "FilePrintTime (\<lambda>_. new_year) 0 64 = Inr time"
    by (rule time_texts [where localtime = "\<lambda>_. new_year" and time_ms = 0]) (simp_all add: year_ok_def new_year_def)
  ultimately show ?thesis
    using GetMediaStats_overflow_iff [of trackless_peer 1 long_name_query "replicate LOG_BUFF_LEN CHR 0x00"
        "\<lambda>_. new_year" 0 time]
    by (simp add: trackless_peer_def long_name_query_def)
qed

end
