(* ===== verification/Ntp_Time.thy ===== *)
theory Ntp_Time
  imports Prelude
begin

text \<open>
  The class \<open>Utils::Time\<close> of \<open>src/Utils.h\<close>: conversion between milliseconds and NTP
  timestamps, and the comparison of 32-bit timestamps that wrap around. The conversions go
  through \<open>double\<close>; the division by 1000 is modelled as IEEE 754 binary64 division on natural
  numbers, rounded to the nearest and to even on a tie, because it is not exact. Scaling by
  \<open>2 ^ 32\<close> and products below \<open>2 ^ 53\<close> are exact and need no rounding.
\<close>

section \<open>Binary64 division of small naturals\<close>

definition round_half_even :: "nat \<Rightarrow> nat \<Rightarrow> nat" where
  "round_half_even n d =
     (let q = n div d; r = n mod d
      in if 2 * r < d then q else if d < 2 * r then q + 1 else if even q then q else q + 1)"

text \<open>
  \<open>fdiv a b = (m, e)\<close> is the double \<open>m / 2 ^ e\<close> nearest to \<open>a / b\<close>, for \<open>a < b\<close>: the
  quotient is scaled so that its integer part has 53 bits.
\<close>

definition fdiv :: "nat \<Rightarrow> nat \<Rightarrow> nat \<times> nat" where
  "fdiv a b =
     (case List.find (\<lambda>j. b \<le> a * 2 ^ j) [0..<1022] of
        None \<Rightarrow> (0, 52)
      | Some j \<Rightarrow> (round_half_even (a * 2 ^ (52 + j)) b, 52 + j))"

lemma round_half_even_bounds:
  "n div d \<le> round_half_even n d" "round_half_even n d \<le> n div d + 1"
  by (auto simp: round_half_even_def Let_def)

section \<open>Conversions\<close>

record Ntp =
  seconds :: u32
  fractions :: u32

definition TimeMs2Ntp :: "u64 \<Rightarrow> Ntp" where
  "TimeMs2Ntp ms =
     \<lparr>seconds = ucast (ms div 1000),
      fractions = (let (m, e) = fdiv (unat (ms mod 1000)) 1000 in of_nat (m div 2 ^ (e - 32)))\<rparr>"

definition Ntp2TimeMs :: "Ntp \<Rightarrow> u64" where
  "Ntp2TimeMs ntp =
     ucast (seconds ntp) * 1000
     + of_nat ((unat (fractions ntp) * 1000 + 2 ^ 31) div 2 ^ 32)"

text \<open>The rounded quotient still has the exact quotient as its integer part.\<close>

lemma rounded_quotient_floor:
  fixes N s :: nat
  assumes "2000 \<le> (2 :: nat) ^ s"
  shows "round_half_even (N * 2 ^ s) 1000 div 2 ^ s = N div 1000"
proof -
  define P q r where "P = (2 :: nat) ^ s" and "q = N div 1000" and "r = N mod 1000"
  have N: "N * P = 1000 * (q * P) + r * P"
  proof -
    have "N = 1000 * q + r" by (simp add: q_def r_def)
    then have "N * P = (1000 * q + r) * P" by simp
    also have "\<dots> = 1000 * (q * P) + r * P" by (simp add: algebra_simps)
    finally show ?thesis .
  qed
  have "r \<le> 999" using mod_less_divisor [of 1000 N] by (simp add: r_def)
  then have "r * P \<le> 999 * P" by simp
  moreover have "2000 \<le> P" using assms by (simp add: P_def)
  ultimately have hi: "(N * P) div 1000 + 1 < q * P + P" and lo: "q * P \<le> (N * P) div 1000"
    using N by linarith+
  from round_half_even_bounds [of "N * P" 1000] lo hi
  have "q * P \<le> round_half_even (N * P) 1000" "round_half_even (N * P) 1000 < q * P + P"
    by linarith+
  then have "round_half_even (N * P) 1000 div P = q"
    by (intro div_nat_eqI) (simp_all add: mult.commute)
  then show ?thesis by (simp add: P_def q_def)
qed

lemma fdiv_1000:
  assumes "k < 1000"
  shows "(let (m, e) = fdiv k 1000 in m div 2 ^ (e - 32)) = k * 2 ^ 32 div 1000"
proof (cases "k = 0")
  case True
  have "List.find (\<lambda>j. 1000 \<le> (0 :: nat) * 2 ^ j) [0..<1022] = None"
    by (simp add: find_None_iff)
  with True show ?thesis by (simp add: fdiv_def)
next
  case False
  show ?thesis
  proof (cases "List.find (\<lambda>j. 1000 \<le> k * 2 ^ j) [0..<1022]")
    case None
    then have "\<forall>j < 1022. \<not> 1000 \<le> k * 2 ^ j" by (simp add: find_None_iff)
    then have "\<not> 1000 \<le> k * 2 ^ 10" by (rule allE [of _ 10]) simp
    with False show ?thesis by simp
  next
    case (Some j)
    have "(2 :: nat) ^ 20 * 1 \<le> 2 ^ 20 * 2 ^ j" by (intro mult_le_mono2) simp
    then have "2000 \<le> (2 :: nat) ^ (20 + j)" unfolding power_add by (rule order_trans [rotated]) simp
    then have "round_half_even (k * 2 ^ 32 * 2 ^ (20 + j)) 1000 div 2 ^ (20 + j) = k * 2 ^ 32 div 1000"
      by (rule rounded_quotient_floor)
    moreover have "k * 2 ^ 32 * 2 ^ (20 + j) = k * 2 ^ (52 + j)"
      by (simp only: mult.assoc power_add [symmetric]) simp
    ultimately have "round_half_even (k * 2 ^ (52 + j)) 1000 div 2 ^ (20 + j) = k * 2 ^ 32 div 1000"
      by (simp only:)
    with Some show ?thesis by (simp add: fdiv_def)
  qed
qed

lemma fractions_TimeMs2Ntp:
  "unat (fractions (TimeMs2Ntp ms)) = unat ms mod 1000 * 2 ^ 32 div 1000"
proof -
  have k: "unat (ms mod 1000) = unat ms mod 1000" by (simp add: unat_mod)
  have "unat ms mod 1000 * 2 ^ 32 div 1000 < 2 ^ 32"
    by (rule div_less_iff_less_mult [THEN iffD2]) simp_all
  moreover have "fractions (TimeMs2Ntp ms) = of_nat (unat ms mod 1000 * 2 ^ 32 div 1000)"
    using fdiv_1000 [of "unat ms mod 1000"]
    by (simp add: TimeMs2Ntp_def k split: prod.splits)
  ultimately show ?thesis by (simp add: unat_of_nat)
qed

lemma seconds_TimeMs2Ntp: "unat (seconds (TimeMs2Ntp ms)) = unat ms div 1000 mod 2 ^ 32"
  by (simp add: TimeMs2Ntp_def unsigned_ucast_eq take_bit_eq_mod unat_div)

lemma ms_of_fractions:
  fixes k :: nat assumes "k < 1000"
  shows "((k * 2 ^ 32 div 1000) * 1000 + 2 ^ 31) div 2 ^ 32 = k"
proof -
  define n where "n = k * 2 ^ 32"
  have "n = n div 1000 * 1000 + n mod 1000" "n mod 1000 < 1000" by simp_all
  then have "n div 1000 * 1000 \<le> n" "n < n div 1000 * 1000 + 1000" by linarith+
  then show ?thesis unfolding n_def by (intro div_nat_eqI) simp_all
qed

text \<open>A time in milliseconds survives the conversion to an NTP timestamp and back, up to the
  wrap-around of the 32-bit seconds field.\<close>

theorem ntp_roundtrip: "unat (Ntp2TimeMs (TimeMs2Ntp ms)) = unat ms mod (1000 * 2 ^ 32)"
proof -
  define s k where "s = unat ms div 1000 mod 2 ^ 32" and "k = unat ms mod 1000"
  have "k < 1000" "s < 2 ^ 32" by (simp_all add: s_def k_def)
  have "unat (ucast (seconds (TimeMs2Ntp ms)) :: u64) = s"
    by (simp add: unsigned_ucast_eq take_bit_eq_mod seconds_TimeMs2Ntp s_def)
  moreover have "(unat (fractions (TimeMs2Ntp ms)) * 1000 + 2 ^ 31) div 2 ^ 32 = k"
    unfolding fractions_TimeMs2Ntp k_def by (rule ms_of_fractions) simp
  ultimately have "unat (Ntp2TimeMs (TimeMs2Ntp ms)) = (s * 1000 + k) mod 2 ^ 64"
    by (simp add: Ntp2TimeMs_def unat_word_ariths unat_of_nat mod_simps)
  also have "\<dots> = s * 1000 + k" using \<open>k < 1000\<close> \<open>s < 2 ^ 32\<close> by simp
  also have "\<dots> = unat ms mod (1000 * 2 ^ 32)"
    unfolding s_def k_def mod_mult2_eq by (simp add: mult.commute)
  finally show ?thesis .
qed

section \<open>Wrapping timestamps\<close>

definition IsNewerTimestamp :: "u32 \<Rightarrow> u32 \<Rightarrow> bool" where
  "IsNewerTimestamp timestamp prevTimestamp =
     (if timestamp - prevTimestamp = 0x80000000 then timestamp > prevTimestamp
      else timestamp \<noteq> prevTimestamp \<and> timestamp - prevTimestamp < 0x80000000)"

definition LatestTimestamp :: "u32 \<Rightarrow> u32 \<Rightarrow> u32" where
  "LatestTimestamp timestamp1 timestamp2 =
     (if IsNewerTimestamp timestamp1 timestamp2 then timestamp1 else timestamp2)"

lemma half_range_neg: "- d < 0x80000000 \<longleftrightarrow> \<not> d < 0x80000000" if "d \<noteq> 0" "d \<noteq> 0x80000000" for d :: u32
proof -
  have "unat (- d) = 2 ^ 32 - unat d" using that(1) unat_sub_if' [of 0 d] by (simp add: unat_gt_0)
  moreover have "unat d < 2 ^ 32" using unsigned_less [of d] by simp
  moreover have "unat d \<noteq> 0x80000000"
    using that(2) by (simp add: word_unat_eq_iff)
  ultimately show ?thesis by (auto simp: word_less_nat_alt)
qed

text \<open>Of two different timestamps exactly one is newer, none is newer than itself, and the
  latest of two does not depend on their order.\<close>

theorem timestamp_order_total:
  "IsNewerTimestamp a b \<noteq> (IsNewerTimestamp b a \<or> a = b)
   \<and> LatestTimestamp a b = LatestTimestamp b a"
proof -
  have neg: "b - a = - (a - b)" by simp
  have "IsNewerTimestamp a b \<noteq> (IsNewerTimestamp b a \<or> a = b)"
  proof (cases "a = b \<or> a - b = 0x80000000")
    case True
    moreover have "b - a = 0x80000000" if "a - b = 0x80000000" unfolding neg that by simp
    ultimately show ?thesis by (auto simp: IsNewerTimestamp_def)
  next
    case False
    then have d: "a - b \<noteq> 0" "a - b \<noteq> 0x80000000" by auto
    moreover have "- (0x80000000 :: u32) = 0x80000000" by simp
    ultimately have "b - a \<noteq> 0x80000000" unfolding neg by (metis minus_minus)
    with d half_range_neg [OF d] show ?thesis
      unfolding IsNewerTimestamp_def neg by auto
  qed
  then show ?thesis by (auto simp: LatestTimestamp_def)
qed

end
