(* ===== verification/Spec2Isabelle.thy ===== *)
theory Spec2Isabelle
  imports Delivery Stun_Response Stun_Dump Media_Stats Ntp_Time
begin

text \<open>
  The SARS server: a WebRTC selective forwarding server in C++ (\<open>src/\<close>). A publisher and any number of
  players meet on a named stream. Signalling is HTTP: a client posts a session description and a stream
  address, and gets an answer. Media is UDP: one socket receives the packets of all clients, STUN
  binding requests tie a client's address to the peer that was made for it, and every other packet goes
  to the peer of its address. The WebRTC core (not in the repository) turns packets into media units and
  calls back; the server copies every media unit of a publisher to the connected players.

  \<^bold>\<open>Parts and theories.\<close>

  \<^item> \<open>Prelude\<close>: outcomes as values (\<open>'a res\<close> is a \<open>fault\<close> or a result; \<open>bindR\<close>), checked reads and
    writes of buffers, and the collections \<open>res_simps\<close>, \<open>codec_simps\<close>, \<open>inv_intros\<close>.
  \<^item> \<open>Byte_Ops\<close>, \<open>Crypto_Ops\<close>, \<open>Ntp_Time\<close>, \<open>Ip_Addr\<close>: \<open>Utils.h\<close> and \<open>Utils.cpp\<close> (byte access, padding,
    CRC-32, random numbers, the HMAC context, NTP time, socket addresses). The byte codecs meet the
    locale \<open>be_codec\<close>, the CRC the locale \<open>streaming_checksum\<close>.
  \<^item> \<open>Text_Ops\<close>: the operations of \<open>std::string\<close> that the server uses, \<open>getUfragFromSdp\<close>
    (\<open>rtc_server.cpp\<close>) and \<open>GetStreamIdFromStreamUrl\<close> (\<open>rtc_peer.cpp\<close>).
  \<^item> \<open>Stun_Message\<close>, \<open>Stun_Parse\<close>, \<open>Stun_Serialize\<close>, \<open>Stun_Auth\<close>, \<open>Stun_Dump\<close>: class \<open>Stun\<close> of \<open>Stun.h\<close>
    and \<open>Stun.cpp\<close>. \<open>Stun_Reference\<close> has a two-phase parser (split into attributes, then interpret),
    which \<open>Stun::Parse\<close> is shown to compute; \<open>Stun_Roundtrip\<close> relates serialiser and parser;
    \<open>Stun_Response\<close> follows an object through any sequence of the public members that change it or follow
    its pointers (\<open>stun_op\<close>; the accessors copy a field), and an answer to its receiver. Each
    attribute writer meets the locale \<open>attribute_writer\<close>; writers compose, and the layout of the whole
    message follows from the composition.
  \<^item> \<open>Std_Map\<close>: \<open>std::map\<close> as an ordered sequence of pairs, by the locale \<open>std_map_laws\<close>.
  \<^item> \<open>Dump_File\<close>, \<open>Rtc_Peer\<close>, \<open>Media_Stats\<close>: \<open>rtc_peer.hpp\<close> and \<open>rtc_peer.cpp\<close>: the dump files, the peer
    with its connection state, tracks and packets, and the report \<open>GetMediaStats\<close>. What \<open>fwrite\<close> does is
    an argument (\<open>fwrite\<close>), and the dump is followed over any sequence of the callbacks of a peer
    (\<open>callback\<close>); the directory and the name of the dump file are given for every clock.
  \<^item> \<open>Stream_Cache\<close>: \<open>scache.cpp\<close>, \<open>rtc_publisher.cpp\<close>, \<open>rtc_player.cpp\<close>: the heap of peers and streams
    (shared pointers are indices), forwarding, and the virtual callbacks by class.
  \<^item> \<open>Rtc_Server\<close>: \<open>rtc_server.cpp\<close> and the timer loop of \<open>sars.cpp\<close>. \<open>Signalling\<close>: \<open>signalling.cpp\<close> and
    the start of \<open>main\<close>. Calls of the core, writes to sockets and files are a trace of \<open>effect\<close>s.
  \<^item> \<open>Server_Invariant\<close>, \<open>Packet_Routing\<close>: the invariant of the server and the packet path as a
    function of the state. \<open>Server_Steps\<close>, \<open>Server_Runs\<close>, \<open>Sessions\<close>: the server as a transition system
    whose events are packets, the two parts of a request, other HTTP requests, the callbacks of the core
    (the empty ones included) and the timer. It starts where \<open>run\<close> has opened the socket.
  \<^item> \<open>Sfu_Spec\<close>: what a forwarding server promises, as a machine of sessions, rooms and tickets whose
    labels are the media that arrives and the connections that are fed. \<open>Sfu_View\<close> reads a state of the
    server as a state of the machine, and \<open>Sfu_Refinement\<close> interprets the locale \<open>simulation\<close> on the two.
  \<^item> \<open>Connection_Lifetime\<close>: the connections that the core hands out, from creation to deletion, as a
    property of the trace of effects. \<open>Delivery\<close> joins it to the refinement: nobody is fed twice.

  \<^bold>\<open>What the lemmas show.\<close> The parser is total below \<open>2 ^ 16\<close> bytes, reads nothing outside the message and
  accepts exactly the well-formed messages; the serialiser stays within its buffer exactly when it has
  the computed size, and parser and serialiser are inverse; authentication is the specification of
  message integrity. An accepted message can go through every sequence of operations without a fault, as
  long as each call keeps to its types (\<open>op_typed\<close>), and
  the answer to a request reaches its sender with the sender's address. The dump of a peer holds what was
  written of the first 1201 video units and nothing else, in a file of the directory of its hour. The server refines the forwarding
  machine under every interleaving: media stays in its stream, streams only fill, and a stream has one
  publisher at a time, and a media unit reaches a connection at most once. No connection is used after its
  deletion. Every reachable state of the server satisfies its invariant; no event hangs, and
  the faults are exactly the listed ones: unreadable requests, a default page that is missing, media before
  a publish request has ended, key frame requests without a publisher's connection, and sends of a peer
  that has not accepted a packet yet. Bindings are permanent, a published stream stays
  published, and a whole session ends in the media reaching the player. Several theorems show what the
  code does although it can hardly be meant: the race of two publish requests, the stream that a failed
  publish occupies, the binding request that needs no password, the overflow of the report, the stream
  address that begins with \<open>?\<close>, the parser that does not end on a message of 65552 bytes.

  \<^bold>\<open>Bounds.\<close> Messages below \<open>2 ^ 16\<close> bytes: the receive loop takes at most 2048, so that every packet is
  covered; the attribute loop has no fuel, and its termination is proved. Sizes of strings are natural
  numbers with \<open>npos = 2 ^ 64 - 1\<close>; conversions to 32 bits are written out. Words are of the widths of
  the source.

  \<^bold>\<open>Assumptions.\<close> HMAC-SHA1, JSON, the file system, clocks, \<open>inet_pton\<close>, random numbers and the answers of
  the core are parameters. The core hands out a connection once (only \<open>Connection_Lifetime\<close> and \<open>Delivery\<close> need this).
  It calls back only on a peer that has a connection, and the coroutines
  give up the processor only at reads, writes and sleeps; in particular calls into the core, such as the
  \<open>FeedMediaData\<close> in the loop of \<open>CacheMedia\<close>, return without yielding. The JSON library's \<open>dump\<close> of an
  answer does not throw (it would on text that is not UTF-8). \<open>Cycle\<close> is the receive loop by itself, on a
  finite list of packets; the interleaving with the other coroutines is that of the transition system. A peer is destroyed when the last owner lets
  it go, which only the replacement of a publisher can do; its index keeps an empty object.

  \<^bold>\<open>Not modelled.\<close> Logs; \<open>GetFamily\<close>, \<open>NormalizeIp\<close>, \<open>CheckFile\<close> and
  \<open>CountSetBits\<close>, which are declared and nowhere defined; the private virtuals \<open>DoDecode\<close> and \<open>DoPlay\<close>,
  which are empty and never called; the empty files \<open>rtc_forwarder.cpp\<close> and
  \<open>rtc_ingester.cpp\<close>; the destructors of the server and of the signalling object, which outlive \<open>main\<close>'s
  endless loop, and those of packets and media units, which the core owns; the libraries.
\<close>

end
